(* ===== verification/Prelude.thy ===== *)
theory Prelude
  imports Main "HOL-Library.Word" "HOL-Library.Char_ord" "HOL-Library.List_Lexorder"
begin

text \<open>
  What every component shares: the Go types the model uses, Go's error values with
  \<^verbatim>\<open>errors.Is\<close> and \<^verbatim>\<open>Error()\<close>, 64-bit integers with their wrap-around, the functions
  of the \<^verbatim>\<open>strings\<close> and \<^verbatim>\<open>strconv\<close> packages the sources call, and the generic lemmas
  the component proofs rest on.
\<close>

section \<open>Shared types and lemma collections\<close>

named_theorems go_defs \<open>unfolding rules of the small helper functions\<close>
named_theorems store_laws \<open>what a store call does to the view of a document\<close>

type_synonym byte = "8 word"
type_synonym bytes = "byte list"

text \<open>
  A Go \<^verbatim>\<open>string\<close> is a byte sequence: \<^typ>\<open>string\<close>, a list of 8-bit characters. A
  \<^verbatim>\<open>[]byte\<close> is a list of bytes (a nil slice and an empty one are both the empty list).
  A \<^verbatim>\<open>time.Time\<close> or \<^verbatim>\<open>time.Duration\<close> is an integer (milliseconds for stored
  timestamps, nanoseconds for durations).
\<close>

definition string_of_bytes :: "bytes \<Rightarrow> string" where
  "string_of_bytes bs = map (\<lambda>b. char_of (unat b)) bs"

definition bytes_of_string :: "string \<Rightarrow> bytes" where
  "bytes_of_string s = map (\<lambda>c. of_nat (of_char c)) s"

lemma string_of_bytes_inverse [simp]: "bytes_of_string (string_of_bytes bs) = bs"
proof -
  have "of_nat (of_char (char_of (unat b) :: char)) = b" for b :: byte
    using unsigned_less [of b, where 'a = nat] by (simp add: take_bit_nat_eq_self)
  then show ?thesis
    by (simp add: bytes_of_string_def string_of_bytes_def comp_def)
qed

section \<open>Integers of 64 bits\<close>

text \<open>
  Go's \<^verbatim>\<open>int\<close> and \<^verbatim>\<open>int64\<close> have 64 bits on the supported platforms; a sum that leaves
  the range wraps around. \<open>i64\<close> is the reduction into the range.
\<close>

definition i64 :: "int \<Rightarrow> int" where
  "i64 x = (x + 2 ^ 63) mod 2 ^ 64 - 2 ^ 63"

definition max_i64 :: int where
  "max_i64 = 2 ^ 63 - 1"

lemma i64_id: "- (2 ^ 63) \<le> x \<Longrightarrow> x \<le> max_i64 \<Longrightarrow> i64 x = x"
  by (simp add: i64_def max_i64_def)

lemma i64_range: "- (2 ^ 63) \<le> i64 x \<and> i64 x \<le> max_i64"
  by (simp add: i64_def max_i64_def)

lemma i64_wraps: "i64 (max_i64 + 1) = - (2 ^ 63)"
  by (simp add: i64_def max_i64_def)

text \<open>Go's integer division and remainder truncate towards zero.\<close>

definition go_quot :: "int \<Rightarrow> int \<Rightarrow> int" where
  "go_quot a b = sgn a * sgn b * (\<bar>a\<bar> div \<bar>b\<bar>)"

definition go_rem :: "int \<Rightarrow> int \<Rightarrow> int" where
  "go_rem a b = a - go_quot a b * b"

lemma go_quot_nonneg [simp]: "0 \<le> a \<Longrightarrow> 0 < b \<Longrightarrow> go_quot a b = a div b"
  by (cases "a = 0") (simp_all add: go_quot_def)

lemma go_rem_nonneg [simp]: "0 \<le> a \<Longrightarrow> 0 < b \<Longrightarrow> go_rem a b = a mod b"
  by (simp add: go_rem_def minus_div_mult_eq_mod)

section \<open>Errors\<close>

text \<open>
  Errors the database drivers return, with the codes the backends look at.
\<close>

datatype drverr =
    SqliteError int int string   \<comment> \<open>\<^verbatim>\<open>sqlite3.Error\<close>: Code, ExtendedCode, text\<close>
  | PgError string string        \<comment> \<open>\<^verbatim>\<open>pgconn.PgError\<close>: Code, text\<close>
  | MySQLError int string        \<comment> \<open>\<^verbatim>\<open>mysql.MySQLError\<close>: Number, text\<close>
  | OtherError string            \<comment> \<open>any other driver or transport failure\<close>

text \<open>
  A Go \<^verbatim>\<open>error\<close>: the sentinels of the packages, driver errors, plain messages and
  the wrappers \<^verbatim>\<open>fmt.Errorf\<close> makes around a \<^verbatim>\<open>%w\<close> verb (text before, error, text
  after). \<open>JsonErr\<close> stands for every error of \<^verbatim>\<open>encoding/json\<close> and
  \<^verbatim>\<open>encoding/base64\<close>; one fixed text stands for their wording. \<open>Panic\<close> is not an error
  value: it is the outcome of a call that panics.
\<close>

datatype goerr =
    ErrDocumentNotFound
  | ErrDocumentExists
  | ErrNoSnapshot
  | ErrUnauthorized
  | ErrNoRows
  | ContextCanceled
  | DriverErr drverr
  | JsonErr
  | Msg string
  | Panic string
  | Wrap string goerr string

fun drverr_msg :: "drverr \<Rightarrow> string" where
  "drverr_msg (SqliteError _ _ m) = m"
| "drverr_msg (PgError _ m) = m"
| "drverr_msg (MySQLError _ m) = m"
| "drverr_msg (OtherError m) = m"

fun err_Error :: "goerr \<Rightarrow> string" where
  "err_Error ErrDocumentNotFound = ''document not found''"
| "err_Error ErrDocumentExists = ''document already exists''"
| "err_Error ErrNoSnapshot = ''no snapshot for document''"
| "err_Error ErrUnauthorized = ''unauthorized''"
| "err_Error ErrNoRows = ''no rows in result set''"
| "err_Error ContextCanceled = ''context canceled''"
| "err_Error (DriverErr d) = drverr_msg d"
| "err_Error JsonErr = ''invalid JSON value''"
| "err_Error (Msg m) = m"
| "err_Error (Panic m) = m"
| "err_Error (Wrap pre e post) = pre @ err_Error e @ post"

text \<open>\<^verbatim>\<open>errors.Is\<close>: the error itself or one it wraps.\<close>

fun errors_Is :: "goerr \<Rightarrow> goerr \<Rightarrow> bool" where
  "errors_Is (Wrap pre e post) t = (Wrap pre e post = t \<or> errors_Is e t)"
| "errors_Is e t = (e = t)"

text \<open>\<^verbatim>\<open>errors.As\<close> at a driver error type: the first driver error of the chain.\<close>

fun errors_As_driver :: "goerr \<Rightarrow> drverr option" where
  "errors_As_driver (Wrap _ e _) = errors_As_driver e"
| "errors_As_driver (DriverErr d) = Some d"
| "errors_As_driver _ = None"

section \<open>Fallible computations\<close>

type_synonym 'a res = "goerr + 'a"

definition bindE :: "'a res \<Rightarrow> ('a \<Rightarrow> 'b res) \<Rightarrow> 'b res" where
  "bindE m f = (case m of Inl e \<Rightarrow> Inl e | Inr x \<Rightarrow> f x)"

lemma bindE_simps [simp]:
  "bindE (Inl e) f = Inl e"
  "bindE (Inr x) f = f x"
  by (simp_all add: bindE_def)

lemma bindE_Inr_iff: "bindE m f = Inr y \<longleftrightarrow> (\<exists>x. m = Inr x \<and> f x = Inr y)"
  by (cases m) simp_all

lemma bindE_split: "P (bindE m f) \<longleftrightarrow> (\<forall>e. m = Inl e \<longrightarrow> P (Inl e)) \<and> (\<forall>x. m = Inr x \<longrightarrow> P (f x))"
  by (cases m) simp_all

section \<open>Strings\<close>

text \<open>
  \<^verbatim>\<open>strings.TrimSpace\<close>, \<^verbatim>\<open>ToLower\<close>, \<^verbatim>\<open>HasPrefix\<close>, \<^verbatim>\<open>HasSuffix\<close> and \<^verbatim>\<open>CutPrefix\<close>. The
  white space and the letters are the ASCII ones.
\<close>

definition is_space :: "char \<Rightarrow> bool" where
  "is_space c \<longleftrightarrow> c \<in> {CHR '' '', CHR 0x09, CHR 0x0A, CHR 0x0B, CHR 0x0C, CHR 0x0D}"

definition TrimSpace :: "string \<Rightarrow> string" where
  "TrimSpace s = rev (dropWhile is_space (rev (dropWhile is_space s)))"

definition lower_char :: "char \<Rightarrow> char" where
  "lower_char c =
     (let n = of_char c :: nat in if 65 \<le> n \<and> n \<le> 90 then char_of (n + 32) else c)"

definition ToLower :: "string \<Rightarrow> string" where
  "ToLower s = map lower_char s"

definition EqualFold :: "string \<Rightarrow> string \<Rightarrow> bool" where
  "EqualFold s t \<longleftrightarrow> ToLower s = ToLower t"

definition HasPrefix :: "string \<Rightarrow> string \<Rightarrow> bool" where
  "HasPrefix s p \<longleftrightarrow> take (length p) s = p"

definition HasSuffix :: "string \<Rightarrow> string \<Rightarrow> bool" where
  "HasSuffix s p \<longleftrightarrow> length p \<le> length s \<and> drop (length s - length p) s = p"

definition CutPrefix :: "string \<Rightarrow> string \<Rightarrow> string \<times> bool" where
  "CutPrefix s p = (if HasPrefix s p then (drop (length p) s, True) else (s, False))"

text \<open>
  \<^verbatim>\<open>strconv.Itoa\<close>/\<^verbatim>\<open>FormatInt(n, 10)\<close> and \<^verbatim>\<open>strconv.Atoi\<close>/\<^verbatim>\<open>ParseInt(s, 10, 64)\<close>:
  an optional sign, one or more decimal digits, and the result in the range of
  \<^verbatim>\<open>int64\<close>.
\<close>

definition digit_char :: "nat \<Rightarrow> char" where
  "digit_char d = char_of (48 + d)"

fun nat_digits :: "nat \<Rightarrow> string" where
  "nat_digits n = (if n < 10 then [digit_char n] else nat_digits (n div 10) @ [digit_char (n mod 10)])"

declare nat_digits.simps [simp del]

definition Itoa :: "int \<Rightarrow> string" where
  "Itoa i = (if i < 0 then CHR ''-'' # nat_digits (nat (- i)) else nat_digits (nat i))"

definition is_digit :: "char \<Rightarrow> bool" where
  "is_digit c \<longleftrightarrow> 48 \<le> (of_char c :: nat) \<and> (of_char c :: nat) \<le> 57"

fun digits_val :: "nat \<Rightarrow> string \<Rightarrow> nat" where
  "digits_val acc [] = acc"
| "digits_val acc (c # cs) = digits_val (10 * acc + (of_char c - 48)) cs"

definition parse_nat :: "string \<Rightarrow> nat option" where
  "parse_nat s = (if s \<noteq> [] \<and> (\<forall>c \<in> set s. is_digit c) then Some (digits_val 0 s) else None)"

definition ParseInt :: "string \<Rightarrow> int option" where
  "ParseInt s =
     (let (sg, ds) = (case s of [] \<Rightarrow> (1, [])
                      | c # cs \<Rightarrow> if c = CHR ''-'' then (- 1, cs) else if c = CHR ''+'' then (1, cs) else (1, s))
      in case parse_nat ds of
           None \<Rightarrow> None
         | Some n \<Rightarrow> let i = sg * int n in if - (2 ^ 63) \<le> i \<and> i \<le> max_i64 then Some i else None)"

lemma digits_val_append: "digits_val acc (xs @ [c]) = 10 * digits_val acc xs + (of_char c - 48)"
  by (induction xs arbitrary: acc) auto

lemma of_digit_char: "d < 10 \<Longrightarrow> of_char (digit_char d) = 48 + d"
  by (simp add: digit_char_def take_bit_nat_eq_self)

lemma is_digit_digit_char [simp]: "d < 10 \<Longrightarrow> is_digit (digit_char d)"
  by (simp add: is_digit_def of_digit_char)

lemma nat_digits_nonempty [simp]: "nat_digits n \<noteq> []"
  by (subst nat_digits.simps) simp

lemma nat_digits_digits: "c \<in> set (nat_digits n) \<Longrightarrow> is_digit c"
proof (induction n rule: nat_digits.induct)
  case (1 n)
  then show ?case
    by (cases "n < 10") (auto simp: nat_digits.simps [of n])
qed

lemma digits_val_nat_digits [simp]: "digits_val 0 (nat_digits n) = n"
proof (induction n rule: nat_digits.induct)
  case (1 n)
  show ?case
  proof (cases "n < 10")
    case True
    then show ?thesis by (simp add: nat_digits.simps [of n] of_digit_char)
  next
    case False
    with "1.IH" show ?thesis
      by (simp add: nat_digits.simps [of n] digits_val_append of_digit_char)
  qed
qed

lemma parse_nat_nat_digits [simp]: "parse_nat (nat_digits n) = Some n"
  by (simp add: parse_nat_def nat_digits_digits)

lemma nat_digits_hd: "\<exists>c cs. nat_digits n = c # cs \<and> is_digit c"
  by (metis list.exhaust list.set_intros(1) nat_digits_digits nat_digits_nonempty)

lemma ParseInt_Itoa:
  assumes "- (2 ^ 63) \<le> i" and "i \<le> max_i64"
  shows "ParseInt (Itoa i) = Some i"
proof (cases "i < 0")
  case True
  with assms show ?thesis
    by (simp add: ParseInt_def Itoa_def)
next
  case False
  obtain c cs where c: "nat_digits (nat i) = c # cs" "is_digit c"
    using nat_digits_hd by blast
  then have "c \<noteq> CHR ''-''" "c \<noteq> CHR ''+''"
    by (auto simp: is_digit_def)
  with False assms c parse_nat_nat_digits [of "nat i"] show ?thesis
    by (simp add: ParseInt_def Itoa_def)
qed

section \<open>Lists\<close>

lemma sort_key_id: "sorted (map f xs) \<Longrightarrow> sort_key f xs = xs"
  by (induction xs) (auto simp: insort_is_Cons)

text \<open>
  \<open>numbered f xs\<close>: the elements of \<open>xs\<close> carry the numbers 1, 2, 3 and so on under \<open>f\<close>.
  It is the shape of a document's operation log.
\<close>

definition numbered :: "('a \<Rightarrow> int) \<Rightarrow> 'a list \<Rightarrow> bool" where
  "numbered f xs \<longleftrightarrow> (\<forall>i < length xs. f (xs ! i) = int i + 1)"

lemma numbered_Nil [simp]: "numbered f []"
  by (simp add: numbered_def)

lemma numbered_snoc [simp]:
  "numbered f (xs @ [x]) \<longleftrightarrow> numbered f xs \<and> f x = int (length xs) + 1"
  by (auto simp: numbered_def nth_append less_Suc_eq)

lemma numbered_bounds:
  assumes "numbered f xs" and "x \<in> set xs"
  shows "1 \<le> f x \<and> f x \<le> int (length xs)"
proof -
  from assms(2) obtain i where "i < length xs" "x = xs ! i"
    by (auto simp: in_set_conv_nth)
  with assms(1) show ?thesis by (simp add: numbered_def)
qed

lemma numbered_sorted: "numbered f xs \<Longrightarrow> sorted (map f xs)"
  by (induction xs rule: rev_induct) (auto simp: sorted_append dest: numbered_bounds)

lemma numbered_distinct: "numbered f xs \<Longrightarrow> distinct (map f xs)"
  by (induction xs rule: rev_induct) (auto dest: numbered_bounds)

lemma filter_numbered:
  "numbered f xs \<Longrightarrow> filter (\<lambda>x. k < f x) xs = drop (nat k) xs"
  by (induction xs rule: rev_induct) auto

lemma filter_numbered_le:
  "numbered f xs \<Longrightarrow> filter (\<lambda>x. f x \<le> k) xs = take (nat k) xs"
  by (induction xs rule: rev_induct) auto

end
