(* ===== verification/Json.thy ===== *)
theory Json
  imports Prelude
begin

text \<open>
  The part of \<^verbatim>\<open>encoding/json\<close>, \<^verbatim>\<open>encoding/base64\<close> and \<^verbatim>\<open>encoding/hex\<close> the program
  uses: the compact printer of \<^verbatim>\<open>json.Marshal\<close> with its string escapes, the parser
  of \<^verbatim>\<open>json.Unmarshal\<close> and of \<^verbatim>\<open>json.Decoder\<close>, standard base64 and lower-case hex. The
  lemmas are the round trips the wire codec, the stored metadata and the webhook
  signatures rest on.
\<close>

section \<open>Hexadecimal\<close>

definition hex_digit :: "nat \<Rightarrow> char" where
  "hex_digit d = (if d < 10 then char_of (48 + d) else char_of (87 + d))"

definition hex_val :: "char \<Rightarrow> nat option" where
  "hex_val c =
     (let n = of_char c :: nat in
      if 48 \<le> n \<and> n \<le> 57 then Some (n - 48)
      else if 97 \<le> n \<and> n \<le> 102 then Some (n - 87)
      else if 65 \<le> n \<and> n \<le> 70 then Some (n - 55)
      else None)"

text \<open>\<^verbatim>\<open>hex.EncodeToString\<close>.\<close>

definition hex_EncodeToString :: "bytes \<Rightarrow> string" where
  "hex_EncodeToString bs = concat (map (\<lambda>b. [hex_digit (unat b div 16), hex_digit (unat b mod 16)]) bs)"

lemma hex_digit_small: "d < 16 \<Longrightarrow> of_char (hex_digit d) = (if d < 10 then 48 + d else 87 + d)"
  by (simp add: hex_digit_def take_bit_nat_eq_self)

lemma hex_val_digit [simp]: "d < 16 \<Longrightarrow> hex_val (hex_digit d) = Some d"
  by (simp add: hex_val_def hex_digit_small)

lemma hex_digit_inj: "d < 16 \<Longrightarrow> e < 16 \<Longrightarrow> hex_digit d = hex_digit e \<longleftrightarrow> d = e"
  by (metis hex_val_digit option.inject)

lemma length_hex [simp]: "length (hex_EncodeToString bs) = 2 * length bs"
  by (induction bs) (auto simp: hex_EncodeToString_def)

lemma byte_nibbles: "unat (b :: byte) div 16 < 16" "unat b mod 16 < 16"
  using unsigned_less [of b, where 'a = nat] by auto

lemma hex_inj: "hex_EncodeToString bs = hex_EncodeToString cs \<longleftrightarrow> bs = cs"
proof (induction bs arbitrary: cs)
  case Nil
  then show ?case by (cases cs) (auto simp: hex_EncodeToString_def)
next
  case (Cons b bs)
  show ?case
  proof (cases cs)
    case Nil
    then show ?thesis by (auto simp: hex_EncodeToString_def)
  next
    case (Cons c cs')
    have "unat b div 16 = unat c div 16 \<and> unat b mod 16 = unat c mod 16 \<longleftrightarrow> b = c"
      by (metis div_mult_mod_eq word_unat_eq_iff)
    with Cons Cons.IH [of cs'] show ?thesis
      by (auto simp: hex_EncodeToString_def hex_digit_inj byte_nibbles)
  qed
qed

section \<open>Base64\<close>

text \<open>\<^verbatim>\<open>base64.StdEncoding\<close>: four characters for three bytes, padded with equals signs.\<close>

definition b64_char :: "nat \<Rightarrow> char" where
  "b64_char d =
     (if d < 26 then char_of (65 + d) else if d < 52 then char_of (71 + d)
      else if d < 62 then char_of (d - 4) else if d = 62 then CHR ''+'' else CHR ''/'')"

definition b64_val :: "char \<Rightarrow> nat option" where
  "b64_val c =
     (let n = of_char c :: nat in
      if 65 \<le> n \<and> n \<le> 90 then Some (n - 65)
      else if 97 \<le> n \<and> n \<le> 122 then Some (n - 71)
      else if 48 \<le> n \<and> n \<le> 57 then Some (n + 4)
      else if c = CHR ''+'' then Some 62
      else if c = CHR ''/'' then Some 63
      else None)"

fun b64_EncodeToString :: "bytes \<Rightarrow> string" where
  "b64_EncodeToString [] = []"
| "b64_EncodeToString [a] =
     (let n = unat a * 16 in [b64_char (n div 64), b64_char (n mod 64), CHR ''='', CHR ''=''])"
| "b64_EncodeToString [a, b] =
     (let n = (unat a * 256 + unat b) * 4
      in [b64_char (n div 4096), b64_char (n div 64 mod 64), b64_char (n mod 64), CHR ''=''])"
| "b64_EncodeToString (a # b # c # rest) =
     (let n = unat a * 65536 + unat b * 256 + unat c
      in b64_char (n div 262144) # b64_char (n div 4096 mod 64) # b64_char (n div 64 mod 64)
         # b64_char (n mod 64) # b64_EncodeToString rest)"

text \<open>
  \<^verbatim>\<open>DecodeString\<close>: carriage returns and newlines are skipped, padding is required and
  stands at the end only, every other character is of the alphabet.
\<close>

fun b64_decode_quads :: "string \<Rightarrow> bytes option" where
  "b64_decode_quads [] = Some []"
| "b64_decode_quads (a # b # c # d # rest) =
     (case (b64_val a, b64_val b) of
        (Some va, Some vb) \<Rightarrow>
          if c = CHR ''='' then
            (if d = CHR ''='' \<and> rest = [] then Some [of_nat ((va * 64 + vb) div 16)] else None)
          else (case b64_val c of
            None \<Rightarrow> None
          | Some vc \<Rightarrow>
              if d = CHR ''='' then
                (if rest = []
                 then let n = (va * 4096 + vb * 64 + vc) div 4
                      in Some [of_nat (n div 256), of_nat (n mod 256)]
                 else None)
              else (case b64_val d of
                None \<Rightarrow> None
              | Some vd \<Rightarrow>
                  let n = va * 262144 + vb * 4096 + vc * 64 + vd
                  in map_option (\<lambda>bs. of_nat (n div 65536) # of_nat (n div 256 mod 256) # of_nat (n mod 256) # bs)
                       (b64_decode_quads rest)))
      | _ \<Rightarrow> None)"
| "b64_decode_quads _ = None"

definition b64_DecodeString :: "string \<Rightarrow> bytes option" where
  "b64_DecodeString s = b64_decode_quads (filter (\<lambda>c. c \<noteq> CHR 0x0A \<and> c \<noteq> CHR 0x0D) s)"

lemma of_b64_char: "d < 64 \<Longrightarrow>
  of_char (b64_char d) =
    (if d < 26 then 65 + d else if d < 52 then 71 + d else if d < 62 then d - 4 else if d = 62 then 43 else 47)"
  by (simp add: b64_char_def take_bit_nat_eq_self)

lemma b64_val_char [simp]:
  assumes "d < 64"
  shows "b64_val (b64_char d) = Some d"
proof (cases "d < 62")
  case True
  with assms show ?thesis by (auto simp: b64_val_def of_b64_char Let_def)
next
  case False
  with assms have "d = 62 \<or> d = 63" by arith
  then show ?thesis by (auto simp: b64_val_def b64_char_def)
qed

lemma b64_char_not_special:
  assumes "d < 64"
  shows "b64_char d \<noteq> CHR ''=''" "b64_char d \<noteq> CHR 0x0A" "b64_char d \<noteq> CHR 0x0D"
    "of_char (b64_char d) < (128 :: nat)"
  using of_b64_char [OF assms] assms by (auto split: if_splits)

lemma unat_byte: "unat (b :: byte) < 256"
  using unsigned_less [of b, where 'a = nat] by simp

lemma of_nat_unat_byte: "of_nat (unat b) = (b :: byte)"
  by simp

lemma base64_digits3: "n div 4096 * 4096 + n div 64 mod 64 * 64 + n mod 64 = (n :: nat)"
proof -
  have "x * 4096 + m * 64 + k = n" if "x * 64 + m = q" "q * 64 + k = n" for x m q k :: nat
    using that by auto
  from this [OF div_mult_mod_eq div_mult_mod_eq] show ?thesis
    by (simp add: div_mult2_eq [symmetric])
qed

lemma base64_digits4:
  "n div 262144 * 262144 + n div 4096 mod 64 * 4096 + n div 64 mod 64 * 64 + n mod 64 = (n :: nat)"
proof -
  have "x * 262144 + m * 4096 + k = n" if "x * 64 + m = q" "q * 4096 + k = n" for x m q k :: nat
    using that by auto
  moreover have "n div 4096 div 64 * 64 + n div 4096 mod 64 = n div 4096"
    by (rule div_mult_mod_eq)
  moreover have "n div 4096 * 4096 + (n div 64 mod 64 * 64 + n mod 64) = n"
    using base64_digits3 [of n] by (simp only: add.assoc)
  ultimately have "n div 4096 div 64 * 262144 + n div 4096 mod 64 * 4096
      + (n div 64 mod 64 * 64 + n mod 64) = n"
    by blast
  then show ?thesis by (simp only: div_mult2_eq [symmetric] add.assoc) simp
qed

lemma byte_digits:
  assumes "b < 256" "c < (256 :: nat)"
  shows "(a * 65536 + b * 256 + c) div 65536 = a" "(a * 65536 + b * 256 + c) div 256 mod 256 = b"
    "(a * 65536 + b * 256 + c) mod 256 = c"
proof -
  have n: "a * 65536 + b * 256 + c = (a * 256 + b) * 256 + c" by simp
  have d: "((a * 256 + b) * 256 + c) div 256 = a * 256 + b" using assms by simp
  then show "(a * 65536 + b * 256 + c) div 256 mod 256 = b"
    using assms by (simp only: n) simp
  show "(a * 65536 + b * 256 + c) mod 256 = c"
    using assms by (simp only: n mod_mult_self3 mod_less)
  have "((a * 256 + b) * 256 + c) div 256 div 256 = a" using assms by (simp only: d)
  then show "(a * 65536 + b * 256 + c) div 65536 = a" by (simp only: n div_mult2_eq [symmetric]) simp
qed

lemma b64_quads_roundtrip: "b64_decode_quads (b64_EncodeToString bs) = Some bs"
proof (induction bs rule: b64_EncodeToString.induct)
  case 1
  show ?case by simp
next
  case (2 a)
  have "unat a * 16 div 64 < 64" using unat_byte [of a] by simp
  moreover have "(unat a * 16 div 64 * 64 + unat a * 16 mod 64) div 16 = unat a"
    by (simp only: div_mult_mod_eq)
  ultimately show ?case by (simp add: Let_def del: div_mult_mult1_if)
next
  case (3 a b)
  let ?n = "(unat a * 256 + unat b) * 4"
  have n: "?n div 4096 < 64" using unat_byte [of a] unat_byte [of b] by simp
  have s: "?n div 4096 * 4096 + ?n div 64 mod 64 * 64 + ?n mod 64 = ?n"
    by (rule base64_digits3)
  have d: "(unat a * 256 + unat b) div 256 = unat a" "(unat a * 256 + unat b) mod 256 = unat b"
    using unat_byte [of b] by auto
  have "?n div 4 = unat a * 256 + unat b" by simp
  with n d show ?case
    by (simp only: Let_def b64_EncodeToString.simps b64_decode_quads.simps b64_val_char
        b64_char_not_special s mod_less_divisor prod.case option.case if_True if_False
        of_nat_unat_byte zero_less_numeral refl)
next
  case (4 a b c rest)
  let ?n = "unat a * 65536 + unat b * 256 + unat c"
  have n: "?n div 262144 < 64"
    using unat_byte [of a] unat_byte [of b] unat_byte [of c] by simp
  have s: "?n div 262144 * 262144 + ?n div 4096 mod 64 * 4096 + ?n div 64 mod 64 * 64 + ?n mod 64 = ?n"
    by (rule base64_digits4)
  have d: "?n div 65536 = unat a" "?n div 256 mod 256 = unat b" "?n mod 256 = unat c"
    by (simp_all only: byte_digits unat_byte)
  show ?case
    using n d "4.IH" [OF refl]
    by (simp only: Let_def b64_EncodeToString.simps b64_decode_quads.simps b64_val_char
        b64_char_not_special s mod_less_divisor prod.case option.case if_True if_False
        of_nat_unat_byte zero_less_numeral refl option.map)
qed

text \<open>The characters base64 text is made of: none of them needs an escape in JSON.\<close>

definition plain_char :: "char \<Rightarrow> bool" where
  "plain_char c \<longleftrightarrow> (let n = of_char c :: nat in 32 \<le> n \<and> n < 128 \<and> n \<notin> {34, 38, 60, 62, 92})"

lemma plain_b64_char: "d < 64 \<Longrightarrow> plain_char (b64_char d)"
  using of_b64_char [of d] by (auto simp: plain_char_def Let_def)

lemma plain_b64: "list_all plain_char (b64_EncodeToString bs)"
proof (induction bs rule: b64_EncodeToString.induct)
  case (2 a)
  then show ?case
    using unat_byte [of a] by (simp add: Let_def plain_b64_char) (simp add: plain_char_def)
next
  case (3 a b)
  then show ?case
    using unat_byte [of a] unat_byte [of b]
    by (simp add: Let_def plain_b64_char) (simp add: plain_char_def)
next
  case (4 a b c rest)
  then show ?case
    using unat_byte [of a] unat_byte [of b] unat_byte [of c]
    by (simp add: Let_def plain_b64_char)
qed simp

theorem b64_roundtrip [simp]: "b64_DecodeString (b64_EncodeToString bs) = Some bs"
proof -
  have "filter (\<lambda>c. c \<noteq> CHR 0x0A \<and> c \<noteq> CHR 0x0D) (b64_EncodeToString bs) = b64_EncodeToString bs"
    using plain_b64 [of bs] by (auto simp: filter_id_conv list_all_iff plain_char_def Let_def)
  then show ?thesis by (simp add: b64_DecodeString_def b64_quads_roundtrip)
qed

lemma b64_inj: "b64_EncodeToString a = b64_EncodeToString b \<longleftrightarrow> a = b"
  by (metis b64_roundtrip option.inject)

section \<open>UTF-8\<close>

definition in_range :: "nat \<Rightarrow> nat \<Rightarrow> nat \<Rightarrow> bool" where
  "in_range lo hi n \<longleftrightarrow> lo \<le> n \<and> n \<le> hi"

text \<open>
  \<^verbatim>\<open>utf8.DecodeRune\<close>: the first code point of a non-empty string and the number of
  bytes it takes; an invalid sequence is U+FFFD (65533) of width 1.
\<close>

definition rune2 :: "nat \<Rightarrow> string \<Rightarrow> (nat \<times> nat) option" where
  "rune2 b0 cs =
     (case cs of
        c1 # _ \<Rightarrow>
          let b1 = of_char c1 in
          if in_range 194 223 b0 \<and> in_range 128 191 b1 then Some (b0 mod 32 * 64 + b1 mod 64, 2) else None
      | _ \<Rightarrow> None)"

definition rune3 :: "nat \<Rightarrow> string \<Rightarrow> (nat \<times> nat) option" where
  "rune3 b0 cs =
     (case cs of
        c1 # c2 # _ \<Rightarrow>
          let b1 = of_char c1; b2 = of_char c2 in
          if (b0 = 224 \<and> in_range 160 191 b1
              \<or> (in_range 225 236 b0 \<or> in_range 238 239 b0) \<and> in_range 128 191 b1
              \<or> b0 = 237 \<and> in_range 128 159 b1) \<and> in_range 128 191 b2
          then Some (b0 mod 16 * 4096 + b1 mod 64 * 64 + b2 mod 64, 3) else None
      | _ \<Rightarrow> None)"

definition rune4 :: "nat \<Rightarrow> string \<Rightarrow> (nat \<times> nat) option" where
  "rune4 b0 cs =
     (case cs of
        c1 # c2 # c3 # _ \<Rightarrow>
          let b1 = of_char c1; b2 = of_char c2; b3 = of_char c3 in
          if (b0 = 240 \<and> in_range 144 191 b1 \<or> in_range 241 243 b0 \<and> in_range 128 191 b1
              \<or> b0 = 244 \<and> in_range 128 143 b1) \<and> in_range 128 191 b2 \<and> in_range 128 191 b3
          then Some (b0 mod 8 * 262144 + b1 mod 64 * 4096 + b2 mod 64 * 64 + b3 mod 64, 4) else None
      | _ \<Rightarrow> None)"

fun utf8_DecodeRune :: "string \<Rightarrow> nat \<times> nat" where
  "utf8_DecodeRune [] = (65533, 0)"
| "utf8_DecodeRune (c # cs) =
     (let b0 = of_char c in
      if b0 < 128 then (b0, 1)
      else case rune2 b0 cs of Some x \<Rightarrow> x
      | None \<Rightarrow> (case rune3 b0 cs of Some x \<Rightarrow> x
               | None \<Rightarrow> (case rune4 b0 cs of Some x \<Rightarrow> x | None \<Rightarrow> (65533, 1))))"

text \<open>\<^verbatim>\<open>utf8.AppendRune\<close>.\<close>

definition utf8_of_rune :: "nat \<Rightarrow> string" where
  "utf8_of_rune r =
     (if r < 128 then [char_of r]
      else if r < 2048 then [char_of (192 + r div 64), char_of (128 + r mod 64)]
      else if r < 65536
        then [char_of (224 + r div 4096), char_of (128 + r div 64 mod 64), char_of (128 + r mod 64)]
      else [char_of (240 + r div 262144), char_of (128 + r div 4096 mod 64),
            char_of (128 + r div 64 mod 64), char_of (128 + r mod 64)])"

section \<open>JSON values and their text\<close>

text \<open>A number keeps its literal, as the decoder does until it knows the target type.\<close>

datatype json =
    JNull
  | JBool bool
  | JNum string
  | JStr string
  | JArr "json list"
  | JObj "(string \<times> json) list"

definition JInt :: "int \<Rightarrow> json" where
  "JInt i = JNum (Itoa i)"

abbreviation bsl :: char where "bsl \<equiv> CHR 0x5C"
abbreviation dq :: char where "dq \<equiv> CHR 0x22"

definition u4 :: "nat \<Rightarrow> string" where
  "u4 n = [bsl, CHR ''u'', hex_digit (n div 4096 mod 16), hex_digit (n div 256 mod 16),
           hex_digit (n div 16 mod 16), hex_digit (n mod 16)]"

text \<open>\<^verbatim>\<open>appendString\<close> with HTML escapes: one character below 128.\<close>

definition esc_ascii :: "char \<Rightarrow> string" where
  "esc_ascii c =
     (if c = dq \<or> c = bsl then [bsl, c]
      else if c = CHR 0x08 then [bsl, CHR ''b'']
      else if c = CHR 0x0C then [bsl, CHR ''f'']
      else if c = CHR 0x0A then [bsl, CHR ''n'']
      else if c = CHR 0x0D then [bsl, CHR ''r'']
      else if c = CHR 0x09 then [bsl, CHR ''t'']
      else if (of_char c :: nat) < 32 \<or> c \<in> {CHR ''<'', CHR ''>'', CHR ''&''} then u4 (of_char c)
      else [c])"

function esc_string :: "string \<Rightarrow> string" where
  "esc_string [] = []"
| "esc_string (c # cs) =
     (if (of_char c :: nat) < 128 then esc_ascii c @ esc_string cs
      else case utf8_DecodeRune (c # cs) of (r, n) \<Rightarrow>
        (if n \<le> 1 then u4 65533
         else if r = 8232 \<or> r = 8233 then u4 r
         else take n (c # cs)) @ esc_string (drop (n - 1) cs))"
  by pat_completeness auto
termination
  by (relation "measure length") auto

fun show_json :: "json \<Rightarrow> string"
  and show_elems :: "json list \<Rightarrow> string"
  and show_members :: "(string \<times> json) list \<Rightarrow> string" where
  "show_json JNull = ''null''"
| "show_json (JBool b) = (if b then ''true'' else ''false'')"
| "show_json (JNum l) = l"
| "show_json (JStr s) = dq # esc_string s @ [dq]"
| "show_json (JArr js) = CHR ''['' # show_elems js @ '']''"
| "show_json (JObj ms) = CHR ''{'' # show_members ms @ ''}''"
| "show_elems [] = []"
| "show_elems [j] = show_json j"
| "show_elems (j # j' # js) = show_json j @ '','' @ show_elems (j' # js)"
| "show_members [] = []"
| "show_members [(k, j)] = dq # esc_string k @ [dq] @ '':'' @ show_json j"
| "show_members ((k, j) # m # ms) = dq # esc_string k @ [dq] @ '':'' @ show_json j @ '','' @ show_members (m # ms)"

section \<open>The parser\<close>

definition is_ws :: "char \<Rightarrow> bool" where
  "is_ws c \<longleftrightarrow> c \<in> {CHR '' '', CHR 0x09, CHR 0x0A, CHR 0x0D}"

definition skip_ws :: "string \<Rightarrow> string" where
  "skip_ws s = dropWhile is_ws s"

fun hex4 :: "string \<Rightarrow> (nat \<times> string) option" where
  "hex4 (a # b # c # d # rest) =
     (case (hex_val a, hex_val b, hex_val c, hex_val d) of
        (Some va, Some vb, Some vc, Some vd) \<Rightarrow> Some (va * 4096 + vb * 256 + vc * 16 + vd, rest)
      | _ \<Rightarrow> None)"
| "hex4 _ = None"

definition simple_escape :: "char \<Rightarrow> char option" where
  "simple_escape c =
     (if c = dq \<or> c = bsl \<or> c = CHR ''/'' then Some c
      else if c = CHR ''b'' then Some (CHR 0x08)
      else if c = CHR ''f'' then Some (CHR 0x0C)
      else if c = CHR ''n'' then Some (CHR 0x0A)
      else if c = CHR ''r'' then Some (CHR 0x0D)
      else if c = CHR ''t'' then Some (CHR 0x09)
      else None)"

text \<open>
  The escape after a backslash and the rest of the input: a surrogate pair written as
  two escapes is one code point, a surrogate alone is U+FFFD.
\<close>

definition parse_escape :: "string \<Rightarrow> (string \<times> string) option" where
  "parse_escape s =
     (case s of
        [] \<Rightarrow> None
      | e # cs \<Rightarrow>
          if e = CHR ''u'' then
            (case hex4 cs of
               None \<Rightarrow> None
             | Some (r, rest) \<Rightarrow>
                 if 55296 \<le> r \<and> r < 57344 then
                   (case rest of
                      b # u # rest' \<Rightarrow>
                        (if r < 56320 \<and> b = bsl \<and> u = CHR ''u'' then
                           (case hex4 rest' of
                              Some (r2, rest2) \<Rightarrow>
                                if 56320 \<le> r2 \<and> r2 < 57344
                                then Some (utf8_of_rune ((r - 55296) * 1024 + (r2 - 56320) + 65536), rest2)
                                else Some (utf8_of_rune 65533, rest)
                            | None \<Rightarrow> Some (utf8_of_rune 65533, rest))
                         else Some (utf8_of_rune 65533, rest))
                    | _ \<Rightarrow> Some (utf8_of_rune 65533, rest))
                 else Some (utf8_of_rune r, rest))
          else map_option (\<lambda>c. ([c], cs)) (simple_escape e))"

lemma hex4_length: "hex4 s = Some (r, rest) \<Longrightarrow> length rest + 4 = length s"
  by (induction s rule: hex4.induct) (auto split: option.splits)

lemma parse_escape_length: "parse_escape s = Some (x, rest) \<Longrightarrow> length rest < length s"
  unfolding parse_escape_def
  by (auto split: list.splits if_splits option.splits prod.splits dest!: hex4_length)

text \<open>The body of a string literal, after its opening quote.\<close>

function parse_str :: "string \<Rightarrow> (string \<times> string) option" where
  "parse_str [] = None"
| "parse_str (c # cs) =
     (if c = dq then Some ([], cs)
      else if c = bsl then
        (case parse_escape cs of
           None \<Rightarrow> None
         | Some (x, rest) \<Rightarrow> map_option (\<lambda>(t, r). (x @ t, r)) (parse_str rest))
      else if (of_char c :: nat) < 32 then None
      else if (of_char c :: nat) < 128 then map_option (\<lambda>(t, r). (c # t, r)) (parse_str cs)
      else case utf8_DecodeRune (c # cs) of (r, n) \<Rightarrow>
        map_option (\<lambda>(t, rest). ((if n \<le> 1 then utf8_of_rune 65533 else take n (c # cs)) @ t, rest))
          (parse_str (drop (n - 1) cs)))"
  by pat_completeness auto
termination
  by (relation "measure length") (auto dest: parse_escape_length)

text \<open>The literal of a number and the rest, by the grammar of JSON numbers.\<close>

definition span_digits :: "string \<Rightarrow> string \<times> string" where
  "span_digits s = (takeWhile is_digit s, dropWhile is_digit s)"

definition parse_int_part :: "string \<Rightarrow> (string \<times> string) option" where
  "parse_int_part s =
     (case s of
        [] \<Rightarrow> None
      | c # cs \<Rightarrow> if c = CHR ''0'' then Some ([c], cs)
                  else if is_digit c then Some (span_digits s) else None)"

definition parse_frac :: "string \<Rightarrow> (string \<times> string) option" where
  "parse_frac s =
     (case s of
        c # cs \<Rightarrow> if c = CHR ''.'' then
            (case span_digits cs of ([], _) \<Rightarrow> None | (ds, r) \<Rightarrow> Some (c # ds, r))
          else Some ([], s)
      | [] \<Rightarrow> Some ([], s))"

definition parse_exp :: "string \<Rightarrow> (string \<times> string) option" where
  "parse_exp s =
     (case s of
        c # cs \<Rightarrow> if c = CHR ''e'' \<or> c = CHR ''E'' then
            (let (sg, t) = (case cs of d # ds \<Rightarrow> if d = CHR ''+'' \<or> d = CHR ''-'' then ([d], ds) else ([], cs)
                            | [] \<Rightarrow> ([], cs))
             in case span_digits t of ([], _) \<Rightarrow> None | (ds, r) \<Rightarrow> Some (c # sg @ ds, r))
          else Some ([], s)
      | [] \<Rightarrow> Some ([], s))"

definition parse_num :: "string \<Rightarrow> (string \<times> string) option" where
  "parse_num s =
     (let (sg, t) = (case s of c # cs \<Rightarrow> if c = CHR ''-'' then ([c], cs) else ([], s) | [] \<Rightarrow> ([], s))
      in case parse_int_part t of
           None \<Rightarrow> None
         | Some (i, t1) \<Rightarrow>
             (case parse_frac t1 of
                None \<Rightarrow> None
              | Some (f, t2) \<Rightarrow>
                  (case parse_exp t2 of
                     None \<Rightarrow> None
                   | Some (x, t3) \<Rightarrow> Some (sg @ i @ f @ x, t3))))"

text \<open>
  Values, the elements of a non-empty array and the members of a non-empty object.
  Every call spends one unit of fuel; twice the length of the input is enough, since
  between two calls on the same input there is at most one step.
\<close>

fun parse_value :: "nat \<Rightarrow> string \<Rightarrow> (json \<times> string) option"
  and parse_elems :: "nat \<Rightarrow> string \<Rightarrow> (json list \<times> string) option"
  and parse_members :: "nat \<Rightarrow> string \<Rightarrow> ((string \<times> json) list \<times> string) option" where
  "parse_value 0 s = None"
| "parse_value (Suc n) s =
     (case skip_ws s of
        [] \<Rightarrow> None
      | c # cs \<Rightarrow>
          if c = CHR ''{'' then
            (if take 1 (skip_ws cs) = ''}'' then Some (JObj [], drop 1 (skip_ws cs))
             else map_option (\<lambda>(ms, r). (JObj ms, r)) (parse_members n cs))
          else if c = CHR ''['' then
            (if take 1 (skip_ws cs) = '']'' then Some (JArr [], drop 1 (skip_ws cs))
             else map_option (\<lambda>(js, r). (JArr js, r)) (parse_elems n cs))
          else if c = dq then map_option (\<lambda>(t, r). (JStr t, r)) (parse_str cs)
          else if take 4 (c # cs) = ''true'' then Some (JBool True, drop 3 cs)
          else if take 5 (c # cs) = ''false'' then Some (JBool False, drop 4 cs)
          else if take 4 (c # cs) = ''null'' then Some (JNull, drop 3 cs)
          else map_option (\<lambda>(l, r). (JNum l, r)) (parse_num (c # cs)))"
| "parse_elems 0 s = None"
| "parse_elems (Suc n) s =
     (case parse_value n s of
        None \<Rightarrow> None
      | Some (j, r) \<Rightarrow>
          (case skip_ws r of
             [] \<Rightarrow> None
           | c # cs \<Rightarrow>
               if c = CHR '','' then map_option (\<lambda>(js, r'). (j # js, r')) (parse_elems n cs)
               else if c = CHR '']'' then Some ([j], cs) else None))"
| "parse_members 0 s = None"
| "parse_members (Suc n) s =
     (case skip_ws s of
        [] \<Rightarrow> None
      | q # cs \<Rightarrow>
          if q \<noteq> dq then None else
          (case parse_str cs of
             None \<Rightarrow> None
           | Some (k, r) \<Rightarrow>
               (case skip_ws r of
                  [] \<Rightarrow> None
                | col # r1 \<Rightarrow>
                    if col \<noteq> CHR '':'' then None else
                    (case parse_value n r1 of
                       None \<Rightarrow> None
                     | Some (j, r2) \<Rightarrow>
                         (case skip_ws r2 of
                            [] \<Rightarrow> None
                          | c # r3 \<Rightarrow>
                              if c = CHR '','' then map_option (\<lambda>(ms, r'). ((k, j) # ms, r')) (parse_members n r3)
                              else if c = CHR ''}'' then Some ([(k, j)], r3) else None)))))"

text \<open>
  \<^verbatim>\<open>json.NewDecoder(r).Decode\<close> reads one value and leaves the rest; \<^verbatim>\<open>json.Unmarshal\<close>
  accepts white space only after it.
\<close>

definition json_Decode :: "string \<Rightarrow> json option" where
  "json_Decode s = map_option fst (parse_value (2 * length s + 2) s)"

definition json_parse :: "string \<Rightarrow> json option" where
  "json_parse s =
     (case parse_value (2 * length s + 2) s of
        None \<Rightarrow> None
      | Some (j, r) \<Rightarrow> if skip_ws r = [] then Some j else None)"

section \<open>Parsing what was printed\<close>

definition ascii :: "string \<Rightarrow> bool" where
  "ascii s \<longleftrightarrow> list_all (\<lambda>c. (of_char c :: nat) < 128) s"

lemma ascii_simps [simp]: "ascii []" "ascii (c # s) \<longleftrightarrow> (of_char c :: nat) < 128 \<and> ascii s"
  by (simp_all add: ascii_def)

lemma ascii_b64 [simp]: "ascii (b64_EncodeToString bs)"
  using plain_b64 [of bs] by (auto simp: ascii_def list_all_iff plain_char_def Let_def)

text \<open>
  What survives JSON: invalid UTF-8 sequences become U+FFFD, everything else stays.
\<close>

function to_valid :: "string \<Rightarrow> string" where
  "to_valid [] = []"
| "to_valid (c # cs) =
     (if (of_char c :: nat) < 128 then c # to_valid cs
      else case utf8_DecodeRune (c # cs) of (r, n) \<Rightarrow>
        (if n \<le> 1 then utf8_of_rune 65533 else take n (c # cs)) @ to_valid (drop (n - 1) cs))"
  by pat_completeness auto
termination
  by (relation "measure length") auto

definition valid_utf8 :: "string \<Rightarrow> bool" where
  "valid_utf8 s \<longleftrightarrow> to_valid s = s"

lemma ascii_valid [simp]: "ascii s \<Longrightarrow> valid_utf8 s"
proof -
  assume "ascii s"
  then have "to_valid s = s" by (induction s) auto
  then show ?thesis by (simp add: valid_utf8_def)
qed

lemma rune2_Some:
  "rune2 b0 cs = Some (r, n) \<Longrightarrow>
     n = 2 \<and> 1 \<le> length cs \<and> r < 2048 \<and> in_range 194 223 b0 \<and> rune2 b0 (take 1 cs @ t) = Some (r, n)"
  by (cases cs) (auto simp: rune2_def Let_def in_range_def split: if_splits)

lemma rune3_Some:
  "rune3 b0 cs = Some (r, n) \<Longrightarrow>
     n = 3 \<and> 2 \<le> length cs \<and> in_range 224 239 b0 \<and> rune3 b0 (take 2 cs @ t) = Some (r, n)"
  by (cases cs; cases "tl cs") (auto simp: rune3_def Let_def in_range_def split: if_splits)

lemma rune4_SomeE:
  assumes "rune4 b0 cs = Some (r, n)"
  obtains c1 c2 c3 t where "cs = c1 # c2 # c3 # t" "n = 4"
    "b0 = 240 \<and> in_range 144 191 (of_char c1) \<or> in_range 241 244 b0" "rune4 b0 [c1, c2, c3] = Some (r, n)"
    "r = b0 mod 8 * 262144 + of_char c1 mod 64 * 4096 + of_char c2 mod 64 * 64 + of_char c3 mod 64"
proof -
  obtain c1 c2 c3 t where cs: "cs = c1 # c2 # c3 # t"
    using assms by (auto simp: rune4_def split: list.splits)
  let ?P = "b0 = 240 \<and> in_range 144 191 (of_char c1) \<or> in_range 241 243 b0 \<and> in_range 128 191 (of_char c1)
      \<or> b0 = 244 \<and> in_range 128 143 (of_char c1)"
  have P: "?P" "n = 4" "r = b0 mod 8 * 262144 + of_char c1 mod 64 * 4096 + of_char c2 mod 64 * 64 + of_char c3 mod 64"
    using assms unfolding cs rune4_def Let_def list.case by (simp_all split: if_split_asm)
  have "in_range 241 243 b0 \<Longrightarrow> in_range 241 244 b0" "in_range 241 244 244"
    by (simp_all add: in_range_def)
  with P(1) have "b0 = 240 \<and> in_range 144 191 (of_char c1) \<or> in_range 241 244 b0" by blast
  moreover have "rune4 b0 [c1, c2, c3] = Some (r, n)"
    using assms unfolding cs rune4_def list.case .
  ultimately show ?thesis using cs P(2,3) that by blast
qed

lemma rune4_Some:
  assumes "rune4 b0 cs = Some (r, n)"
  shows "n = 4 \<and> 3 \<le> length cs \<and> in_range 240 244 b0 \<and> rune4 b0 (take 3 cs @ t) = Some (r, n)"
proof -
  from assms obtain c1 c2 c3 u where c: "cs = c1 # c2 # c3 # u" "n = 4"
    "b0 = 240 \<and> in_range 144 191 (of_char c1) \<or> in_range 241 244 b0" "rune4 b0 [c1, c2, c3] = Some (r, n)"
    by (rule rune4_SomeE)
  from c(4) have "rune4 b0 (c1 # c2 # c3 # t) = Some (r, n)" unfolding rune4_def list.case .
  moreover have "in_range 240 244 b0" using c(3) by (auto simp: in_range_def)
  ultimately show ?thesis using c(1,2) by (simp add: numeral_3_eq_3)
qed

lemma rune_None:
  "\<not> in_range 194 223 b0 \<Longrightarrow> rune2 b0 cs = None"
  "\<not> in_range 224 239 b0 \<Longrightarrow> rune3 b0 cs = None"
  by (auto simp: rune2_def rune3_def Let_def in_range_def split: list.splits)

lemma utf8_prefix:
  assumes "utf8_DecodeRune (c # cs) = (r, n)" and "2 \<le> n"
  shows "utf8_DecodeRune (c # take (n - 1) cs @ t) = (r, n)"
proof -
  let ?b = "of_char c :: nat"
  have b: "\<not> ?b < 128" using assms by (auto simp: Let_def)
  from assms b consider
      (two) "rune2 ?b cs = Some (r, n)"
    | (three) "rune3 ?b cs = Some (r, n)"
    | (four) "rune4 ?b cs = Some (r, n)"
    by (auto simp: Let_def split: option.splits)
  then show ?thesis
  proof cases
    case two
    with b show ?thesis using rune2_Some [OF two, of t] by (auto simp: Let_def)
  next
    case three
    then show ?thesis
      using b rune3_Some [OF three, of t] by (auto simp: Let_def rune_None in_range_def)
  next
    case four
    then show ?thesis
      using b rune4_Some [OF four, of t] by (auto simp: Let_def rune_None in_range_def)
  qed
qed

lemma char_of_char_eq: "(of_char c :: nat) = n \<Longrightarrow> char_of n = c"
  by auto

lemma rune3_2028:
  assumes "rune3 (of_char c) cs = Some (r, n)" and "r = 8232 \<or> r = 8233"
  shows "utf8_of_rune r = take 3 (c # cs)"
proof -
  from assms(1) obtain c1 c2 t where cs: "cs = c1 # c2 # t"
    and b: "224 \<le> (of_char c :: nat)" "(of_char c :: nat) \<le> 239" "128 \<le> (of_char c1 :: nat)" "(of_char c1 :: nat) \<le> 191" "128 \<le> (of_char c2 :: nat)" "(of_char c2 :: nat) \<le> 191"
    and r: "r = of_char c mod 16 * 4096 + of_char c1 mod 64 * 64 + of_char c2 mod 64"
    by (auto simp: rune3_def Let_def in_range_def split: list.splits if_splits)
  have "\<exists>(x :: nat) (y :: nat) (z :: nat). of_char c = 224 + x \<and> of_char c1 = 128 + y \<and> of_char c2 = 128 + z \<and> x < 16 \<and> y < 64 \<and> z < (64::nat)"
    using b by (intro exI [of _ "of_char c - 224"] exI [of _ "of_char c1 - 128"] exI [of _ "of_char c2 - 128"]) auto
  then obtain x y z :: nat where e: "of_char c = 224 + x" "of_char c1 = 128 + y" "of_char c2 = 128 + z" "x < 16" "y < 64" "z < (64::nat)"
    by blast
  then have rx: "r = x * 4096 + y * 64 + z" using r by (simp add: mod_add_left_eq [symmetric])
  with e assms(2) have x: "x = 2" by auto
  with rx e assms(2) have y: "y = 0" by auto
  have "z = 40 \<or> z = 41" "r = 8192 + z" using rx x y assms(2) by auto
  with x y have "char_of (224 + r div 4096) = c" "char_of (128 + r div 64 mod 64) = c1" "char_of (128 + r mod 64) = c2"
    using e by (intro char_of_char_eq; auto)+
  with cs assms(2) show ?thesis
    by (auto simp: utf8_of_rune_def)
qed

lemma rune4_big:
  assumes "rune4 b0 cs = Some (r, n)"
  shows "65536 \<le> r"
proof -
  from assms obtain c1 c2 c3 where
      b: "b0 = 240 \<and> in_range 144 191 (of_char c1) \<or> in_range 241 244 b0"
    and r: "r = b0 mod 8 * 262144 + of_char c1 mod 64 * 4096 + of_char c2 mod 64 * 64 + of_char c3 mod 64"
    by (rule rune4_SomeE)
  have "65536 \<le> b0 mod 8 * 262144 + of_char c1 mod 64 * 4096"
    using b
  proof
    assume "in_range 241 244 b0"
    then have "b0 = 241 \<or> b0 = 242 \<or> b0 = 243 \<or> b0 = 244" by (auto simp: in_range_def)
    then show ?thesis by auto
  next
    assume a: "b0 = 240 \<and> in_range 144 191 (of_char c1)"
    then have "(of_char c1 :: nat) mod 64 = of_char c1 - 128" "144 \<le> (of_char c1 :: nat)"
      by (auto simp: in_range_def mod_if)
    then show ?thesis by simp
  qed
  with r show ?thesis by simp
qed

lemma utf8_2028:
  assumes "utf8_DecodeRune (c # cs) = (r, n)" and "2 \<le> n" and "r = 8232 \<or> r = 8233"
  shows "utf8_of_rune r = take n (c # cs)"
proof -
  have b: "\<not> (of_char c :: nat) < 128" using assms by (auto simp: Let_def)
  with assms have "rune3 (of_char c) cs = Some (r, n)"
    using rune2_Some [of "of_char c" cs r n "[]"] rune4_big [of "of_char c" cs r n]
    by (auto simp: Let_def split: option.splits)
  with assms(3) rune3_2028 rune3_Some [of "of_char c" cs r n "[]"] show ?thesis by auto
qed


lemma parse_escape_u4:
  assumes "(of_char c :: nat) < 128"
  shows "parse_escape (tl (u4 (of_char c)) @ t) = Some ([c], t)"
proof -
  have "hex4 (drop 2 (u4 (of_char c)) @ t) = Some (of_char c, t)"
    using assms div_mult_mod_eq [of "of_char c :: nat" 16] by (simp add: u4_def)
  with assms show ?thesis
    by (simp add: parse_escape_def u4_def utf8_of_rune_def)
qed

lemma parse_str_esc_ascii:
  assumes "(of_char c :: nat) < 128"
  shows "parse_str (esc_ascii c @ t) = map_option (\<lambda>(x, r). (c # x, r)) (parse_str t)"
proof -
  have u: "u4 (of_char c) @ t = bsl # tl (u4 (of_char c)) @ t"
    by (simp add: u4_def)
  have "parse_str (u4 (of_char c) @ t) = map_option (\<lambda>(x, r). (c # x, r)) (parse_str t)"
    unfolding u using parse_escape_u4 [OF assms] by simp
  with assms show ?thesis
    by (auto simp: esc_ascii_def parse_escape_def simple_escape_def)
qed

lemma utf8_length:
  assumes "utf8_DecodeRune (c # cs) = (r, n)"
  shows "n - 1 \<le> length cs"
  using assms rune2_Some [of "of_char c" cs r n "[]"] rune3_Some [of "of_char c" cs r n "[]"]
    rune4_Some [of "of_char c" cs r n "[]"]
  by (auto simp: Let_def split: if_splits option.splits)

lemma hex_digits_sum:
  assumes "r < 65536"
  shows "r div 4096 mod 16 * 4096 + r div 256 mod 16 * 256 + r div 16 mod 16 * 16 + r mod 16 = (r :: nat)"
proof -
  have "r div 4096 mod 16 = r div 16 div 16 div 16" "r div 256 mod 16 = r div 16 div 16 mod 16"
    using assms by (simp_all add: div_mult2_eq [symmetric])
  moreover have "x * 4096 + y * 256 + z * 16 + w = r"
    if "x * 16 + y = p" "p * 16 + z = q" "q * 16 + w = r" for x y z w p q :: nat
    using that by auto
  ultimately show ?thesis by (metis div_mult_mod_eq)
qed

lemma parse_str_u4:
  assumes "r < 65536" and "\<not> (55296 \<le> r \<and> r < 57344)"
  shows "parse_str (u4 r @ t) = map_option (\<lambda>(x, r'). (utf8_of_rune r @ x, r')) (parse_str t)"
proof -
  let ?d = "[hex_digit (r div 4096 mod 16), hex_digit (r div 256 mod 16),
      hex_digit (r div 16 mod 16), hex_digit (r mod 16)]"
  have "hex4 (?d @ t) = Some (r div 4096 mod 16 * 4096 + r div 256 mod 16 * 256 + r div 16 mod 16 * 16 + r mod 16, t)"
    by simp
  moreover have "r div 4096 mod 16 * 4096 + r div 256 mod 16 * 256 + r div 16 mod 16 * 16 + r mod 16 = r"
    by (rule hex_digits_sum) (use assms in simp)
  ultimately have "parse_escape (CHR ''u'' # ?d @ t) = Some (utf8_of_rune r, t)"
    using assms by (auto simp: parse_escape_def)
  then show ?thesis by (simp add: u4_def)
qed

lemma parse_str_esc: "parse_str (esc_string s @ dq # t) = Some (to_valid s, t)"
proof (induction s rule: esc_string.induct)
  case (2 c cs)
  show ?case
  proof (cases "(of_char c :: nat) < 128")
    case True
    with "2.IH"(1) show ?thesis by (simp add: parse_str_esc_ascii)
  next
    case False
    obtain r n where rn: "utf8_DecodeRune (c # cs) = (r, n)" by fastforce
    let ?rest = "esc_string (drop (n - 1) cs)"
    from "2.IH"(2) [OF False rn [symmetric]]
    have IH: "parse_str (?rest @ dq # t) = Some (to_valid (drop (n - 1) cs), t)" by simp
    consider (bad) "n \<le> 1" | (sep) "2 \<le> n" "r = 8232 \<or> r = 8233" | (ok) "2 \<le> n" "\<not> (r = 8232 \<or> r = 8233)"
      by linarith
    then show ?thesis
    proof cases
      case bad
      with False rn IH show ?thesis by (simp add: parse_str_u4 del: utf8_DecodeRune.simps)
    next
      case sep
      with False rn IH utf8_2028 [OF rn sep] show ?thesis
        by (auto simp: parse_str_u4 simp del: utf8_DecodeRune.simps)
    next
      case ok
      have c: "c \<noteq> dq" "c \<noteq> bsl" using False by auto
      have e: "esc_string (c # cs) = c # take (n - 1) cs @ ?rest"
        using False rn ok by (cases n) (simp_all del: utf8_DecodeRune.simps)
      have l: "length (take (n - 1) cs) = n - 1"
        using rn ok utf8_length by fastforce
      have "utf8_DecodeRune (c # take (n - 1) cs @ ?rest @ dq # t) = (r, n)"
        using utf8_prefix [OF rn ok(1), of "?rest @ dq # t"] by simp
      with False c ok l IH rn show ?thesis
        unfolding e by (simp del: utf8_DecodeRune.simps) (cases n; simp)
    qed
  qed
qed simp

text \<open>
  The values the program prints have numbers that are 64-bit integers; what parsing
  gives back has every string and every key cleaned of invalid UTF-8.
\<close>

fun json_printable :: "json \<Rightarrow> bool"
  and elems_printable :: "json list \<Rightarrow> bool"
  and members_printable :: "(string \<times> json) list \<Rightarrow> bool" where
  "json_printable (JNum l) = (case ParseInt l of None \<Rightarrow> False | Some i \<Rightarrow> l = Itoa i)"
| "json_printable (JArr js) = elems_printable js"
| "json_printable (JObj ms) = members_printable ms"
| "json_printable _ = True"
| "elems_printable [] = True"
| "elems_printable (j # js) = (json_printable j \<and> elems_printable js)"
| "members_printable [] = True"
| "members_printable ((k, j) # ms) = (json_printable j \<and> members_printable ms)"

fun json_clean :: "json \<Rightarrow> json"
  and elems_clean :: "json list \<Rightarrow> json list"
  and members_clean :: "(string \<times> json) list \<Rightarrow> (string \<times> json) list" where
  "json_clean (JStr s) = JStr (to_valid s)"
| "json_clean (JArr js) = JArr (elems_clean js)"
| "json_clean (JObj ms) = JObj (members_clean ms)"
| "json_clean j = j"
| "elems_clean [] = []"
| "elems_clean (j # js) = json_clean j # elems_clean js"
| "members_clean [] = []"
| "members_clean ((k, j) # ms) = (to_valid k, json_clean j) # members_clean ms"

definition json_ok :: "json \<Rightarrow> bool" where
  "json_ok j \<longleftrightarrow> json_printable j \<and> json_clean j = j"

definition elems_ok :: "json list \<Rightarrow> bool" where
  "elems_ok js \<longleftrightarrow> (\<forall>j \<in> set js. json_ok j)"

definition members_ok :: "(string \<times> json) list \<Rightarrow> bool" where
  "members_ok ms \<longleftrightarrow> (\<forall>(k, j) \<in> set ms. valid_utf8 k \<and> json_ok j)"

lemma elems_ok_iff: "elems_ok js \<longleftrightarrow> elems_printable js \<and> elems_clean js = js"
  by (induction js) (auto simp: elems_ok_def json_ok_def)

lemma members_ok_iff: "members_ok ms \<longleftrightarrow> members_printable ms \<and> members_clean ms = ms"
  by (induction ms) (auto simp: members_ok_def json_ok_def valid_utf8_def)

lemma json_ok_simps [simp]:
  "json_ok JNull" "json_ok (JBool b)" "json_ok (JStr s) = valid_utf8 s"
  "json_ok (JArr js) = elems_ok js" "json_ok (JObj ms) = members_ok ms"
  by (simp_all add: json_ok_def valid_utf8_def elems_ok_iff members_ok_iff)

lemma elems_ok_simps [simp]: "elems_ok []" "elems_ok (j # js) \<longleftrightarrow> json_ok j \<and> elems_ok js"
  by (simp_all add: elems_ok_def)

lemma members_ok_simps [simp]:
  "members_ok []" "members_ok ((k, j) # ms) \<longleftrightarrow> valid_utf8 k \<and> json_ok j \<and> members_ok ms"
  "members_ok (ms @ ms') \<longleftrightarrow> members_ok ms \<and> members_ok ms'"
  by (auto simp: members_ok_def)

lemma json_ok_JInt [simp]: "- (2 ^ 63) \<le> i \<Longrightarrow> i \<le> max_i64 \<Longrightarrow> json_ok (JInt i)"
  by (simp add: JInt_def ParseInt_Itoa json_ok_def)

text \<open>What may follow a value inside an array, an object or at the end of the text.\<close>

definition value_end :: "string \<Rightarrow> bool" where
  "value_end r \<longleftrightarrow> (case r of [] \<Rightarrow> True | c # _ \<Rightarrow> c \<in> {CHR '','', CHR '']'', CHR ''}''})"

lemma value_end_simps [simp]:
  "value_end []" "value_end (CHR '','' # r)" "value_end (CHR '']'' # r)" "value_end (CHR ''}'' # r)"
  by (simp_all add: value_end_def)

lemma nat_digits_pos: "0 < n \<Longrightarrow> \<exists>c cs. nat_digits n = c # cs \<and> is_digit c \<and> c \<noteq> CHR ''0''"
proof (induction n rule: nat_digits.induct)
  case (1 n)
  show ?case
  proof (cases "n < 10")
    case True
    then have "of_char (digit_char n) = 48 + n" by (rule of_digit_char)
    with True "1.prems" show ?thesis
      by (auto simp: nat_digits.simps [of n])
  next
    case False
    then have "0 < n div 10" by simp
    with "1.IH" [OF False] obtain c cs where "nat_digits (n div 10) = c # cs" "is_digit c" "c \<noteq> CHR ''0''"
      by blast
    with False show ?thesis by (simp add: nat_digits.simps [of n])
  qed
qed

lemma span_digits_append:
  "(\<forall>c \<in> set ds. is_digit c) \<Longrightarrow> value_end r \<Longrightarrow> span_digits (ds @ r) = (ds, r)"
  by (induction ds) (auto simp: span_digits_def value_end_def is_digit_def split: list.splits)

lemma parse_int_part_digits:
  assumes "value_end r"
  shows "parse_int_part (nat_digits n @ r) = Some (nat_digits n, r)"
proof (cases "n = 0")
  case True
  have "nat_digits 0 = ''0''"
    by (simp add: nat_digits.simps [of 0]) code_simp
  with True show ?thesis by (simp add: parse_int_part_def)
next
  case False
  then obtain c cs where c: "nat_digits n = c # cs" "is_digit c" "c \<noteq> CHR ''0''"
    using nat_digits_pos by blast
  have "span_digits (nat_digits n @ r) = (nat_digits n, r)"
    using assms by (simp add: span_digits_append nat_digits_digits)
  with c show ?thesis by (simp add: parse_int_part_def)
qed

lemma parse_num_Itoa:
  assumes "value_end r"
  shows "parse_num (Itoa i @ r) = Some (Itoa i, r)"
proof -
  have tail: "parse_frac r = Some ([], r)" "parse_exp r = Some ([], r)"
    using assms by (auto simp: parse_frac_def parse_exp_def value_end_def split: list.splits)
  obtain c cs where c: "nat_digits (nat i) = c # cs" "is_digit c"
    using nat_digits_hd by blast
  then have "c \<noteq> CHR ''-''" by (auto simp: is_digit_def)
  with c tail parse_int_part_digits [OF assms, of "nat i"] parse_int_part_digits [OF assms, of "nat (- i)"]
  show ?thesis
    by (simp add: parse_num_def Itoa_def)
qed

lemma Itoa_hd: "\<exists>c cs. Itoa i = c # cs \<and> (is_digit c \<or> c = CHR ''-'')"
  using nat_digits_hd [of "nat i"] by (auto simp: Itoa_def)

text \<open>How much fuel a printed value needs; it is within its length.\<close>

fun fuel_value :: "json \<Rightarrow> nat"
  and fuel_elems :: "json list \<Rightarrow> nat"
  and fuel_members :: "(string \<times> json) list \<Rightarrow> nat" where
  "fuel_value (JArr js) = Suc (fuel_elems js)"
| "fuel_value (JObj ms) = Suc (fuel_members ms)"
| "fuel_value _ = 1"
| "fuel_elems [] = 0"
| "fuel_elems (j # js) = Suc (max (fuel_value j) (fuel_elems js))"
| "fuel_members [] = 0"
| "fuel_members ((k, j) # ms) = Suc (max (fuel_value j) (fuel_members ms))"

lemma fuel_bound:
  "json_printable j \<Longrightarrow> fuel_value j \<le> length (show_json j)"
  "elems_printable js \<Longrightarrow> fuel_elems js \<le> length (show_elems js) + 1"
  "members_printable ms \<Longrightarrow> fuel_members ms \<le> length (show_members ms) + 1"
proof (induction j and js and ms rule: show_json_show_elems_show_members.induct)
  case (3 l)
  then obtain i where "l = Itoa i" by (auto split: option.splits)
  moreover have "Itoa i \<noteq> []" using Itoa_hd [of i] by auto
  ultimately show ?case by (simp add: Suc_le_eq)
qed auto

lemma show_json_hd:
  "json_printable j \<Longrightarrow> \<exists>c cs. show_json j = c # cs \<and> \<not> is_ws c \<and> c \<noteq> CHR '']'' \<and> c \<noteq> CHR ''}''"
proof (cases j)
  case (JNum l)
  assume "json_printable j"
  with JNum obtain i where "l = Itoa i" by (auto split: option.splits)
  moreover obtain c cs where "Itoa i = c # cs" "is_digit c \<or> c = CHR ''-''"
    using Itoa_hd by blast
  ultimately show ?thesis
    using JNum by (auto simp: is_ws_def is_digit_def)
qed (auto simp: is_ws_def)

lemma skip_ws_show: "json_printable j \<Longrightarrow> skip_ws (show_json j @ r) = show_json j @ r"
  using show_json_hd [of j] by (auto simp: skip_ws_def)

lemma skip_ws_end: "value_end r \<Longrightarrow> skip_ws r = r"
  by (auto simp: value_end_def skip_ws_def is_ws_def split: list.splits)

lemma parse_value_JNum:
  assumes "value_end r"
  shows "parse_value (Suc n) (Itoa i @ r) = Some (JNum (Itoa i), r)"
proof -
  obtain c cs where c: "Itoa i = c # cs" "is_digit c \<or> c = CHR ''-''"
    using Itoa_hd by blast
  then have ne: "\<not> is_ws c" "c \<noteq> CHR ''{''" "c \<noteq> CHR ''[''" "c \<noteq> dq" "c \<noteq> CHR ''t''"
    "c \<noteq> CHR ''f''" "c \<noteq> CHR ''n''"
    by (auto simp: is_digit_def is_ws_def)
  then have "skip_ws (Itoa i @ r) = c # cs @ r"
    using c by (simp add: skip_ws_def)
  with c ne parse_num_Itoa [OF assms, of i] show ?thesis
    by simp
qed

lemma parse_show:
  "json_printable j \<Longrightarrow> fuel_value j \<le> n \<Longrightarrow> value_end r \<Longrightarrow> parse_value n (show_json j @ r) = Some (json_clean j, r)"
  "elems_printable js \<Longrightarrow> js \<noteq> [] \<Longrightarrow> fuel_elems js \<le> n \<Longrightarrow>
     parse_elems n (show_elems js @ CHR '']'' # r) = Some (elems_clean js, r)"
  "members_printable ms \<Longrightarrow> ms \<noteq> [] \<Longrightarrow> fuel_members ms \<le> n \<Longrightarrow>
     parse_members n (show_members ms @ CHR ''}'' # r) = Some (members_clean ms, r)"
proof (induction j and js and ms arbitrary: n r and n r and n r rule: show_json_show_elems_show_members.induct)
  case 1
  then show ?case by (cases n) (auto simp: skip_ws_def is_ws_def)
next
  case (2 b)
  then show ?case by (cases n) (auto simp: skip_ws_def is_ws_def)
next
  case (3 l)
  then obtain i where "l = Itoa i" by (auto split: option.splits)
  with 3 show ?case by (cases n) (simp_all add: parse_value_JNum del: parse_value.simps(2))
next
  case (4 s)
  then show ?case by (cases n) (auto simp: skip_ws_def is_ws_def parse_str_esc valid_utf8_def)
next
  case (5 js)
  then obtain m where m: "n = Suc m" "fuel_elems js \<le> m" by (cases n) auto
  show ?case
  proof (cases js)
    case Nil
    with m show ?thesis by (simp add: skip_ws_def is_ws_def)
  next
    case (Cons j js')
    then have "json_printable j" using "5.prems" by simp
    then obtain c cs where c: "show_json j = c # cs" "\<not> is_ws c" "c \<noteq> CHR '']''"
      using show_json_hd by blast
    have "\<exists>t. show_elems js = c # t" using c Cons by (cases js') auto
    then have "take 1 (skip_ws (show_elems js @ CHR '']'' # r)) \<noteq> '']''"
      using c by (auto simp: skip_ws_def)
    with m "5.IH" [of m r] "5.prems" Cons show ?thesis
      by (simp add: skip_ws_def is_ws_def)
  qed
next
  case (6 ms)
  then obtain m where m: "n = Suc m" "fuel_members ms \<le> m" by (cases n) auto
  show ?case
  proof (cases ms)
    case Nil
    with m show ?thesis by (simp add: skip_ws_def is_ws_def)
  next
    case (Cons kj ms')
    then have "\<exists>t. show_members ms = dq # t" by (cases kj; cases ms') auto
    then have "take 1 (skip_ws (show_members ms @ CHR ''}'' # r)) \<noteq> ''}''"
      by (auto simp: skip_ws_def is_ws_def)
    with m "6.IH" [of m r] "6.prems" Cons show ?thesis
      by (simp add: skip_ws_def is_ws_def)
  qed
next
  case 7
  then show ?case by simp
next
  case (8 j)
  then show ?case by (cases n) (auto simp: skip_ws_end)
next
  case (9 j j' js)
  then show ?case by (cases n) (auto simp: skip_ws_end)
next
  case 10
  then show ?case by simp
next
  case (11 k j)
  then show ?case by (cases n) (auto simp: skip_ws_end parse_str_esc valid_utf8_def skip_ws_def is_ws_def)
next
  case (12 k j m ms)
  then show ?case by (cases n) (auto simp: skip_ws_end parse_str_esc valid_utf8_def skip_ws_def is_ws_def)
qed

theorem json_parse_show: "json_printable j \<Longrightarrow> json_parse (show_json j) = Some (json_clean j)"
  using parse_show(1) [of j "2 * length (show_json j) + 2" "[]"] fuel_bound(1) [of j]
  by (simp add: json_parse_def skip_ws_def)

corollary json_roundtrip: "json_ok j \<Longrightarrow> json_parse (show_json j) = Some j"
  by (simp add: json_parse_show json_ok_def)

lemma json_Decode_show: "json_ok j \<Longrightarrow> json_Decode (show_json j) = Some j"
  using parse_show(1) [of j "2 * length (show_json j) + 2" "[]"] fuel_bound(1) [of j]
  by (simp add: json_Decode_def json_ok_def)

lemma show_json_inj: "json_ok i \<Longrightarrow> json_ok j \<Longrightarrow> show_json i = show_json j \<longleftrightarrow> i = j"
  by (metis json_roundtrip option.inject)

end
