(* ===== verification/Golib.thy ===== *)
theory Golib
  imports Json
begin

text \<open>
  The functions of Go's standard library that the outer components call:
  \<^verbatim>\<open>strconv.Quote\<close> (the verb \<^verbatim>\<open>%q\<close>) and \<^verbatim>\<open>ParseBool\<close>, \<^verbatim>\<open>time.ParseDuration\<close>,
  \<^verbatim>\<open>strings.Split\<close>, \<^verbatim>\<open>Join\<close> and \<^verbatim>\<open>IndexByte\<close>, maps as association lists, and a map's
  key order after \<^verbatim>\<open>sort.Strings\<close>.
\<close>

section \<open>Quoting\<close>

text \<open>
  \<^verbatim>\<open>strconv.Quote\<close>. A character from U+00A0 on, other than the soft hyphen, counts as
  printable.
\<close>

definition x2 :: "nat \<Rightarrow> string" where
  "x2 n = [bsl, CHR ''x'', hex_digit (n div 16 mod 16), hex_digit (n mod 16)]"

definition quote_ascii :: "char \<Rightarrow> string" where
  "quote_ascii c =
     (if c = dq \<or> c = bsl then [bsl, c]
      else if 32 \<le> (of_char c :: nat) \<and> (of_char c :: nat) < 127 then [c]
      else if c = CHR 0x07 then [bsl, CHR ''a'']
      else if c = CHR 0x08 then [bsl, CHR ''b'']
      else if c = CHR 0x0C then [bsl, CHR ''f'']
      else if c = CHR 0x0A then [bsl, CHR ''n'']
      else if c = CHR 0x0D then [bsl, CHR ''r'']
      else if c = CHR 0x09 then [bsl, CHR ''t'']
      else if c = CHR 0x0B then [bsl, CHR ''v'']
      else x2 (of_char c))"

function quote_body :: "string \<Rightarrow> string" where
  "quote_body [] = []"
| "quote_body (c # cs) =
     (if (of_char c :: nat) < 128 then quote_ascii c @ quote_body cs
      else case utf8_DecodeRune (c # cs) of (r, n) \<Rightarrow>
        (if n \<le> 1 then x2 (of_char c)
         else if r < 160 \<or> r = 173 then u4 r
         else take n (c # cs)) @ quote_body (drop (n - 1) cs))"
  by pat_completeness auto
termination
  by (relation "measure length") auto

definition Quote :: "string \<Rightarrow> string" where
  "Quote s = dq # quote_body s @ [dq]"

section \<open>Parsing\<close>

definition ParseBool :: "string \<Rightarrow> bool option" where
  "ParseBool s =
     (if s \<in> {''1'', ''t'', ''T'', ''TRUE'', ''true'', ''True''} then Some True
      else if s \<in> {''0'', ''f'', ''F'', ''FALSE'', ''false'', ''False''} then Some False
      else None)"

text \<open>
  \<^verbatim>\<open>time.ParseDuration\<close>, in nanoseconds: a sign, then numbers with an optional fraction,
  each followed by its unit. The part a fraction contributes is truncated (Go computes
  it in floating point before it truncates).
\<close>

definition dur_unit :: "string \<Rightarrow> nat option" where
  "dur_unit u = map_of
     [(''ns'', 1), (''us'', 1000), ([CHR 0xC2, CHR 0xB5, CHR ''s''], 1000), ([CHR 0xCE, CHR 0xBC, CHR ''s''], 1000),
      (''ms'', 1000000), (''s'', 1000000000), (''m'', 60000000000), (''h'', 3600000000000)] u"

fun leadingFraction :: "nat \<Rightarrow> nat \<Rightarrow> bool \<Rightarrow> string \<Rightarrow> nat \<times> nat \<times> string" where
  "leadingFraction x scale over [] = (x, scale, [])"
| "leadingFraction x scale over (c # cs) =
     (if \<not> is_digit c then (x, scale, c # cs)
      else if over \<or> (2 ^ 63 - 1) div 10 < x then leadingFraction x scale True cs
      else let y = 10 * x + (of_char c - 48) in
        if 2 ^ 63 < y then leadingFraction x scale True cs else leadingFraction y (10 * scale) False cs)"

definition dur_item :: "string \<Rightarrow> (nat \<times> string) option" where
  "dur_item s =
     (let ds = takeWhile is_digit s; s1 = dropWhile is_digit s; v = digits_val 0 ds in
      if s = [] \<or> \<not> (hd s = CHR ''.'' \<or> is_digit (hd s)) \<or> 2 ^ 63 < v then None
      else
        (let dot = (s1 \<noteq> [] \<and> hd s1 = CHR ''.'');
             (f, scale, s2) = (if dot then leadingFraction 0 1 False (tl s1) else (0, 1, s1));
             post = (dot \<and> length s2 < length (tl s1));
             u = takeWhile (\<lambda>c. c \<noteq> CHR ''.'' \<and> \<not> is_digit c) s2;
             s3 = dropWhile (\<lambda>c. c \<noteq> CHR ''.'' \<and> \<not> is_digit c) s2
         in if ds = [] \<and> \<not> post \<or> u = [] then None
            else case dur_unit u of
                None \<Rightarrow> None
              | Some unit \<Rightarrow>
                  (let n = v * unit + f * unit div scale in
                   if 2 ^ 63 div unit < v \<or> 2 ^ 63 < n then None else Some (n, s3))))"

lemma leadingFraction_length: "length (snd (snd (leadingFraction x scale over s))) \<le> length s"
  by (induction s arbitrary: x scale over) (auto simp: Let_def le_SucI)

lemma dur_item_length: "dur_item s = Some (n, r) \<Longrightarrow> length r < length s"
proof -
  assume a: "dur_item s = Some (n, r)"
  let ?s1 = "dropWhile is_digit s"
  define t where "t = (if ?s1 \<noteq> [] \<and> hd ?s1 = CHR ''.'' then leadingFraction 0 1 False (tl ?s1) else (0, 1, ?s1))"
  obtain f k s2 where t2: "t = (f, k, s2)" by (cases t)
  have "length ?s1 \<le> length s" by (rule length_dropWhile_le)
  moreover have "length s2 \<le> length ?s1"
    using t2 leadingFraction_length [of 0 1 False "tl ?s1"] by (auto simp: t_def split: if_splits)
  moreover have "takeWhile (\<lambda>c. c \<noteq> CHR ''.'' \<and> \<not> is_digit c) s2 \<noteq> []"
    "r = dropWhile (\<lambda>c. c \<noteq> CHR ''.'' \<and> \<not> is_digit c) s2"
    using a t2 by (auto simp: dur_item_def Let_def t_def split: if_splits option.splits)
  then have "length r < length s2"
    by (metis append_Nil length_dropWhile_le nat_less_le takeWhile_dropWhile_id length_append
        add_cancel_left_left length_0_conv)
  ultimately show "length r < length s" by simp
qed

function dur_loop :: "nat \<Rightarrow> string \<Rightarrow> nat option" where
  "dur_loop d s =
     (if s = [] then Some d
      else case dur_item s of
          None \<Rightarrow> None
        | Some (v, r) \<Rightarrow> if 2 ^ 63 < d + v then None else dur_loop (d + v) r)"
  by pat_completeness auto
termination
  by (relation "measure (\<lambda>(d, s). length s)") (auto dest: dur_item_length)

declare dur_loop.simps [simp del]

definition ParseDuration :: "string \<Rightarrow> int option" where
  "ParseDuration s0 =
     (let neg = (s0 \<noteq> [] \<and> hd s0 = CHR ''-'');
          s = (if s0 \<noteq> [] \<and> (hd s0 = CHR ''-'' \<or> hd s0 = CHR ''+'') then tl s0 else s0)
      in if s = ''0'' then Some 0
         else if s = [] then None
         else case dur_loop 0 s of
             None \<Rightarrow> None
           | Some d \<Rightarrow> if neg then Some (- int d) else if max_i64 < int d then None else Some (int d))"

lemma ParseDuration_range: "ParseDuration s = Some d \<Longrightarrow> - (2 ^ 63) \<le> d \<and> d \<le> max_i64"
proof -
  have b: "k \<le> 2 ^ 63 \<Longrightarrow> dur_loop k s = Some v \<Longrightarrow> v \<le> 2 ^ 63" for k s v
  proof (induction k s rule: dur_loop.induct)
    case (1 k s)
    from "1.prems" show ?case
      by (subst (asm) dur_loop.simps) (use "1.IH" in \<open>fastforce split: if_splits option.splits\<close>)
  qed
  assume "ParseDuration s = Some d"
  then show ?thesis
    by (auto simp: ParseDuration_def max_i64_def Let_def split: if_splits option.splits dest!: b [rotated])
qed

section \<open>Strings and maps\<close>

fun split_on :: "char \<Rightarrow> string \<Rightarrow> string list" where
  "split_on sep [] = [[]]"
| "split_on sep (c # cs) =
     (if c = sep then [] # split_on sep cs
      else case split_on sep cs of [] \<Rightarrow> [[c]] | p # ps \<Rightarrow> (c # p) # ps)"

fun Join :: "string list \<Rightarrow> string \<Rightarrow> string" where
  "Join [] sep = []"
| "Join [x] sep = x"
| "Join (x # y # xs) sep = x @ sep @ Join (y # xs) sep"

text \<open>\<^verbatim>\<open>strings.IndexByte\<close>, \<open>None\<close> for -1.\<close>

fun IndexByte :: "string \<Rightarrow> char \<Rightarrow> nat option" where
  "IndexByte [] b = None"
| "IndexByte (c # cs) b = (if c = b then Some 0 else map_option Suc (IndexByte cs b))"

text \<open>
  Go maps as association lists: an assignment, a deletion, and the lookup with the zero
  value for a missing key. A range over a map visits the entries in the order of the list;
  Go leaves that order open.
\<close>

definition map_put :: "'k \<Rightarrow> 'v \<Rightarrow> ('k \<times> 'v) list \<Rightarrow> ('k \<times> 'v) list" where
  "map_put k v m = (if k \<in> fst ` set m then map (\<lambda>(k', v'). if k' = k then (k', v) else (k', v')) m else m @ [(k, v)])"

definition map_get :: "'v \<Rightarrow> ('k \<times> 'v) list \<Rightarrow> 'k \<Rightarrow> 'v" where
  "map_get zero m k = (case map_of m k of None \<Rightarrow> zero | Some v \<Rightarrow> v)"

lemma map_of_map_put [simp]: "map_of (map_put k v m) = (map_of m)(k \<mapsto> v)"
proof -
  have 1: "k \<notin> fst ` set m \<Longrightarrow> map_of (m @ [(k, v)]) = (map_of m)(k \<mapsto> v)" for m :: "('a \<times> 'b) list"
    by (induction m) (auto simp: fun_eq_iff)
  have 2: "k \<in> fst ` set m \<Longrightarrow>
      map_of (map (\<lambda>(k', v'). if k' = k then (k', v) else (k', v')) m) = (map_of m)(k \<mapsto> v)" for m :: "('a \<times> 'b) list"
  proof (induction m)
    case (Cons x m)
    show ?case
    proof (cases "k \<in> fst ` set m")
      case True
      with Cons.IH show ?thesis by (cases x) (auto simp: fun_eq_iff)
    next
      case False
      then have "map (\<lambda>(k', v'). if k' = k then (k', v) else (k', v')) m = m" by (induction m) auto
      with Cons.prems False show ?thesis by (cases x) (auto simp: fun_eq_iff)
    qed
  qed simp
  show ?thesis using 1 2 by (simp add: map_put_def)
qed

lemma keys_map_put [simp]: "fst ` set (map_put k v m) = insert k (fst ` set m)"
proof -
  have "dom (map_of (map_put k v m)) = insert k (dom (map_of m))" by simp
  then show ?thesis by (simp only: dom_map_of_conv_image_fst)
qed

lemma distinct_map_put:
  assumes "distinct (map fst m)"
  shows "distinct (map fst (map_put k v m))"
proof (cases "k \<in> fst ` set m")
  case True
  have "map fst (map (\<lambda>(k', v'). if k' = k then (k', v) else (k', v')) m) = map fst m"
    by (simp add: case_prod_beta)
  with True assms show ?thesis unfolding map_put_def by (simp only: if_True)
next
  case False
  with assms show ?thesis by (simp add: map_put_def)
qed

lemma map_get_put [simp]: "map_get z (map_put k v m) k' = (if k' = k then v else map_get z m k')"
  by (simp add: map_get_def)

end
