(* ===== verification/Config.thy ===== *)
theory Config
  imports Golib
begin

text \<open>
  \<^verbatim>\<open>internal/config/config.go\<close>: the configuration record, its defaults, the overlay of the
  environment, the validation and \<^verbatim>\<open>Load\<close>. The file system is a parameter, and so is the
  YAML decoder (a third-party package), which takes the text of a file and the values
  preset in the struct. The lemmas say which source each setting comes from, that every
  loaded configuration is valid, and how the loop over the webhook variables behaves.
\<close>

section \<open>The configuration record\<close>

definition AuthModeNone :: string where "AuthModeNone = ''none''"
definition AuthModeHeader :: string where "AuthModeHeader = ''header''"
definition AuthModeWebhook :: string where "AuthModeWebhook = ''webhook''"

definition StorageSQLite :: string where "StorageSQLite = ''sqlite''"
definition StoragePostgres :: string where "StoragePostgres = ''postgres''"
definition StorageMySQL :: string where "StorageMySQL = ''mysql''"

lemmas mode_defs = AuthModeNone_def AuthModeHeader_def AuthModeWebhook_def
  StorageSQLite_def StoragePostgres_def StorageMySQL_def

definition defaultConfigPaths :: "string list" where
  "defaultConfigPaths = [''./opensynccrdt.yaml'', ''/etc/opensynccrdt/config.yaml'']"

record ServerConfig =
  Host :: string
  Port :: int
  ShutdownTimeout :: int

record TLSConfig =
  TLSEnabled :: bool
  CertFile :: string
  KeyFile :: string

record StorageConfig =
  Backend :: string
  DataDir :: string
  URL :: string
  SnapshotInterval :: int
  PostgresMaxConns :: int
  PostgresSSLMode :: string
  MySQLMaxConns :: int
  BusyTimeout :: int
  MaxOpenConns :: int

record AuthConfig =
  Mode :: string
  HeaderName :: string
  WebhookURL :: string
  WebhookSecret :: string
  WebhookTimeout :: int
  WebhookCacheTTL :: int

record WebhookConfig =
  WhSecret :: string
  WhTimeout :: int
  MaxRetries :: int
  Events :: "(string \<times> string) list"

record ConflictConfig =
  ResolverURL :: string
  ResolverSecret :: string
  ResolverTimeout :: int

record ClusterConfig =
  ClusterMode :: bool
  ClusterBackend :: string
  RedisURL :: string

record LimitsConfig =
  MaxConnections :: int
  MaxMessageSizeBytes :: int
  PingInterval :: int
  PongTimeout :: int
  WriteTimeout :: int
  ReadTimeout :: int

record CORSConfig =
  AllowedOrigins :: "string list"

record ManagementConfig =
  MgmtEnabled :: bool
  MgmtKey :: string

record LogConfig =
  LogLevel :: string
  LogFormat :: string

record Config =
  c_Server :: ServerConfig
  c_TLS :: TLSConfig
  c_Storage :: StorageConfig
  c_Auth :: AuthConfig
  c_Webhooks :: WebhookConfig
  c_Conflict :: ConflictConfig
  c_Cluster :: ClusterConfig
  c_Limits :: LimitsConfig
  c_CORS :: CORSConfig
  c_Management :: ManagementConfig
  c_Log :: LogConfig

definition second :: int where "second = 1000000000"

definition Default :: Config where
  "Default =
     \<lparr>c_Server = \<lparr>Host = ''0.0.0.0'', Port = 8080, ShutdownTimeout = 15 * second\<rparr>,
      c_TLS = \<lparr>TLSEnabled = False, CertFile = [], KeyFile = []\<rparr>,
      c_Storage =
        \<lparr>Backend = StorageSQLite, DataDir = ''./data'', URL = [], SnapshotInterval = 100,
         PostgresMaxConns = 10, PostgresSSLMode = ''require'', MySQLMaxConns = 10,
         BusyTimeout = 5 * second, MaxOpenConns = 1\<rparr>,
      c_Auth =
        \<lparr>Mode = AuthModeNone, HeaderName = ''X-User-ID'', WebhookURL = [], WebhookSecret = [],
         WebhookTimeout = 3 * second, WebhookCacheTTL = 60 * second\<rparr>,
      c_Webhooks = \<lparr>WhSecret = [], WhTimeout = 5 * second, MaxRetries = 3, Events = []\<rparr>,
      c_Conflict = \<lparr>ResolverURL = [], ResolverSecret = [], ResolverTimeout = 5 * second\<rparr>,
      c_Cluster = \<lparr>ClusterMode = False, ClusterBackend = ''redis'', RedisURL = []\<rparr>,
      c_Limits =
        \<lparr>MaxConnections = 10000, MaxMessageSizeBytes = 1048576, PingInterval = 30 * second,
         PongTimeout = 10 * second, WriteTimeout = 10 * second, ReadTimeout = 0\<rparr>,
      c_CORS = \<lparr>AllowedOrigins = [''*'']\<rparr>,
      c_Management = \<lparr>MgmtEnabled = True, MgmtKey = []\<rparr>,
      c_Log = \<lparr>LogLevel = ''info'', LogFormat = ''json''\<rparr>\<rparr>"

section \<open>The environment\<close>

text \<open>
  The environment is the list \<^verbatim>\<open>os.Environ\<close> returns, entries \<^verbatim>\<open>KEY=value\<close>;
  \<^verbatim>\<open>os.LookupEnv\<close> finds the first entry of a key.
\<close>

type_synonym environ = "string list"

fun LookupEnv :: "environ \<Rightarrow> string \<Rightarrow> string option" where
  "LookupEnv [] key = None"
| "LookupEnv (kv # kvs) key =
     (case IndexByte kv (CHR ''='') of
        None \<Rightarrow> LookupEnv kvs key
      | Some eq \<Rightarrow> if take eq kv = key then Some (drop (eq + 1) kv) else LookupEnv kvs key)"

text \<open>Each helper returns the new value and the errors it adds.\<close>

definition envStr :: "environ \<Rightarrow> string \<Rightarrow> string \<Rightarrow> string" where
  "envStr env key dst = (case LookupEnv env key of None \<Rightarrow> dst | Some v \<Rightarrow> v)"

definition env_parsed ::
  "(string \<Rightarrow> 'a option) \<Rightarrow> string \<Rightarrow> environ \<Rightarrow> string \<Rightarrow> 'a \<Rightarrow> 'a \<times> string list" where
  "env_parsed parse what env key dst =
     (case LookupEnv env key of
        None \<Rightarrow> (dst, [])
      | Some v \<Rightarrow>
          (case parse (TrimSpace v) of
             None \<Rightarrow> (dst, [key @ ''='' @ Quote v @ '' is not a valid '' @ what])
           | Some n \<Rightarrow> (n, [])))"

definition envInt :: "environ \<Rightarrow> string \<Rightarrow> int \<Rightarrow> int \<times> string list" where
  "envInt = env_parsed ParseInt ''integer''"

definition envInt64 :: "environ \<Rightarrow> string \<Rightarrow> int \<Rightarrow> int \<times> string list" where
  "envInt64 = env_parsed ParseInt ''integer''"

definition envBool :: "environ \<Rightarrow> string \<Rightarrow> bool \<Rightarrow> bool \<times> string list" where
  "envBool = env_parsed ParseBool ''boolean (true/false)''"

definition envDur :: "environ \<Rightarrow> string \<Rightarrow> int \<Rightarrow> int \<times> string list" where
  "envDur = env_parsed ParseDuration ''duration (e.g. 3s, 500ms)''"

definition envMode :: "environ \<Rightarrow> string \<Rightarrow> string \<Rightarrow> string" where
  "envMode env key dst = (case LookupEnv env key of None \<Rightarrow> dst | Some v \<Rightarrow> ToLower (TrimSpace v))"

definition splitCSV :: "string \<Rightarrow> string list" where
  "splitCSV v = filter (\<lambda>t. t \<noteq> []) (map TrimSpace (split_on (CHR '','') v))"

text \<open>The overlay, one function for each section of the record.\<close>

definition env_server :: "environ \<Rightarrow> ServerConfig \<Rightarrow> ServerConfig \<times> string list" where
  "env_server env c =
     (let (port, e) = envInt env ''PORT'' (Port c) in
      (c\<lparr>Host := envStr env ''HOST'' (Host c), Port := port\<rparr>, e))"

definition env_tls :: "environ \<Rightarrow> TLSConfig \<Rightarrow> TLSConfig \<times> string list" where
  "env_tls env c =
     (let (enabled, e) = envBool env ''TLS_ENABLED'' (TLSEnabled c) in
      (\<lparr>TLSEnabled = enabled, CertFile = envStr env ''TLS_CERT_FILE'' (CertFile c),
        KeyFile = envStr env ''TLS_KEY_FILE'' (KeyFile c)\<rparr>, e))"

definition env_storage :: "environ \<Rightarrow> StorageConfig \<Rightarrow> StorageConfig \<times> string list" where
  "env_storage env c =
     (let (snap, e1) = envInt env ''STORAGE_SNAPSHOT_INTERVAL'' (SnapshotInterval c);
          (pgmax, e2) = envInt env ''STORAGE_POSTGRES_MAX_CONNS'' (PostgresMaxConns c);
          (mymax, e3) = envInt env ''STORAGE_MYSQL_MAX_CONNS'' (MySQLMaxConns c)
      in (c\<lparr>Backend := envMode env ''STORAGE_BACKEND'' (Backend c),
            DataDir := envStr env ''DATA_DIR'' (DataDir c),
            URL := envStr env ''STORAGE_URL'' (URL c),
            SnapshotInterval := snap, PostgresMaxConns := pgmax,
            PostgresSSLMode := envStr env ''STORAGE_POSTGRES_SSL_MODE'' (PostgresSSLMode c),
            MySQLMaxConns := mymax\<rparr>, e1 @ e2 @ e3))"

definition env_auth :: "environ \<Rightarrow> AuthConfig \<Rightarrow> AuthConfig \<times> string list" where
  "env_auth env c =
     (let (timeout, e1) = envDur env ''AUTH_WEBHOOK_TIMEOUT'' (WebhookTimeout c);
          (ttl, e2) = envDur env ''AUTH_WEBHOOK_CACHE_TTL'' (WebhookCacheTTL c)
      in (\<lparr>Mode = envMode env ''AUTH_MODE'' (Mode c),
            HeaderName = envStr env ''AUTH_HEADER_NAME'' (HeaderName c),
            WebhookURL = envStr env ''AUTH_WEBHOOK_URL'' (WebhookURL c),
            WebhookSecret = envStr env ''AUTH_WEBHOOK_SECRET'' (WebhookSecret c),
            WebhookTimeout = timeout, WebhookCacheTTL = ttl\<rparr>, e1 @ e2))"

definition env_webhooks :: "environ \<Rightarrow> WebhookConfig \<Rightarrow> WebhookConfig \<times> string list" where
  "env_webhooks env c =
     (let (timeout, e1) = envDur env ''WEBHOOK_TIMEOUT'' (WhTimeout c);
          (retries, e2) = envInt env ''WEBHOOK_MAX_RETRIES'' (MaxRetries c)
      in (c\<lparr>WhSecret := envStr env ''WEBHOOK_SECRET'' (WhSecret c), WhTimeout := timeout,
            MaxRetries := retries\<rparr>, e1 @ e2))"

text \<open>
  The loop over \<^verbatim>\<open>os.Environ\<close>. The slice \<^verbatim>\<open>key[len(prefix) : len(key)-len(suffix)]\<close> panics
  when its bounds cross.
\<close>

definition webhook_event :: "string \<Rightarrow> (string \<times> string) option res" where
  "webhook_event kv =
     (case IndexByte kv (CHR ''='') of
        None \<Rightarrow> Inr None
      | Some eq \<Rightarrow>
          (let key = take eq kv; val = drop (eq + 1) kv in
           if \<not> HasPrefix key ''WEBHOOK_'' \<or> \<not> HasSuffix key ''_URL'' then Inr None
           else if length key - 4 < 8 then Inl (Panic ''slice bounds out of range'')
           else
             (let name = take (length key - 12) (drop 8 key) in
              if name = ''SECRET'' \<or> name = ''TIMEOUT'' \<or> name = ''MAX_RETRIES'' then Inr None
              else if name = [] then Inr None
              else Inr (Some (ToLower name, val)))))"

fun applyWebhookEventEnv :: "environ \<Rightarrow> (string \<times> string) list \<Rightarrow> (string \<times> string) list res" where
  "applyWebhookEventEnv [] events = Inr events"
| "applyWebhookEventEnv (kv # kvs) events =
     (case webhook_event kv of
        Inl p \<Rightarrow> Inl p
      | Inr None \<Rightarrow> applyWebhookEventEnv kvs events
      | Inr (Some (name, val)) \<Rightarrow> applyWebhookEventEnv kvs (map_put name val events))"

definition env_conflict :: "environ \<Rightarrow> ConflictConfig \<Rightarrow> ConflictConfig \<times> string list" where
  "env_conflict env c =
     (let (timeout, e) = envDur env ''CONFLICT_RESOLVER_TIMEOUT'' (ResolverTimeout c) in
      (\<lparr>ResolverURL = envStr env ''CONFLICT_RESOLVER_URL'' (ResolverURL c),
        ResolverSecret = envStr env ''CONFLICT_RESOLVER_SECRET'' (ResolverSecret c),
        ResolverTimeout = timeout\<rparr>, e))"

definition env_cluster :: "environ \<Rightarrow> ClusterConfig \<Rightarrow> ClusterConfig \<times> string list" where
  "env_cluster env c =
     (let (mode, e) = envBool env ''CLUSTER_MODE'' (ClusterMode c) in
      (\<lparr>ClusterMode = mode, ClusterBackend = envStr env ''CLUSTER_BACKEND'' (ClusterBackend c),
        RedisURL = envStr env ''CLUSTER_REDIS_URL'' (RedisURL c)\<rparr>, e))"

definition env_limits :: "environ \<Rightarrow> LimitsConfig \<Rightarrow> LimitsConfig \<times> string list" where
  "env_limits env c =
     (let (conns, e1) = envInt env ''MAX_CONNECTIONS'' (MaxConnections c);
          (size, e2) = envInt64 env ''MAX_MESSAGE_SIZE_BYTES'' (MaxMessageSizeBytes c);
          (ping, e3) = envDur env ''PING_INTERVAL'' (PingInterval c);
          (pong, e4) = envDur env ''PONG_TIMEOUT'' (PongTimeout c);
          (write, e5) = envDur env ''WRITE_TIMEOUT'' (WriteTimeout c);
          (read, e6) = envDur env ''READ_TIMEOUT'' (ReadTimeout c)
      in (\<lparr>MaxConnections = conns, MaxMessageSizeBytes = size, PingInterval = ping, PongTimeout = pong,
           WriteTimeout = write, ReadTimeout = read\<rparr>, e1 @ e2 @ e3 @ e4 @ e5 @ e6))"

definition env_cors :: "environ \<Rightarrow> CORSConfig \<Rightarrow> CORSConfig" where
  "env_cors env c =
     (case LookupEnv env ''CORS_ALLOWED_ORIGINS'' of None \<Rightarrow> c | Some v \<Rightarrow> \<lparr>AllowedOrigins = splitCSV v\<rparr>)"

definition env_management :: "environ \<Rightarrow> ManagementConfig \<Rightarrow> ManagementConfig \<times> string list" where
  "env_management env c =
     (let (enabled, e) = envBool env ''MANAGEMENT_API_ENABLED'' (MgmtEnabled c) in
      (\<lparr>MgmtEnabled = enabled, MgmtKey = envStr env ''MANAGEMENT_API_KEY'' (MgmtKey c)\<rparr>, e))"

definition env_log :: "environ \<Rightarrow> LogConfig \<Rightarrow> LogConfig" where
  "env_log env c = \<lparr>LogLevel = envStr env ''LOG_LEVEL'' (LogLevel c), LogFormat = envStr env ''LOG_FORMAT'' (LogFormat c)\<rparr>"

definition applyEnv :: "environ \<Rightarrow> Config \<Rightarrow> Config res" where
  "applyEnv env cfg =
     (let (server, e1) = env_server env (c_Server cfg);
          (tls, e2) = env_tls env (c_TLS cfg);
          (storage, e3) = env_storage env (c_Storage cfg);
          (auth, e4) = env_auth env (c_Auth cfg);
          (webhooks, e5) = env_webhooks env (c_Webhooks cfg)
      in bindE (applyWebhookEventEnv env (Events webhooks)) (\<lambda>events.
         let (conflict, e6) = env_conflict env (c_Conflict cfg);
             (cluster, e7) = env_cluster env (c_Cluster cfg);
             (limits, e8) = env_limits env (c_Limits cfg);
             (management, e9) = env_management env (c_Management cfg);
             errs = e1 @ e2 @ e3 @ e4 @ e5 @ e6 @ e7 @ e8 @ e9
         in if 0 < length errs then Inl (Msg (''invalid environment configuration: '' @ Join errs ''; ''))
            else Inr \<lparr>c_Server = server, c_TLS = tls, c_Storage = storage, c_Auth = auth,
              c_Webhooks = webhooks\<lparr>Events := events\<rparr>, c_Conflict = conflict, c_Cluster = cluster, c_Limits = limits,
              c_CORS = env_cors env (c_CORS cfg), c_Management = management, c_Log = env_log env (c_Log cfg)\<rparr>))"

section \<open>Validation\<close>

definition Validate :: "Config \<Rightarrow> goerr option" where
  "Validate c =
     (if Port (c_Server c) < 1 \<or> 65535 < Port (c_Server c)
        then Some (Msg (''server port '' @ Itoa (Port (c_Server c)) @ '' out of range 1-65535''))
      else if TLSEnabled (c_TLS c) \<and> (TrimSpace (CertFile (c_TLS c)) = [] \<or> TrimSpace (KeyFile (c_TLS c)) = [])
        then Some (Msg ''tls enabled but cert_file/key_file not both set'')
      else if Backend (c_Storage c) = StorageSQLite \<and> TrimSpace (DataDir (c_Storage c)) = []
        then Some (Msg ''data_dir must not be empty for sqlite backend'')
      else if Backend (c_Storage c) \<in> {StoragePostgres, StorageMySQL} \<and> TrimSpace (URL (c_Storage c)) = []
        then Some (Msg (''storage url is required for '' @ Backend (c_Storage c) @ '' backend''))
      else if Backend (c_Storage c) \<notin> {StorageSQLite, StoragePostgres, StorageMySQL}
        then Some (Msg (''unsupported storage backend '' @ Quote (Backend (c_Storage c))))
      else if SnapshotInterval (c_Storage c) < 1
        then Some (Msg (''storage snapshot_interval must be >= 1, got '' @ Itoa (SnapshotInterval (c_Storage c))))
      else if Mode (c_Auth c) = AuthModeHeader \<and> TrimSpace (HeaderName (c_Auth c)) = []
        then Some (Msg ''auth header_name must not be empty in header mode'')
      else if Mode (c_Auth c) = AuthModeWebhook \<and> TrimSpace (WebhookURL (c_Auth c)) = []
        then Some (Msg ''auth webhook_url is required in webhook mode'')
      else if Mode (c_Auth c) \<notin> {AuthModeNone, AuthModeHeader, AuthModeWebhook}
        then Some (Msg (''unsupported auth mode '' @ Quote (Mode (c_Auth c))))
      else if MaxRetries (c_Webhooks c) < 0
        then Some (Msg (''webhook max_retries must be >= 0, got '' @ Itoa (MaxRetries (c_Webhooks c))))
      else if ClusterMode (c_Cluster c) \<and> Backend (c_Storage c) = StorageSQLite
        then Some (Msg ''cluster mode requires postgres or mysql storage; sqlite cannot be used in a cluster'')
      else if ClusterMode (c_Cluster c) \<and> ToLower (TrimSpace (ClusterBackend (c_Cluster c))) \<noteq> ''redis''
        then Some (Msg (''cluster backend '' @ Quote (ClusterBackend (c_Cluster c)) @ '' unsupported; only redis is supported''))
      else if ClusterMode (c_Cluster c) \<and> TrimSpace (RedisURL (c_Cluster c)) = []
        then Some (Msg ''cluster mode requires cluster redis_url (CLUSTER_REDIS_URL)'')
      else if MaxConnections (c_Limits c) < 1
        then Some (Msg (''max_connections must be >= 1, got '' @ Itoa (MaxConnections (c_Limits c))))
      else if MaxMessageSizeBytes (c_Limits c) < 1
        then Some (Msg (''max_message_size_bytes must be >= 1, got '' @ Itoa (MaxMessageSizeBytes (c_Limits c))))
      else if ToLower (LogLevel (c_Log c)) \<notin> {''debug'', ''info'', ''warn'', ''error''}
        then Some (Msg (''unsupported log level '' @ Quote (LogLevel (c_Log c))))
      else if ToLower (LogFormat (c_Log c)) \<notin> {''json'', ''text''}
        then Some (Msg (''unsupported log format '' @ Quote (LogFormat (c_Log c))))
      else None)"

definition Addr :: "Config \<Rightarrow> string" where
  "Addr c = Host (c_Server c) @ '':'' @ Itoa (Port (c_Server c))"

section \<open>Load\<close>

datatype read_result = NotExist | ReadFails goerr | Contents string

text \<open>What a process sees: its environment and the files it can read.\<close>

record system =
  sys_environ :: environ
  sys_stat :: "string \<Rightarrow> bool"
  sys_read :: "string \<Rightarrow> read_result"

definition findDefaultConfigFile :: "system \<Rightarrow> string" where
  "findDefaultConfigFile sys =
     (case filter (sys_stat sys) defaultConfigPaths of [] \<Rightarrow> [] | p # _ \<Rightarrow> p)"

text \<open>The configuration after the file: the defaults with the file's values over them.\<close>

definition load_file :: "(string \<Rightarrow> Config \<Rightarrow> Config res) \<Rightarrow> system \<Rightarrow> string \<Rightarrow> Config res" where
  "load_file yaml sys path0 =
     (let explicit = (path0 \<noteq> []);
          path = (if path0 = [] then findDefaultConfigFile sys else path0)
      in if path = [] then Inr Default
         else case sys_read sys path of
             NotExist \<Rightarrow>
               if \<not> explicit then Inr Default
               else Inl (Wrap (''read config file '' @ Quote path @ '': '') (Msg ''no such file or directory'') [])
           | ReadFails err \<Rightarrow> Inl (Wrap (''read config file '' @ Quote path @ '': '') err [])
           | Contents d \<Rightarrow>
               if TrimSpace d = [] then Inr Default
               else (case yaml d Default of
                       Inl err \<Rightarrow> Inl (Wrap (''parse config file '' @ Quote path @ '': '') err [])
                     | Inr cfg \<Rightarrow> Inr cfg))"

definition Load :: "(string \<Rightarrow> Config \<Rightarrow> Config res) \<Rightarrow> system \<Rightarrow> string \<Rightarrow> Config res" where
  "Load yaml sys path =
     bindE (load_file yaml sys path) (\<lambda>base.
     bindE (applyEnv (sys_environ sys) base) (\<lambda>cfg.
     case Validate cfg of Some err \<Rightarrow> Inl err | None \<Rightarrow> Inr cfg))"

section \<open>Where a setting comes from\<close>

text \<open>
  The documented table of the environment variables: how the text of each is read and
  which setting it gives.
\<close>

datatype setting = VStr string | VInt int | VBool bool | VList "string list"

definition v_str :: "string \<Rightarrow> setting option" where "v_str v = Some (VStr v)"
definition v_low :: "string \<Rightarrow> setting option" where "v_low v = Some (VStr (ToLower (TrimSpace v)))"
definition v_int :: "string \<Rightarrow> setting option" where "v_int v = map_option VInt (ParseInt (TrimSpace v))"
definition v_bool :: "string \<Rightarrow> setting option" where "v_bool v = map_option VBool (ParseBool (TrimSpace v))"
definition v_dur :: "string \<Rightarrow> setting option" where "v_dur v = map_option VInt (ParseDuration (TrimSpace v))"
definition v_csv :: "string \<Rightarrow> setting option" where "v_csv v = Some (VList (splitCSV v))"

lemmas v_defs = v_str_def v_low_def v_int_def v_bool_def v_dur_def v_csv_def

definition settings :: "(string \<times> (string \<Rightarrow> setting option) \<times> (Config \<Rightarrow> setting)) list" where
  "settings =
     [(''HOST'', v_str, VStr \<circ> Host \<circ> c_Server),
      (''PORT'', v_int, VInt \<circ> Port \<circ> c_Server),
      (''TLS_ENABLED'', v_bool, VBool \<circ> TLSEnabled \<circ> c_TLS),
      (''TLS_CERT_FILE'', v_str, VStr \<circ> CertFile \<circ> c_TLS),
      (''TLS_KEY_FILE'', v_str, VStr \<circ> KeyFile \<circ> c_TLS),
      (''STORAGE_BACKEND'', v_low, VStr \<circ> Backend \<circ> c_Storage),
      (''DATA_DIR'', v_str, VStr \<circ> DataDir \<circ> c_Storage),
      (''STORAGE_URL'', v_str, VStr \<circ> URL \<circ> c_Storage),
      (''STORAGE_SNAPSHOT_INTERVAL'', v_int, VInt \<circ> SnapshotInterval \<circ> c_Storage),
      (''STORAGE_POSTGRES_MAX_CONNS'', v_int, VInt \<circ> PostgresMaxConns \<circ> c_Storage),
      (''STORAGE_POSTGRES_SSL_MODE'', v_str, VStr \<circ> PostgresSSLMode \<circ> c_Storage),
      (''STORAGE_MYSQL_MAX_CONNS'', v_int, VInt \<circ> MySQLMaxConns \<circ> c_Storage),
      (''AUTH_MODE'', v_low, VStr \<circ> Mode \<circ> c_Auth),
      (''AUTH_HEADER_NAME'', v_str, VStr \<circ> HeaderName \<circ> c_Auth),
      (''AUTH_WEBHOOK_URL'', v_str, VStr \<circ> WebhookURL \<circ> c_Auth),
      (''AUTH_WEBHOOK_SECRET'', v_str, VStr \<circ> WebhookSecret \<circ> c_Auth),
      (''AUTH_WEBHOOK_TIMEOUT'', v_dur, VInt \<circ> WebhookTimeout \<circ> c_Auth),
      (''AUTH_WEBHOOK_CACHE_TTL'', v_dur, VInt \<circ> WebhookCacheTTL \<circ> c_Auth),
      (''WEBHOOK_SECRET'', v_str, VStr \<circ> WhSecret \<circ> c_Webhooks),
      (''WEBHOOK_TIMEOUT'', v_dur, VInt \<circ> WhTimeout \<circ> c_Webhooks),
      (''WEBHOOK_MAX_RETRIES'', v_int, VInt \<circ> MaxRetries \<circ> c_Webhooks),
      (''CONFLICT_RESOLVER_URL'', v_str, VStr \<circ> ResolverURL \<circ> c_Conflict),
      (''CONFLICT_RESOLVER_SECRET'', v_str, VStr \<circ> ResolverSecret \<circ> c_Conflict),
      (''CONFLICT_RESOLVER_TIMEOUT'', v_dur, VInt \<circ> ResolverTimeout \<circ> c_Conflict),
      (''CLUSTER_MODE'', v_bool, VBool \<circ> ClusterMode \<circ> c_Cluster),
      (''CLUSTER_BACKEND'', v_str, VStr \<circ> ClusterBackend \<circ> c_Cluster),
      (''CLUSTER_REDIS_URL'', v_str, VStr \<circ> RedisURL \<circ> c_Cluster),
      (''MAX_CONNECTIONS'', v_int, VInt \<circ> MaxConnections \<circ> c_Limits),
      (''MAX_MESSAGE_SIZE_BYTES'', v_int, VInt \<circ> MaxMessageSizeBytes \<circ> c_Limits),
      (''PING_INTERVAL'', v_dur, VInt \<circ> PingInterval \<circ> c_Limits),
      (''PONG_TIMEOUT'', v_dur, VInt \<circ> PongTimeout \<circ> c_Limits),
      (''WRITE_TIMEOUT'', v_dur, VInt \<circ> WriteTimeout \<circ> c_Limits),
      (''READ_TIMEOUT'', v_dur, VInt \<circ> ReadTimeout \<circ> c_Limits),
      (''CORS_ALLOWED_ORIGINS'', v_csv, VList \<circ> AllowedOrigins \<circ> c_CORS),
      (''MANAGEMENT_API_ENABLED'', v_bool, VBool \<circ> MgmtEnabled \<circ> c_Management),
      (''MANAGEMENT_API_KEY'', v_str, VStr \<circ> MgmtKey \<circ> c_Management),
      (''LOG_LEVEL'', v_str, VStr \<circ> LogLevel \<circ> c_Log),
      (''LOG_FORMAT'', v_str, VStr \<circ> LogFormat \<circ> c_Log)]"

definition comes_from :: "environ \<Rightarrow> string \<Rightarrow> (string \<Rightarrow> setting option) \<Rightarrow> setting \<Rightarrow> setting \<Rightarrow> bool" where
  "comes_from env k parse old new \<longleftrightarrow>
     (case LookupEnv env k of None \<Rightarrow> new = old | Some v \<Rightarrow> parse v = Some new)"

named_theorems from_env \<open>a parsed setting takes the variable when it is set and the old value otherwise\<close>

lemma envStr_from [simp]: "comes_from env k v_str (VStr old) (VStr (envStr env k old))"
  by (simp add: comes_from_def envStr_def v_defs split: option.splits)

lemma envMode_from [simp]: "comes_from env k v_low (VStr old) (VStr (envMode env k old))"
  by (simp add: comes_from_def envMode_def v_defs split: option.splits)

lemma env_parsed_from:
  "env_parsed parse w env k old = (new, []) \<Longrightarrow> comes_from env k (\<lambda>v. map_option C (parse (TrimSpace v))) (C old) (C new)"
  by (auto simp: comes_from_def env_parsed_def split: option.splits)

lemma envInt_from [from_env]: "envInt env k old = (new, []) \<Longrightarrow> comes_from env k v_int (VInt old) (VInt new)"
  unfolding envInt_def by (drule env_parsed_from [where C = VInt]) (simp add: v_int_def [abs_def])

lemma envInt64_from [from_env]: "envInt64 env k old = (new, []) \<Longrightarrow> comes_from env k v_int (VInt old) (VInt new)"
  unfolding envInt64_def by (drule env_parsed_from [where C = VInt]) (simp add: v_int_def [abs_def])

lemma envBool_from [from_env]: "envBool env k old = (new, []) \<Longrightarrow> comes_from env k v_bool (VBool old) (VBool new)"
  unfolding envBool_def by (drule env_parsed_from [where C = VBool]) (simp add: v_bool_def [abs_def])

lemma envDur_from [from_env]: "envDur env k old = (new, []) \<Longrightarrow> comes_from env k v_dur (VInt old) (VInt new)"
  unfolding envDur_def by (drule env_parsed_from [where C = VInt]) (simp add: v_dur_def [abs_def])

lemma applyEnv_Inr:
  assumes "applyEnv env base = Inr cfg"
  shows "env_server env (c_Server base) = (c_Server cfg, [])"
    and "env_tls env (c_TLS base) = (c_TLS cfg, [])"
    and "env_storage env (c_Storage base) = (c_Storage cfg, [])"
    and "env_auth env (c_Auth base) = (c_Auth cfg, [])"
    and "\<exists>w. env_webhooks env (c_Webhooks base) = (w, []) \<and> applyWebhookEventEnv env (Events w) = Inr (Events (c_Webhooks cfg))
           \<and> c_Webhooks cfg = w\<lparr>Events := Events (c_Webhooks cfg)\<rparr>"
    and "env_conflict env (c_Conflict base) = (c_Conflict cfg, [])"
    and "env_cluster env (c_Cluster base) = (c_Cluster cfg, [])"
    and "env_limits env (c_Limits base) = (c_Limits cfg, [])"
    and "env_management env (c_Management base) = (c_Management cfg, [])"
    and "c_CORS cfg = env_cors env (c_CORS base)"
    and "c_Log cfg = env_log env (c_Log base)"
  using assms
  by (auto simp: applyEnv_def Let_def bindE_Inr_iff case_prod_beta prod_eq_iff split: if_splits)

lemmas section_defs = env_server_def env_tls_def env_storage_def env_auth_def env_webhooks_def env_conflict_def
  env_cluster_def env_limits_def env_management_def

text \<open>Each section: every variable of it in turn.\<close>

lemma from_server:
  assumes "env_server env c = (c', [])"
  shows "comes_from env ''HOST'' v_str (VStr (Host c)) (VStr (Host c'))"
    and "comes_from env ''PORT'' v_int (VInt (Port c)) (VInt (Port c'))"
  using assms by (auto simp: section_defs dest: from_env split: prod.splits)

lemma from_tls:
  assumes "env_tls env c = (c', [])"
  shows "comes_from env ''TLS_ENABLED'' v_bool (VBool (TLSEnabled c)) (VBool (TLSEnabled c'))"
    and "comes_from env ''TLS_CERT_FILE'' v_str (VStr (CertFile c)) (VStr (CertFile c'))"
    and "comes_from env ''TLS_KEY_FILE'' v_str (VStr (KeyFile c)) (VStr (KeyFile c'))"
  using assms by (auto simp: section_defs dest: from_env split: prod.splits)

lemma from_storage:
  assumes "env_storage env c = (c', [])"
  shows "comes_from env ''STORAGE_BACKEND'' v_low (VStr (Backend c)) (VStr (Backend c'))"
    and "comes_from env ''DATA_DIR'' v_str (VStr (DataDir c)) (VStr (DataDir c'))"
    and "comes_from env ''STORAGE_URL'' v_str (VStr (URL c)) (VStr (URL c'))"
    and "comes_from env ''STORAGE_SNAPSHOT_INTERVAL'' v_int (VInt (SnapshotInterval c)) (VInt (SnapshotInterval c'))"
    and "comes_from env ''STORAGE_POSTGRES_MAX_CONNS'' v_int (VInt (PostgresMaxConns c)) (VInt (PostgresMaxConns c'))"
    and "comes_from env ''STORAGE_POSTGRES_SSL_MODE'' v_str (VStr (PostgresSSLMode c)) (VStr (PostgresSSLMode c'))"
    and "comes_from env ''STORAGE_MYSQL_MAX_CONNS'' v_int (VInt (MySQLMaxConns c)) (VInt (MySQLMaxConns c'))"
  using assms by (auto simp: section_defs dest: from_env split: prod.splits)

lemma from_auth:
  assumes "env_auth env c = (c', [])"
  shows "comes_from env ''AUTH_MODE'' v_low (VStr (Mode c)) (VStr (Mode c'))"
    and "comes_from env ''AUTH_HEADER_NAME'' v_str (VStr (HeaderName c)) (VStr (HeaderName c'))"
    and "comes_from env ''AUTH_WEBHOOK_URL'' v_str (VStr (WebhookURL c)) (VStr (WebhookURL c'))"
    and "comes_from env ''AUTH_WEBHOOK_SECRET'' v_str (VStr (WebhookSecret c)) (VStr (WebhookSecret c'))"
    and "comes_from env ''AUTH_WEBHOOK_TIMEOUT'' v_dur (VInt (WebhookTimeout c)) (VInt (WebhookTimeout c'))"
    and "comes_from env ''AUTH_WEBHOOK_CACHE_TTL'' v_dur (VInt (WebhookCacheTTL c)) (VInt (WebhookCacheTTL c'))"
  using assms by (auto simp: section_defs dest: from_env split: prod.splits)

lemma from_webhooks:
  assumes "env_webhooks env c = (c', [])"
  shows "comes_from env ''WEBHOOK_SECRET'' v_str (VStr (WhSecret c)) (VStr (WhSecret c'))"
    and "comes_from env ''WEBHOOK_TIMEOUT'' v_dur (VInt (WhTimeout c)) (VInt (WhTimeout c'))"
    and "comes_from env ''WEBHOOK_MAX_RETRIES'' v_int (VInt (MaxRetries c)) (VInt (MaxRetries c'))"
  using assms by (auto simp: section_defs dest: from_env split: prod.splits)

lemma from_conflict:
  assumes "env_conflict env c = (c', [])"
  shows "comes_from env ''CONFLICT_RESOLVER_URL'' v_str (VStr (ResolverURL c)) (VStr (ResolverURL c'))"
    and "comes_from env ''CONFLICT_RESOLVER_SECRET'' v_str (VStr (ResolverSecret c)) (VStr (ResolverSecret c'))"
    and "comes_from env ''CONFLICT_RESOLVER_TIMEOUT'' v_dur (VInt (ResolverTimeout c)) (VInt (ResolverTimeout c'))"
  using assms by (auto simp: section_defs dest: from_env split: prod.splits)

lemma from_cluster:
  assumes "env_cluster env c = (c', [])"
  shows "comes_from env ''CLUSTER_MODE'' v_bool (VBool (ClusterMode c)) (VBool (ClusterMode c'))"
    and "comes_from env ''CLUSTER_BACKEND'' v_str (VStr (ClusterBackend c)) (VStr (ClusterBackend c'))"
    and "comes_from env ''CLUSTER_REDIS_URL'' v_str (VStr (RedisURL c)) (VStr (RedisURL c'))"
  using assms by (auto simp: section_defs dest: from_env split: prod.splits)

lemma from_limits:
  assumes "env_limits env c = (c', [])"
  shows "comes_from env ''MAX_CONNECTIONS'' v_int (VInt (MaxConnections c)) (VInt (MaxConnections c'))"
    and "comes_from env ''MAX_MESSAGE_SIZE_BYTES'' v_int (VInt (MaxMessageSizeBytes c)) (VInt (MaxMessageSizeBytes c'))"
    and "comes_from env ''PING_INTERVAL'' v_dur (VInt (PingInterval c)) (VInt (PingInterval c'))"
    and "comes_from env ''PONG_TIMEOUT'' v_dur (VInt (PongTimeout c)) (VInt (PongTimeout c'))"
    and "comes_from env ''WRITE_TIMEOUT'' v_dur (VInt (WriteTimeout c)) (VInt (WriteTimeout c'))"
    and "comes_from env ''READ_TIMEOUT'' v_dur (VInt (ReadTimeout c)) (VInt (ReadTimeout c'))"
  using assms by (auto simp: section_defs dest: from_env split: prod.splits)

lemma from_management:
  assumes "env_management env c = (c', [])"
  shows "comes_from env ''MANAGEMENT_API_ENABLED'' v_bool (VBool (MgmtEnabled c)) (VBool (MgmtEnabled c'))"
    and "comes_from env ''MANAGEMENT_API_KEY'' v_str (VStr (MgmtKey c)) (VStr (MgmtKey c'))"
  using assms by (auto simp: section_defs dest: from_env split: prod.splits)

lemma from_cors: "comes_from env ''CORS_ALLOWED_ORIGINS'' v_csv (VList (AllowedOrigins c)) (VList (AllowedOrigins (env_cors env c)))"
  by (simp add: env_cors_def comes_from_def v_csv_def split: option.splits)

lemma settings_from:
  assumes "applyEnv env base = Inr cfg"
  shows "list_all (\<lambda>(k, parse, get). comes_from env k parse (get base) (get cfg)) settings"
proof -
  note s = applyEnv_Inr [OF assms]
  obtain w where w: "env_webhooks env (c_Webhooks base) = (w, [])" "c_Webhooks cfg = w\<lparr>Events := Events (c_Webhooks cfg)\<rparr>"
    using s(5) by blast
  have wh: "WhSecret (c_Webhooks cfg) = WhSecret w" "WhTimeout (c_Webhooks cfg) = WhTimeout w"
    "MaxRetries (c_Webhooks cfg) = MaxRetries w"
    by (subst w(2), simp)+
  show ?thesis
    by (simp add: settings_def from_server [OF s(1)] from_tls [OF s(2)] from_storage [OF s(3)] from_auth [OF s(4)]
        from_webhooks [OF w(1)] wh from_conflict [OF s(6)] from_cluster [OF s(7)] from_limits [OF s(8)]
        from_management [OF s(9)] s(10,11) from_cors env_log_def)
qed

section \<open>The webhook variables\<close>

definition event_vars :: "environ \<Rightarrow> (string \<times> string) list" where
  "event_vars env = concat (map (\<lambda>kv. case webhook_event kv of Inr (Some x) \<Rightarrow> [x] | _ \<Rightarrow> []) env)"

lemma applyWebhookEventEnv_Inr:
  "applyWebhookEventEnv env events = Inr events' \<Longrightarrow>
     map_of events' = map_of events ++ map_of (rev (event_vars env))"
proof (induction env arbitrary: events)
  case (Cons kv env)
  then show ?case
    by (auto simp: event_vars_def map_add_upd_left map_add_def fun_eq_iff split: sum.splits option.splits prod.splits)
qed (simp add: event_vars_def)

lemma overlap:
  assumes "HasPrefix key ''WEBHOOK_''" "HasSuffix key ''_URL''" "length key - 4 < 8"
  shows "key = ''WEBHOOK_URL''"
proof -
  obtain r where key: "key = ''WEBHOOK_'' @ r"
    using assms(1) unfolding HasPrefix_def by (metis append_take_drop_id)
  then have "length r < 4" using assms(3) by simp
  then have "length r \<in> {0, 1, 2, 3}" by (simp only: insert_iff empty_iff) linarith
  then show ?thesis
    using assms(2) key by (auto simp: HasSuffix_def length_Suc_conv numeral_3_eq_3 numeral_2_eq_2)
qed

lemma IndexByte_take: "IndexByte s c = Some i \<Longrightarrow> s = take i s @ c # drop (i + 1) s \<and> c \<notin> set (take i s)"
  by (induction s arbitrary: i) (auto split: if_splits)

lemma IndexByte_append: "c \<notin> set s \<Longrightarrow> IndexByte (s @ c # t) c = Some (length s)"
  by (induction s) auto

lemma webhook_event_panics: "webhook_event kv = Inl p \<longleftrightarrow> HasPrefix kv ''WEBHOOK_URL='' \<and> p = Panic ''slice bounds out of range''"
proof
  assume a: "webhook_event kv = Inl p"
  then obtain eq where eq: "IndexByte kv (CHR ''='') = Some eq"
    by (auto simp: webhook_event_def split: option.splits)
  with a have "HasPrefix (take eq kv) ''WEBHOOK_''" "HasSuffix (take eq kv) ''_URL''" "length (take eq kv) - 4 < 8"
    and p: "p = Panic ''slice bounds out of range''"
    by (auto simp: webhook_event_def Let_def split: if_splits)
  then have "take eq kv = ''WEBHOOK_URL''" by (intro overlap)
  with IndexByte_take [OF eq] have "kv = ''WEBHOOK_URL='' @ drop (eq + 1) kv" by simp
  then show "HasPrefix kv ''WEBHOOK_URL='' \<and> p = Panic ''slice bounds out of range''"
    using p by (metis HasPrefix_def append_eq_conv_conj)
next
  assume a: "HasPrefix kv ''WEBHOOK_URL='' \<and> p = Panic ''slice bounds out of range''"
  then obtain v where kv: "kv = ''WEBHOOK_URL'' @ CHR ''='' # v"
    unfolding HasPrefix_def by (metis append_take_drop_id append.assoc append_Cons append_Nil)
  have "IndexByte kv (CHR ''='') = Some 11"
    unfolding kv by (subst IndexByte_append) simp_all
  with a kv show "webhook_event kv = Inl p"
    by (simp add: webhook_event_def HasPrefix_def HasSuffix_def)
qed

lemma applyWebhookEventEnv_panics:
  "applyWebhookEventEnv env events = Inl p \<longleftrightarrow>
     (\<exists>kv \<in> set env. HasPrefix kv ''WEBHOOK_URL='') \<and> p = Panic ''slice bounds out of range''"
proof (induction env arbitrary: events)
  case (Cons kv env)
  show ?case
  proof (cases "webhook_event kv")
    case (Inl q)
    then show ?thesis using webhook_event_panics [of kv q] by auto
  next
    case (Inr r)
    then have "\<not> HasPrefix kv ''WEBHOOK_URL=''" using webhook_event_panics [of kv] by auto
    with Inr Cons.IH show ?thesis by (cases r) auto
  qed
qed simp

section \<open>Properties\<close>

definition quiet_system :: "environ \<Rightarrow> system" where
  "quiet_system env = \<lparr>sys_environ = env, sys_stat = \<lambda>_. False, sys_read = \<lambda>_. NotExist\<rparr>"

lemma Default_valid: "Validate Default = None"
  by code_simp

text \<open>
  C21: Where the settings of a running instance come from. When \<^verbatim>\<open>Load\<close> succeeds, each of the 38
  documented settings has the value of its environment variable, read as its type, when
  the variable is set, and otherwise the value of the configuration file or, without
  one, the default. The webhook URLs of the events are those of the file overridden by
  the \<^verbatim>\<open>WEBHOOK_<EVENT>_URL\<close> variables, the last one winning; and the result passes the
  validation.
\<close>

theorem load_precedence:
  assumes "Load yaml sys path = Inr cfg"
  shows "\<exists>base. load_file yaml sys path = Inr base \<and> Validate cfg = None
     \<and> list_all (\<lambda>(k, parse, get). case LookupEnv (sys_environ sys) k of
          None \<Rightarrow> get cfg = get base | Some v \<Rightarrow> parse v = Some (get cfg)) settings
     \<and> map_of (Events (c_Webhooks cfg)) =
          map_of (Events (c_Webhooks base)) ++ map_of (rev (event_vars (sys_environ sys)))"
proof -
  from assms obtain base where b: "load_file yaml sys path = Inr base" "applyEnv (sys_environ sys) base = Inr cfg"
    "Validate cfg = None"
    by (auto simp: Load_def bindE_Inr_iff split: option.splits)
  from applyEnv_Inr(5) [OF b(2)] have "map_of (Events (c_Webhooks cfg)) =
      map_of (Events (c_Webhooks base)) ++ map_of (rev (event_vars (sys_environ sys)))"
    by (auto simp: env_webhooks_def case_prod_beta Let_def dest!: applyWebhookEventEnv_Inr)
  with b settings_from [OF b(2)] show ?thesis
    unfolding comes_from_def by blast
qed

theorem load_precedence_witness:
  "\<exists>cfg. Load (\<lambda>_ _. Inl JsonErr) (quiet_system [''PORT= 9000'', ''WEBHOOK_ON_X_URL=u'']) [] = Inr cfg
     \<and> Port (c_Server cfg) = 9000 \<and> Host (c_Server cfg) = ''0.0.0.0'' \<and> map_of (Events (c_Webhooks cfg)) ''on_x'' = Some ''u''"
proof -
  let ?sys = "quiet_system [''PORT= 9000'', ''WEBHOOK_ON_X_URL=u'']"
  have "\<not> isl (Load (\<lambda>_ _. Inl JsonErr) ?sys [])" by code_simp
  then obtain cfg where cfg: "Load (\<lambda>_ _. Inl JsonErr) ?sys [] = Inr cfg"
    by (cases "Load (\<lambda>_ _. Inl JsonErr) ?sys []") auto
  have b: "load_file (\<lambda>_ _. Inl JsonErr) ?sys [] = Inr Default"
    by (simp add: load_file_def findDefaultConfigFile_def quiet_system_def)
  have e: "LookupEnv (sys_environ ?sys) ''PORT'' = Some '' 9000''" "LookupEnv (sys_environ ?sys) ''HOST'' = None"
    "ParseInt (TrimSpace '' 9000'') = Some 9000" "event_vars (sys_environ ?sys) = [(''on_x'', ''u'')]"
    by code_simp+
  from load_precedence [OF cfg] b e show ?thesis
    by (intro exI [of _ cfg] conjI cfg) (auto simp: settings_def v_defs Default_def)
qed

text \<open>
  C32: A variable named \<^verbatim>\<open>WEBHOOK_URL\<close> crashes the start. The overlay of the environment panics
  exactly when the environment has an entry \<^verbatim>\<open>WEBHOOK_URL=...\<close>, whatever the rest of the
  configuration: the prefix \<^verbatim>\<open>WEBHOOK_\<close> and the suffix \<^verbatim>\<open>_URL\<close> overlap there and the slice
  between them has crossing bounds. Every other failure is an error value.
\<close>

theorem webhook_url_panics:
  "applyEnv env cfg = Inl (Panic msg) \<longleftrightarrow>
     (\<exists>kv \<in> set env. HasPrefix kv ''WEBHOOK_URL='') \<and> msg = ''slice bounds out of range''"
proof (cases "applyWebhookEventEnv env (Events (fst (env_webhooks env (c_Webhooks cfg))))")
  case (Inl p)
  then show ?thesis
    using applyWebhookEventEnv_panics [of env "Events (fst (env_webhooks env (c_Webhooks cfg)))" p]
    by (auto simp: applyEnv_def Let_def case_prod_beta)
next
  case (Inr ev)
  then show ?thesis
    using applyWebhookEventEnv_panics [of env "Events (fst (env_webhooks env (c_Webhooks cfg)))"]
    by (auto simp: applyEnv_def Let_def case_prod_beta split: if_splits)
qed

end
