(* ===== verification/Webhook.thy ===== *)
theory Webhook
  imports Json
begin

text \<open>
  \<^verbatim>\<open>internal/webhook\<close>: the signature of outbound requests (\<^verbatim>\<open>signer.go\<close>, HMAC-SHA256 in
  full) and the dispatcher of event webhooks with its retries (\<^verbatim>\<open>dispatcher.go\<close>). An
  HTTP exchange is a function from the request to what came back.
\<close>

unbundle bit_operations_syntax

section \<open>SHA-256 and HMAC (crypto/sha256, crypto/hmac)\<close>

type_synonym w32 = "32 word"

definition rotr :: "nat \<Rightarrow> w32 \<Rightarrow> w32" where
  "rotr n x = (drop_bit n x) OR (push_bit (32 - n) x)"

definition sha_Ch :: "w32 \<Rightarrow> w32 \<Rightarrow> w32 \<Rightarrow> w32" where
  "sha_Ch x y z = (x AND y) XOR (NOT x AND z)"

definition sha_Maj :: "w32 \<Rightarrow> w32 \<Rightarrow> w32 \<Rightarrow> w32" where
  "sha_Maj x y z = (x AND y) XOR (x AND z) XOR (y AND z)"

definition sha_S0 :: "w32 \<Rightarrow> w32" where "sha_S0 x = rotr 2 x XOR rotr 13 x XOR rotr 22 x"
definition sha_S1 :: "w32 \<Rightarrow> w32" where "sha_S1 x = rotr 6 x XOR rotr 11 x XOR rotr 25 x"
definition sha_s0 :: "w32 \<Rightarrow> w32" where "sha_s0 x = rotr 7 x XOR rotr 18 x XOR drop_bit 3 x"
definition sha_s1 :: "w32 \<Rightarrow> w32" where "sha_s1 x = rotr 17 x XOR rotr 19 x XOR drop_bit 10 x"

text \<open>
  The round constants and the initial state are the first 32 bits of the fractional parts
  of the cube roots of the first 64 primes and of the square roots of the first 8. A root
  is found bit by bit.
\<close>

fun root_bits :: "nat \<Rightarrow> nat \<Rightarrow> nat \<Rightarrow> nat \<Rightarrow> nat" where
  "root_bits e n 0 r = r"
| "root_bits e n (Suc b) r = root_bits e n b (if (r + 2 ^ b) ^ e \<le> n then r + 2 ^ b else r)"

definition small_primes :: "nat list" where
  "small_primes = filter (\<lambda>p. list_all (\<lambda>q. p mod q \<noteq> 0) [2..<p]) [2..<312]"

definition sha_K :: "w32 list" where
  "sha_K = map (\<lambda>p. of_nat (root_bits 3 (p * 2 ^ 96) 36 0)) small_primes"

definition sha_init :: "w32 list" where
  "sha_init = map (\<lambda>p. of_nat (root_bits 2 (p * 2 ^ 64) 36 0)) [2, 3, 5, 7, 11, 13, 17, 19]"

definition be_bytes :: "nat \<Rightarrow> nat \<Rightarrow> bytes" where
  "be_bytes k n = map (\<lambda>i. of_nat (n div 256 ^ (k - 1 - i))) [0..<k]"

definition be_word :: "bytes \<Rightarrow> w32" where
  "be_word bs = foldl (\<lambda>a b. a * 256 + ucast b) 0 bs"

definition sha_pad :: "bytes \<Rightarrow> bytes" where
  "sha_pad m = m @ [0x80] @ replicate ((119 - length m mod 64) mod 64) 0 @ be_bytes 8 (8 * length m)"

fun chunks :: "nat \<Rightarrow> 'a list \<Rightarrow> 'a list list" where
  "chunks n xs = (if n = 0 \<or> length xs < n then [] else take n xs # chunks n (drop n xs))"

declare chunks.simps [simp del]

text \<open>The message schedule, kept newest first while it grows.\<close>

fun sha_extend :: "nat \<Rightarrow> w32 list \<Rightarrow> w32 list" where
  "sha_extend 0 ws = ws"
| "sha_extend (Suc k) ws =
     sha_extend k ((sha_s1 (ws ! 1) + ws ! 6 + sha_s0 (ws ! 14) + ws ! 15) # ws)"

definition sha_schedule :: "bytes \<Rightarrow> w32 list" where
  "sha_schedule blk = rev (sha_extend 48 (rev (map be_word (chunks 4 blk))))"

fun sha_round :: "w32 list \<Rightarrow> w32 \<times> w32 \<Rightarrow> w32 list" where
  "sha_round [a, b, c, d, e, f, g, h] (k, w) =
     (let t1 = h + sha_S1 e + sha_Ch e f g + k + w;
          t2 = sha_S0 a + sha_Maj a b c
      in [t1 + t2, a, b, c, d + t1, e, f, g])"
| "sha_round s _ = s"

definition sha_block :: "w32 list \<Rightarrow> bytes \<Rightarrow> w32 list" where
  "sha_block st blk = map2 (+) st (foldl sha_round st (zip sha_K (sha_schedule blk)))"

definition sha256 :: "bytes \<Rightarrow> bytes" where
  "sha256 m = concat (map (\<lambda>w. be_bytes 4 (unat w)) (foldl sha_block sha_init (chunks 64 (sha_pad m))))"

definition hmac_sha256 :: "bytes \<Rightarrow> bytes \<Rightarrow> bytes" where
  "hmac_sha256 key m =
     (let k0 = (if 64 < length key then sha256 key else key);
          k = k0 @ replicate (64 - length k0) 0
      in sha256 (map (\<lambda>b. b XOR 0x5c) k @ sha256 (map (\<lambda>b. b XOR 0x36) k @ m)))"

section \<open>signer.go\<close>

definition Sign :: "string \<Rightarrow> bytes \<Rightarrow> string" where
  "Sign secret body = hex_EncodeToString (hmac_sha256 (bytes_of_string secret) body)"

definition Verify :: "string \<Rightarrow> bytes \<Rightarrow> string \<Rightarrow> bool" where
  "Verify secret body sig \<longleftrightarrow> Sign secret body = sig"

lemma sha_round_length: "length (sha_round s kw) = length s"
  by (cases "(s, kw)" rule: sha_round.cases) (simp_all add: Let_def)

lemma sha_rounds_length: "length (foldl sha_round s kws) = length s"
  by (induction kws arbitrary: s) (simp_all add: sha_round_length)

lemma sha_blocks_length: "length (foldl sha_block s blks) = length s"
  by (induction blks arbitrary: s) (simp_all add: sha_block_def sha_rounds_length)

lemma length_sha256: "length (sha256 m) = 32"
  by (simp add: sha256_def length_concat comp_def be_bytes_def sha_blocks_length sum_list_triv sha_init_def)

lemma length_Sign: "length (Sign secret body) = 64"
  by (simp add: Sign_def length_hex hmac_sha256_def Let_def length_sha256)

section \<open>Requests and what comes back\<close>

record http_request =
  req_URL :: string
  req_Headers :: "(string \<times> string) list"
  req_Body :: string

text \<open>No response (the request could not be built, sent or answered in time), or a status and a body.\<close>

datatype http_result = NoReply goerr | Response int string

section \<open>Times (package time)\<close>

text \<open>
  \<^verbatim>\<open>Format(time.RFC3339)\<close> of a UTC time, given in seconds since 1970: the civil date of
  the day number, by counting eras of 400 years from 0000-03-01.
\<close>

definition civil_from_days :: "int \<Rightarrow> int \<times> int \<times> int" where
  "civil_from_days z0 =
     (let z = z0 + 719468;
          era = z div 146097;
          doe = z mod 146097;
          yoe = (doe - doe div 1460 + doe div 36524 - doe div 146096) div 365;
          doy = doe - (365 * yoe + yoe div 4 - yoe div 100);
          mp = (5 * doy + 2) div 153;
          d = doy - (153 * mp + 2) div 5 + 1;
          m = (if mp < 10 then mp + 3 else mp - 9);
          y = yoe + era * 400 + (if m \<le> 2 then 1 else 0)
      in (y, m, d))"

definition pad0 :: "nat \<Rightarrow> int \<Rightarrow> string" where
  "pad0 n i = (let s = Itoa i in replicate (n - length s) CHR ''0'' @ s)"

definition RFC3339 :: "int \<Rightarrow> string" where
  "RFC3339 t =
     (case civil_from_days (t div 86400) of (y, m, d) \<Rightarrow>
        let s = t mod 86400 in
        pad0 4 y @ ''-'' @ pad0 2 m @ ''-'' @ pad0 2 d @ ''T'' @
        pad0 2 (s div 3600) @ '':'' @ pad0 2 (s div 60 mod 60) @ '':'' @ pad0 2 (s mod 60) @ ''Z'')"

section \<open>dispatcher.go\<close>

record Dispatcher =
  d_events :: "(string \<times> string) list"
  d_secret :: string
  d_maxRetries :: int
  d_metrics :: bool

text \<open>\<^verbatim>\<open>NewDispatcher\<close>: events without a URL are dropped.\<close>

definition NewDispatcher :: "(string \<times> string) list \<Rightarrow> string \<Rightarrow> int \<Rightarrow> bool \<Rightarrow> Dispatcher" where
  "NewDispatcher events secret retries metrics =
     \<lparr>d_events = filter (\<lambda>(k, v). v \<noteq> []) events, d_secret = secret, d_maxRetries = retries, d_metrics = metrics\<rparr>"

text \<open>What a delivery does, in order.\<close>

datatype delivery =
    CountCall string
  | Posted http_request
  | SleptFor int
  | WarnFailed
  | CountError string

text \<open>An assignment \<^verbatim>\<open>m[k] = v\<close> to a map.\<close>

definition map_set :: "'k \<Rightarrow> 'v \<Rightarrow> ('k \<times> 'v) list \<Rightarrow> ('k \<times> 'v) list" where
  "map_set k v m = (k, v) # filter (\<lambda>(k', _). k' \<noteq> k) m"

definition event_body :: "string \<Rightarrow> (string \<times> json) list \<Rightarrow> int \<Rightarrow> string" where
  "event_body event flds clock =
     show_json (JObj (sort_key fst
       (map_set ''timestamp'' (JStr (RFC3339 clock)) (map_set ''event'' (JStr event) flds))))"

definition post_request :: "string \<Rightarrow> string \<Rightarrow> string \<Rightarrow> string \<Rightarrow> string \<Rightarrow> http_request" where
  "post_request url event payload sig ts =
     \<lparr>req_URL = url,
      req_Headers = [(''Content-Type'', ''application/json''), (''X-OpenSyncCRDT-Event'', event),
        (''X-OpenSyncCRDT-Signature'', sig), (''X-OpenSyncCRDT-Timestamp'', ts)],
      req_Body = payload\<rparr>"

definition post_result :: "http_result \<Rightarrow> goerr option" where
  "post_result r =
     (case r of
        NoReply e \<Rightarrow> Some e
      | Response code _ \<Rightarrow>
          if code < 200 \<or> 300 \<le> code then Some (Msg (''webhook returned status '' @ Itoa code)) else None)"

text \<open>
  The retry loop: \<open>net n\<close> is what comes back at the \<open>n\<close>-th try. Sums and the doubling of
  the backoff (nanoseconds) wrap at 64 bits.
\<close>

function deliver_loop ::
  "bool \<Rightarrow> string \<Rightarrow> http_request \<Rightarrow> (int \<Rightarrow> http_result) \<Rightarrow> int \<Rightarrow> int \<Rightarrow> int \<Rightarrow> delivery list" where
  "deliver_loop metrics event req net attempts attempt backoff =
     (if attempt \<le> attempts then
        Posted req #
        (case post_result (net attempt) of
           None \<Rightarrow> []
         | Some err \<Rightarrow>
             if attempt = attempts then WarnFailed # (if metrics then [CountError event] else [])
             else SleptFor backoff # deliver_loop metrics event req net attempts (attempt + 1) (i64 (backoff * 2)))
      else [])"
  by pat_completeness auto
termination
  by (relation "measure (\<lambda>(_, _, _, _, attempts, attempt, _). nat (attempts + 1 - attempt))") auto

declare deliver_loop.simps [simp del]

definition deliver :: "Dispatcher \<Rightarrow> (int \<Rightarrow> http_result) \<Rightarrow> string \<Rightarrow> string \<Rightarrow> string \<Rightarrow> int \<Rightarrow> delivery list" where
  "deliver d net event url payload ts =
     (let sig = Sign (d_secret d) (bytes_of_string payload);
          req = post_request url event payload sig (Itoa ts)
      in (if d_metrics d then [CountCall event] else []) @
         deliver_loop (d_metrics d) event req net (i64 (d_maxRetries d + 1)) 1 200000000)"

definition Dispatcher_Emit ::
  "Dispatcher \<Rightarrow> (int \<Rightarrow> http_result) \<Rightarrow> int \<Rightarrow> string \<Rightarrow> (string \<times> json) list \<Rightarrow> delivery list" where
  "Dispatcher_Emit d net clock event flds =
     (case map_of (d_events d) event of
        None \<Rightarrow> []
      | Some url \<Rightarrow> deliver d net event url (event_body event flds clock) clock)"

section \<open>What a delivery amounts to\<close>

text \<open>\<open>n\<close> failed tries, each followed by its pause.\<close>

fun failed_tries :: "nat \<Rightarrow> http_request \<Rightarrow> int \<Rightarrow> delivery list" where
  "failed_tries 0 req b = []"
| "failed_tries (Suc n) req b = Posted req # SleptFor b # failed_tries n req (i64 (b * 2))"

definition fails :: "(int \<Rightarrow> http_result) \<Rightarrow> int \<Rightarrow> bool" where
  "fails net i \<longleftrightarrow> post_result (net i) \<noteq> None"

lemma deliver_loop_fail:
  assumes "a < n" "fails net a"
  shows "deliver_loop mt ev req net n a b = Posted req # SleptFor b # deliver_loop mt ev req net n (a + 1) (i64 (b * 2))"
  using assms by (subst deliver_loop.simps) (auto simp: fails_def)

lemma deliver_loop_ok:
  assumes "a \<le> k" "k \<le> n" "\<forall>i \<in> {a..<k}. fails net i" "\<not> fails net k"
  shows "deliver_loop mt ev req net n a b = failed_tries (nat (k - a)) req b @ [Posted req]"
  using assms
proof (induction "nat (k - a)" arbitrary: a b)
  case 0
  then have "a = k" by simp
  with 0 show ?case by (simp add: deliver_loop.simps [of _ _ _ _ _ k] fails_def)
next
  case (Suc m)
  then have "fails net a" "a < n" by auto
  moreover have "nat (k - a) = Suc (nat (k - (a + 1)))" using Suc.hyps(2) by simp
  ultimately show ?case using Suc by (simp add: deliver_loop_fail)
qed

lemma deliver_loop_give_up:
  assumes "a \<le> n" "\<forall>i \<in> {a..n}. fails net i"
  shows "deliver_loop mt ev req net n a b =
     failed_tries (nat (n - a)) req b @ [Posted req, WarnFailed] @ (if mt then [CountError ev] else [])"
  using assms
proof (induction "nat (n - a)" arbitrary: a b)
  case 0
  then have "a = n" by simp
  with 0 show ?case by (auto simp: deliver_loop.simps [of _ _ _ _ _ n] fails_def)
next
  case (Suc m)
  then have "fails net a" "a < n" by auto
  moreover have "nat (n - a) = Suc (nat (n - (a + 1)))" using Suc.hyps(2) by simp
  ultimately show ?case using Suc by (simp add: deliver_loop_fail)
qed

lemma failed_tries_posts: "filter (\<lambda>x. \<exists>r. x = Posted r) (failed_tries n req b) = replicate n (Posted req)"
  by (induction n arbitrary: b) auto

lemma failed_tries_no_error: "CountError ev \<notin> set (failed_tries n req b)" "CountCall ev \<notin> set (failed_tries n req b)"
  by (induction n arbitrary: b) auto

text \<open>The pauses double while they fit in 64 bits.\<close>

lemma failed_tries_pauses:
  assumes "0 \<le> b" "b * 2 ^ n \<le> max_i64"
  shows "failed_tries n req b = concat (map (\<lambda>i. [Posted req, SleptFor (b * 2 ^ i)]) [0..<n])"
  using assms
proof (induction n arbitrary: b)
  case (Suc n)
  have "b * 2 \<le> b * 2 ^ Suc n" using Suc.prems(1) by (intro mult_left_mono) simp_all
  then have "i64 (b * 2) = b * 2" using Suc.prems by (intro i64_id) auto
  then show ?case
    using Suc.IH [of "b * 2"] Suc.prems
    by (simp add: upt_conv_Cons map_Suc_upt [symmetric] comp_def mult.assoc del: upt_Suc)
qed simp

definition posts :: "delivery list \<Rightarrow> http_request list" where
  "posts ds = concat (map (\<lambda>x. case x of Posted r \<Rightarrow> [r] | _ \<Rightarrow> []) ds)"

lemma posts_simps [simp]:
  "posts [] = []" "posts (x # xs) = (case x of Posted r \<Rightarrow> [r] | _ \<Rightarrow> []) @ posts xs" "posts (xs @ ys) = posts xs @ posts ys"
  by (simp_all add: posts_def)

lemma posts_failed_tries [simp]: "posts (failed_tries n req b) = replicate n req"
  by (induction n arbitrary: b) simp_all

text \<open>A dispatcher with one event and two retries, for the concrete instances below.\<close>

definition disp2 :: Dispatcher where
  "disp2 = NewDispatcher [(''on_document_created'', ''http://h/a''), (''on_sync_error'', [])] ''s3cret'' 2 True"

definition flaky :: "int \<Rightarrow> http_result" where
  "flaky i = (if i = 1 then Response 503 [] else Response 204 [])"

lemma disp2_sel [simp]:
  "d_maxRetries disp2 = 2" "d_metrics disp2" "d_secret disp2 = ''s3cret''"
  "d_events disp2 = [(''on_document_created'', ''http://h/a'')]"
  by (simp_all add: disp2_def NewDispatcher_def)

lemma flaky_fails [simp]: "fails flaky i \<longleftrightarrow> i = 1"
  by (simp add: fails_def flaky_def post_result_def)

text \<open>
  C28: A webhook is tried until it is accepted. If the \<open>k\<close>-th try is the first the endpoint
  answers with a 2xx status and \<open>k\<close> is at most one more than the configured retries, exactly
  \<open>k\<close> requests are sent, with pauses of 200 ms doubled after each failure, and no delivery
  error is counted.
\<close>

theorem deliver_until_accepted:
  assumes "0 \<le> d_maxRetries d" "d_maxRetries d \<le> 35"
    and "1 \<le> k" "k \<le> d_maxRetries d + 1" "\<forall>i \<in> {1..<k}. fails net i" "\<not> fails net k"
  shows "let req = post_request url ev payload (Sign (d_secret d) (bytes_of_string payload)) (Itoa ts) in
     deliver d net ev url payload ts = (if d_metrics d then [CountCall ev] else []) @
       concat (map (\<lambda>i. [Posted req, SleptFor (200000000 * 2 ^ i)]) [0..<nat (k - 1)]) @ [Posted req]"
proof -
  let ?req = "post_request url ev payload (Sign (d_secret d) (bytes_of_string payload)) (Itoa ts)"
  have n: "i64 (d_maxRetries d + 1) = d_maxRetries d + 1"
    using assms(1,2) by (intro i64_id) (simp_all add: max_i64_def)
  have "(2::int) ^ nat (k - 1) \<le> 2 ^ 35" using assms(2,4) by (intro power_increasing) auto
  then have "200000000 * (2::int) ^ nat (k - 1) \<le> max_i64" by (simp add: max_i64_def)
  then have "deliver_loop (d_metrics d) ev ?req net (d_maxRetries d + 1) 1 200000000 =
      concat (map (\<lambda>i. [Posted ?req, SleptFor (200000000 * 2 ^ i)]) [0..<nat (k - 1)]) @ [Posted ?req]"
    by (subst deliver_loop_ok [OF assms(3-6)]) (simp add: failed_tries_pauses)
  then show ?thesis by (simp add: deliver_def Let_def n)
qed

theorem deliver_until_accepted_witness:
  "let req = post_request ''u'' ''e'' ''p'' (Sign ''s3cret'' (bytes_of_string ''p'')) (Itoa 7) in
   deliver disp2 flaky ''e'' ''u'' ''p'' 7 = [CountCall ''e'', Posted req, SleptFor 200000000, Posted req]"
  using deliver_until_accepted [of disp2 2 flaky "''u''" "''e''" "''p''" 7] by simp

text \<open>
  C29: When every try fails, the endpoint has been tried exactly retries + 1 times, one error
  is counted and the delivery is given up; it never loops. With the largest possible
  setting the count of tries wraps around and nothing is sent at all.
\<close>

theorem deliver_gives_up:
  "(0 \<le> d_maxRetries d \<and> d_maxRetries d < max_i64 \<and> (\<forall>i. fails net i) \<longrightarrow>
      posts (deliver d net ev url payload ts) =
        replicate (nat (d_maxRetries d + 1))
          (post_request url ev payload (Sign (d_secret d) (bytes_of_string payload)) (Itoa ts))
      \<and> (CountError ev \<in> set (deliver d net ev url payload ts) \<longleftrightarrow> d_metrics d))
   \<and> (d_maxRetries d = max_i64 \<longrightarrow> posts (deliver d net ev url payload ts) = [])"
proof (intro conjI impI)
  assume a: "0 \<le> d_maxRetries d \<and> d_maxRetries d < max_i64 \<and> (\<forall>i. fails net i)"
  then have n: "i64 (d_maxRetries d + 1) = d_maxRetries d + 1" by (intro i64_id) auto
  have n': "nat (d_maxRetries d + 1) = Suc (nat (d_maxRetries d))" using a by (simp add: nat_add_distrib)
  note g = deliver_loop_give_up [of 1 "d_maxRetries d + 1" net]
  show "posts (deliver d net ev url payload ts) = replicate (nat (d_maxRetries d + 1))
      (post_request url ev payload (Sign (d_secret d) (bytes_of_string payload)) (Itoa ts))"
    using a g by (simp add: deliver_def Let_def n n' replicate_append_same)
  show "CountError ev \<in> set (deliver d net ev url payload ts) \<longleftrightarrow> d_metrics d"
    using a g by (simp add: deliver_def Let_def n failed_tries_no_error)
next
  assume "d_maxRetries d = max_i64"
  then show "posts (deliver d net ev url payload ts) = []"
    by (simp add: deliver_def Let_def i64_wraps deliver_loop.simps)
qed

theorem deliver_gives_up_witness:
  "length (posts (deliver disp2 (\<lambda>_. NoReply ContextCanceled) ''e'' ''u'' ''p'' 7)) = 3"
proof -
  have "fails (\<lambda>_. NoReply ContextCanceled) i" for i by (simp add: fails_def post_result_def)
  then show ?thesis
    using deliver_gives_up [of disp2 "\<lambda>_. NoReply ContextCanceled" "''e''" "''u''" "''p''" 7]
    by (simp add: max_i64_def)
qed

text \<open>
  C30: Receivers can check every event: each request an event sends carries the event's name,
  a JSON body whose \<^verbatim>\<open>event\<close> field is that name whatever fields the caller passed, and a
  signature that \<^verbatim>\<open>Verify\<close> accepts for that body under the configured secret.
\<close>

theorem Emit_signed:
  assumes "r \<in> set (posts (Dispatcher_Emit d net clock event flds))"
  shows "\<exists>url sig. map_of (d_events d) event = Some url \<and> req_URL r = url
     \<and> map_of (req_Headers r) ''X-OpenSyncCRDT-Signature'' = Some sig
     \<and> map_of (req_Headers r) ''X-OpenSyncCRDT-Event'' = Some event
     \<and> Verify (d_secret d) (bytes_of_string (req_Body r)) sig \<and> length sig = 64
     \<and> req_Body r = show_json (JObj (sort_key fst
          (map_set ''timestamp'' (JStr (RFC3339 clock)) (map_set ''event'' (JStr event) flds))))"
proof -
  have same: "set (posts (deliver_loop mt ev req net n a b)) \<subseteq> {req}" for mt ev req n a b
    by (induction mt ev req net n a b rule: deliver_loop.induct)
       (subst deliver_loop.simps, auto split: option.splits)
  from assms obtain url where url: "map_of (d_events d) event = Some url"
    by (auto simp: Dispatcher_Emit_def split: option.splits)
  have "r = post_request url event (event_body event flds clock)
      (Sign (d_secret d) (bytes_of_string (event_body event flds clock))) (Itoa clock)"
    using assms subsetD [OF same] by (auto simp: Dispatcher_Emit_def url deliver_def Let_def split: if_splits)
  then show ?thesis
    using url by (simp add: post_request_def Verify_def length_Sign event_body_def)
qed

theorem Emit_signed_witness:
  "\<exists>r sig. posts (Dispatcher_Emit disp2 (\<lambda>_. Response 200 []) 0 ''on_document_created'' [(''doc_id'', JStr ''d'')]) = [r]
     \<and> map_of (req_Headers r) ''X-OpenSyncCRDT-Signature'' = Some sig
     \<and> Verify ''s3cret'' (bytes_of_string (req_Body r)) sig"
proof -
  have ok: "\<not> fails (\<lambda>_. Response 200 []) 1" by (simp add: fails_def post_result_def)
  have "deliver_loop True ev req (\<lambda>_. Response 200 []) 3 1 b = [Posted req]" for ev req b
    using deliver_loop_ok [of 1 1 3 "\<lambda>_. Response 200 []" True ev req b] ok by simp
  then have "\<exists>r. posts (Dispatcher_Emit disp2 (\<lambda>_. Response 200 []) 0 ''on_document_created'' [(''doc_id'', JStr ''d'')]) = [r]"
    by (simp add: Dispatcher_Emit_def deliver_def Let_def i64_def)
  then obtain r where r: "posts (Dispatcher_Emit disp2 (\<lambda>_. Response 200 []) 0 ''on_document_created'' [(''doc_id'', JStr ''d'')]) = [r]" ..
  with Emit_signed [of r disp2 "\<lambda>_. Response 200 []" 0 "''on_document_created''" "[(''doc_id'', JStr ''d'')]"]
  show ?thesis by auto
qed

end
