(* ===== verification/Auth.thy ===== *)
theory Auth
  imports Config Protocol Webhook
begin

text \<open>
  \<^verbatim>\<open>internal/auth\<close>: the three ways a connection is authorized (\<^verbatim>\<open>none.go\<close>, \<^verbatim>\<open>header.go\<close>,
  \<^verbatim>\<open>webhook.go\<close>) and the choice between them (\<^verbatim>\<open>auth.go\<close>). The webhook's cache is the state
  a call threads. The locale \<open>authenticator\<close> is what the server relies on: a call that
  returns an identity was entitled to it by its request and by what earlier calls
  learned. It is interpreted by each mode.
\<close>

section \<open>Requests (package net/http)\<close>

text \<open>Header and query values in the order of the request; a header name has no case.\<close>

record Request =
  r_Method :: string
  r_Path :: string
  r_Header :: "(string \<times> string) list"
  r_Query :: "(string \<times> string) list"
  r_Body :: string
  r_RemoteAddr :: string

definition Header_Get :: "Request \<Rightarrow> string \<Rightarrow> string" where
  "Header_Get r k = map_get [] (map (\<lambda>(k', v). (ToLower k', v)) (r_Header r)) (ToLower k)"

definition Query_Get :: "Request \<Rightarrow> string \<Rightarrow> string" where
  "Query_Get r k = map_get [] (r_Query r) k"

section \<open>auth.go, none.go, header.go\<close>

record Identity =
  UserID :: string
  Metadata :: "(string \<times> json) list"

definition no_identity :: Identity where
  "no_identity = \<lparr>UserID = [], Metadata = []\<rparr>"

record webhookAuth =
  wa_url :: string
  wa_secret :: string
  wa_cacheTTL :: int
  wa_timeout :: int

datatype Authenticator = noneAuth | headerAuth string | WebhookAuth webhookAuth

definition newWebhookAuth :: "AuthConfig \<Rightarrow> webhookAuth" where
  "newWebhookAuth cfg =
     \<lparr>wa_url = WebhookURL cfg, wa_secret = WebhookSecret cfg, wa_cacheTTL = WebhookCacheTTL cfg,
      wa_timeout = (if WebhookTimeout cfg \<le> 0 then 3 * second else WebhookTimeout cfg)\<rparr>"

definition auth_New :: "AuthConfig \<Rightarrow> Authenticator res" where
  "auth_New cfg =
     (if Mode cfg = AuthModeNone then Inr noneAuth
      else if Mode cfg = AuthModeHeader then Inr (headerAuth (HeaderName cfg))
      else if Mode cfg = AuthModeWebhook then Inr (WebhookAuth (newWebhookAuth cfg))
      else Inl (Msg (''unsupported auth mode '' @ Quote (Mode cfg))))"

fun auth_Mode :: "Authenticator \<Rightarrow> string" where
  "auth_Mode noneAuth = AuthModeNone"
| "auth_Mode (headerAuth _) = AuthModeHeader"
| "auth_Mode (WebhookAuth _) = AuthModeWebhook"

definition none_Authenticate :: "Request \<Rightarrow> Identity res" where
  "none_Authenticate r = Inr no_identity"

definition header_Authenticate :: "string \<Rightarrow> Request \<Rightarrow> Identity res" where
  "header_Authenticate headerName r =
     (let v = TrimSpace (Header_Get r headerName) in
      if v = [] then Inl ErrUnauthorized else Inr \<lparr>UserID = v, Metadata = []\<rparr>)"

section \<open>webhook.go\<close>

record cacheEntry =
  ce_identity :: Identity
  ce_allowed :: bool
  ce_expires :: int

type_synonym cache = "string \<rightharpoonup> cacheEntry"

text \<open>
  What one call meets: the clock at the lookup, at the request (seconds) and at the store,
  and the endpoint's reply.
\<close>

record aenv =
  t_lookup :: int
  t_request :: int
  t_store :: int
  auth_net :: "http_request \<Rightarrow> http_result"

definition extractToken :: "Request \<Rightarrow> string" where
  "extractToken r =
     (let h = TrimSpace (Header_Get r ''Authorization'') in
      if h \<noteq> [] then
        (case CutPrefix h ''Bearer '' of (after, ok) \<Rightarrow> if ok then TrimSpace after else h)
      else Query_Get r ''token'')"

definition cache_key :: "Request \<Rightarrow> string" where
  "cache_key r = extractToken r @ [CHR 0x00] @ Query_Get r ''doc_id''"

text \<open>\<^verbatim>\<open>lookup\<close>: the identity and whether it is allowed, or nothing; an expired entry is removed.\<close>

definition cache_lookup :: "webhookAuth \<Rightarrow> int \<Rightarrow> string \<Rightarrow> cache \<Rightarrow> (Identity \<times> bool) option \<times> cache" where
  "cache_lookup w t key c =
     (if wa_cacheTTL w \<le> 0 then (None, c)
      else case c key of
          None \<Rightarrow> (None, c)
        | Some e \<Rightarrow> if ce_expires e < t then (None, c(key := None)) else (Some (ce_identity e, ce_allowed e), c))"

definition cache_store :: "webhookAuth \<Rightarrow> int \<Rightarrow> string \<Rightarrow> Identity \<Rightarrow> bool \<Rightarrow> cache \<Rightarrow> cache" where
  "cache_store w t key i allowed c =
     (if wa_cacheTTL w \<le> 0 then c
      else c(key \<mapsto> \<lparr>ce_identity = i, ce_allowed = allowed, ce_expires = t + wa_cacheTTL w\<rparr>))"

definition verify_body :: "string \<Rightarrow> string \<Rightarrow> int \<Rightarrow> string" where
  "verify_body token docID clock = show_json (JObj
     [(''token'', JStr token), (''doc_id'', JStr docID), (''action'', JStr ''connect''),
      (''timestamp'', JStr (RFC3339 clock))])"

definition verify_request :: "webhookAuth \<Rightarrow> string \<Rightarrow> http_request" where
  "verify_request w body =
     \<lparr>req_URL = wa_url w,
      req_Headers = [(''Content-Type'', ''application/json''),
        (''X-OpenSyncCRDT-Signature'', Sign (wa_secret w) (bytes_of_string body))],
      req_Body = body\<rparr>"

record verifyResponse =
  vr_Allowed :: bool
  vr_UserID :: string
  vr_Metadata :: "(string \<times> json) list"

definition dec_bool :: "json \<Rightarrow> bool \<Rightarrow> bool option" where
  "dec_bool j old = (case j of JBool b \<Rightarrow> Some b | JNull \<Rightarrow> Some old | _ \<Rightarrow> None)"

definition dec_anymap :: "json \<Rightarrow> (string \<times> json) list \<Rightarrow> (string \<times> json) list option" where
  "dec_anymap j old =
     (case j of JObj ms \<Rightarrow> Some (fold (\<lambda>(k, v). map_put k v) ms old) | JNull \<Rightarrow> Some [] | _ \<Rightarrow> None)"

definition set_verify_field :: "string \<times> json \<Rightarrow> verifyResponse \<Rightarrow> verifyResponse option" where
  "set_verify_field kv v =
     (let k = ToLower (fst kv); j = snd kv in
      if k = ''allowed'' then map_option (\<lambda>b. v\<lparr>vr_Allowed := b\<rparr>) (dec_bool j (vr_Allowed v))
      else if k = ''user_id'' then map_option (\<lambda>s. v\<lparr>vr_UserID := s\<rparr>) (dec_string j (vr_UserID v))
      else if k = ''metadata'' then map_option (\<lambda>m. v\<lparr>vr_Metadata := m\<rparr>) (dec_anymap j (vr_Metadata v))
      else Some v)"

fun set_verify_fields :: "(string \<times> json) list \<Rightarrow> verifyResponse \<Rightarrow> verifyResponse option" where
  "set_verify_fields [] v = Some v"
| "set_verify_fields (kv # kvs) v =
     (case set_verify_field kv v of None \<Rightarrow> None | Some v' \<Rightarrow> set_verify_fields kvs v')"

definition decode_verify :: "string \<Rightarrow> verifyResponse option" where
  "decode_verify body =
     (let zero = \<lparr>vr_Allowed = False, vr_UserID = [], vr_Metadata = []\<rparr> in
      case json_Decode body of
        Some (JObj ms) \<Rightarrow> set_verify_fields ms zero
      | Some JNull \<Rightarrow> Some zero
      | _ \<Rightarrow> None)"

text \<open>The call on the endpoint after a cache miss.\<close>

definition verify :: "webhookAuth \<Rightarrow> aenv \<Rightarrow> Request \<Rightarrow> cache \<Rightarrow> Identity res \<times> cache" where
  "verify w e r c =
     (let key = cache_key r;
          body = verify_body (extractToken r) (Query_Get r ''doc_id'') (t_request e)
      in case auth_net e (verify_request w body) of
           NoReply err \<Rightarrow> (Inl (Wrap [] ErrUnauthorized ('': auth webhook: '' @ err_Error err)), c)
         | Response code reply \<Rightarrow>
             if code \<noteq> 200 then (Inl ErrUnauthorized, cache_store w (t_store e) key no_identity False c)
             else case decode_verify reply of
                 None \<Rightarrow> (Inl (Wrap ''decode verify response: '' JsonErr []), c)
               | Some v \<Rightarrow>
                   if \<not> vr_Allowed v then (Inl ErrUnauthorized, cache_store w (t_store e) key no_identity False c)
                   else (let i = \<lparr>UserID = vr_UserID v, Metadata = vr_Metadata v\<rparr> in
                         (Inr i, cache_store w (t_store e) key i True c)))"

definition webhook_Authenticate :: "webhookAuth \<Rightarrow> aenv \<Rightarrow> Request \<Rightarrow> cache \<Rightarrow> Identity res \<times> cache" where
  "webhook_Authenticate w e r c =
     (case cache_lookup w (t_lookup e) (cache_key r) c of
        (Some (i, ok), c1) \<Rightarrow> (if \<not> ok then Inl ErrUnauthorized else Inr i, c1)
      | (None, c1) \<Rightarrow> verify w e r c1)"

fun Authenticate :: "Authenticator \<Rightarrow> aenv \<Rightarrow> Request \<Rightarrow> cache \<Rightarrow> Identity res \<times> cache" where
  "Authenticate noneAuth e r c = (none_Authenticate r, c)"
| "Authenticate (headerAuth h) e r c = (header_Authenticate h r, c)"
| "Authenticate (WebhookAuth w) e r c = webhook_Authenticate w e r c"

section \<open>What a grant rests on\<close>

text \<open>The calls of a process, one after the other on the shared cache.\<close>

fun run_auth ::
  "(aenv \<Rightarrow> Request \<Rightarrow> 'c \<Rightarrow> Identity res \<times> 'c) \<Rightarrow> (aenv \<times> Request) list \<Rightarrow> 'c \<Rightarrow> Identity res list \<times> 'c" where
  "run_auth f [] c = ([], c)"
| "run_auth f ((e, r) # calls) c =
     (case f e r c of (x, c1) \<Rightarrow> (case run_auth f calls c1 of (xs, c2) \<Rightarrow> (x # xs, c2)))"

text \<open>
  The contract of an authenticator: an invariant relates its state to the calls made so
  far, and an identity is only returned to a request entitled to it.
\<close>

locale authenticator =
  fixes authn :: "aenv \<Rightarrow> Request \<Rightarrow> 'c \<Rightarrow> Identity res \<times> 'c"
    and start :: 'c
    and inv :: "(aenv \<times> Request) list \<Rightarrow> 'c \<Rightarrow> bool"
    and entitled :: "(aenv \<times> Request) list \<Rightarrow> aenv \<Rightarrow> Request \<Rightarrow> Identity \<Rightarrow> bool"
  assumes inv_start: "inv [] start"
    and inv_call: "inv h c \<Longrightarrow> authn e r c = (x, c') \<Longrightarrow> inv (h @ [(e, r)]) c'"
    and sound: "inv h c \<Longrightarrow> authn e r c = (Inr i, c') \<Longrightarrow> entitled h e r i"
begin

lemma run_sound_from:
  "inv h c \<Longrightarrow> run_auth authn calls c = (xs, c') \<Longrightarrow> n < length calls \<Longrightarrow> xs ! n = Inr i \<Longrightarrow>
     entitled (h @ take n calls) (fst (calls ! n)) (snd (calls ! n)) i"
proof (induction calls arbitrary: h c xs n)
  case (Cons call calls)
  obtain e r where call: "call = (e, r)" by (cases call)
  obtain x c1 where x: "authn e r c = (x, c1)" by fastforce
  obtain ys c2 where ys: "run_auth authn calls c1 = (ys, c2)" by fastforce
  from Cons.prems(2) call x ys have xs: "xs = x # ys" by simp
  show ?case
  proof (cases n)
    case 0
    with Cons.prems(1,4) xs x call sound [of h c e r i c1] show ?thesis by simp
  next
    case (Suc m)
    with Cons.IH [of "h @ [(e, r)]" c1 ys m] inv_call [OF Cons.prems(1) x] Cons.prems(2-4) xs ys call x
    show ?thesis by simp
  qed
qed simp

lemmas run_sound = run_sound_from [OF inv_start, simplified]

end

text \<open>An approval: the endpoint answered the request with 200 and \<^verbatim>\<open>"allowed": true\<close>.\<close>

definition approved :: "webhookAuth \<Rightarrow> aenv \<Rightarrow> Request \<Rightarrow> Identity \<Rightarrow> bool" where
  "approved w e r i \<longleftrightarrow>
     (\<exists>reply v. auth_net e (verify_request w (verify_body (extractToken r) (Query_Get r ''doc_id'') (t_request e))) = Response 200 reply
        \<and> decode_verify reply = Some v \<and> vr_Allowed v \<and> i = \<lparr>UserID = vr_UserID v, Metadata = vr_Metadata v\<rparr>)"

definition webhook_entitled ::
  "webhookAuth \<Rightarrow> (aenv \<times> Request) list \<Rightarrow> aenv \<Rightarrow> Request \<Rightarrow> Identity \<Rightarrow> bool" where
  "webhook_entitled w h e r i \<longleftrightarrow> approved w e r i \<or>
     (\<exists>e0 r0. (e0, r0) \<in> set h \<and> cache_key r0 = cache_key r \<and> approved w e0 r0 i
        \<and> t_lookup e \<le> t_store e0 + wa_cacheTTL w \<and> 0 < wa_cacheTTL w)"

fun entitled :: "Authenticator \<Rightarrow> (aenv \<times> Request) list \<Rightarrow> aenv \<Rightarrow> Request \<Rightarrow> Identity \<Rightarrow> bool" where
  "entitled noneAuth h e r i = (i = no_identity)"
| "entitled (headerAuth hn) h e r i =
     (UserID i = TrimSpace (Header_Get r hn) \<and> UserID i \<noteq> [] \<and> Metadata i = [])"
| "entitled (WebhookAuth w) h e r i = webhook_entitled w h e r i"

definition cache_inv :: "webhookAuth \<Rightarrow> (aenv \<times> Request) list \<Rightarrow> cache \<Rightarrow> bool" where
  "cache_inv w h c \<longleftrightarrow>
     (\<forall>k en. c k = Some en \<and> ce_allowed en \<longrightarrow>
        (\<exists>e0 r0. (e0, r0) \<in> set h \<and> cache_key r0 = k \<and> approved w e0 r0 (ce_identity en)
           \<and> ce_expires en = t_store e0 + wa_cacheTTL w))"

lemma cache_inv_more: "cache_inv w h c \<Longrightarrow> cache_inv w (h @ h') c"
  unfolding cache_inv_def by (metis Un_iff set_append)

lemma cache_inv_drop: "cache_inv w h c \<Longrightarrow> cache_inv w h (c(k := None))"
  by (simp add: cache_inv_def)

lemma cache_lookup_keeps: "cache_inv w h c \<Longrightarrow> cache_inv w h (snd (cache_lookup w t k c))"
  by (simp add: cache_lookup_def cache_inv_drop split: option.splits)

lemma cache_inv_deny: "cache_inv w h c \<Longrightarrow> cache_inv w h (cache_store w t k i False c)"
  by (simp add: cache_inv_def cache_store_def)

lemma cache_inv_allow:
  assumes "cache_inv w h c" "approved w e r i"
  shows "cache_inv w (h @ [(e, r)]) (cache_store w (t_store e) (cache_key r) i True c)"
  using cache_inv_more [OF assms(1), of "[(e, r)]"] assms(2)
  by (auto simp: cache_inv_def cache_store_def)

text \<open>What a call on the endpoint leaves behind, by its outcome.\<close>

lemma verify_cases:
  assumes "verify w e r c = (x, c')"
  shows "(\<exists>i. x = Inr i \<and> approved w e r i \<and> c' = cache_store w (t_store e) (cache_key r) i True c)
     \<or> (\<exists>y. x = Inl y \<and> (c' = c \<or> c' = cache_store w (t_store e) (cache_key r) no_identity False c))"
  using assms unfolding verify_def approved_def Let_def
  by (auto split: http_result.splits if_splits option.splits)

lemma verify_keeps:
  assumes "cache_inv w h c" "verify w e r c = (x, c')"
  shows "cache_inv w (h @ [(e, r)]) c'"
  using verify_cases [OF assms(2)] cache_inv_allow [OF assms(1)] cache_inv_more [OF assms(1)]
    cache_inv_more [OF cache_inv_deny [OF assms(1)]] by auto

interpretation wa: authenticator "webhook_Authenticate w" Map.empty "cache_inv w" "webhook_entitled w" for w
proof
  show "cache_inv w [] Map.empty" by (simp add: cache_inv_def)
next
  fix h c e r x c'
  assume i: "cache_inv w h c" and a: "webhook_Authenticate w e r c = (x, c')"
  obtain l c1 where l: "cache_lookup w (t_lookup e) (cache_key r) c = (l, c1)" by fastforce
  have c1: "cache_inv w h c1" using cache_lookup_keeps [OF i, of "t_lookup e" "cache_key r"] l by simp
  show "cache_inv w (h @ [(e, r)]) c'"
  proof (cases l)
    case None
    with a l verify_keeps [OF c1] show ?thesis by (simp add: webhook_Authenticate_def)
  next
    case (Some p)
    with a l have "c' = c1" by (cases p) (simp add: webhook_Authenticate_def)
    with cache_inv_more [OF c1] show ?thesis by simp
  qed
next
  fix h c e r i c'
  assume iv: "cache_inv w h c" and a: "webhook_Authenticate w e r c = (Inr i, c')"
  obtain l c1 where l: "cache_lookup w (t_lookup e) (cache_key r) c = (l, c1)" by fastforce
  show "webhook_entitled w h e r i"
  proof (cases l)
    case None
    with a l verify_cases [of w e r c1 "Inr i" c'] show ?thesis
      by (simp add: webhook_Authenticate_def webhook_entitled_def)
  next
    case (Some p)
    then obtain en where en: "c (cache_key r) = Some en" "t_lookup e \<le> ce_expires en" "p = (ce_identity en, ce_allowed en)"
      "0 < wa_cacheTTL w"
      using l by (auto simp: cache_lookup_def split: if_splits option.splits)
    with a l Some have "ce_allowed en" "i = ce_identity en"
      by (auto simp: webhook_Authenticate_def split: if_splits)
    with iv en show ?thesis unfolding cache_inv_def webhook_entitled_def by metis
  qed
qed

interpretation ha: authenticator "Authenticate (headerAuth hn)" Map.empty "\<lambda>_ _. True" "entitled (headerAuth hn)" for hn
  by unfold_locales (auto simp: header_Authenticate_def Let_def split: if_splits)

interpretation na: authenticator "Authenticate noneAuth" Map.empty "\<lambda>_ _. True" "entitled noneAuth"
  by unfold_locales (auto simp: none_Authenticate_def)

section \<open>Properties\<close>

definition req0 :: "string \<Rightarrow> string \<Rightarrow> Request" where
  "req0 tok doc = \<lparr>r_Method = ''GET'', r_Path = ''/sync'', r_Header = [],
     r_Query = [(''token'', tok), (''doc_id'', doc)], r_Body = [], r_RemoteAddr = []\<rparr>"

definition wa0 :: webhookAuth where
  "wa0 = \<lparr>wa_url = ''http://a'', wa_secret = ''k'', wa_cacheTTL = 60 * second, wa_timeout = 3 * second\<rparr>"

definition at_time :: "int \<Rightarrow> http_result \<Rightarrow> aenv" where
  "at_time t reply = \<lparr>t_lookup = t, t_request = t div second, t_store = t, auth_net = \<lambda>_. reply\<rparr>"

definition yes_text :: string where
  "yes_text = show_json (JObj [(''allowed'', JBool True), (''user_id'', JStr ''ann'')])"

abbreviation yes_reply :: http_result where
  "yes_reply \<equiv> Response 200 yes_text"

lemma yes_decoded:
  "decode_verify yes_text = Some \<lparr>vr_Allowed = True, vr_UserID = ''ann'', vr_Metadata = []\<rparr>"
  by code_simp

lemma two_calls:
  assumes "cache_key r' = cache_key r" "t \<le> t'" "t' \<le> t + 60 * second"
  shows "fst (run_auth (Authenticate (WebhookAuth wa0)) [(at_time t yes_reply, r), (at_time t' reply, r')] Map.empty) =
     [Inr \<lparr>UserID = ''ann'', Metadata = []\<rparr>, Inr \<lparr>UserID = ''ann'', Metadata = []\<rparr>]"
  using assms by (simp add: webhook_Authenticate_def cache_lookup_def verify_def Let_def at_time_def
      yes_decoded cache_store_def wa0_def second_def)

text \<open>
  C12: Authorization fails closed. Take any sequence of connection attempts, with any replies,
  failures and clock readings. In header mode an attempt is let in only with the
  non-empty value of the configured header as its identity; in webhook mode only if the
  endpoint answered 200 with \<^verbatim>\<open>"allowed": true\<close> and that identity, for this very attempt or
  for an earlier one with the same cache key whose answer is not older than the cache
  lifetime. Every transport error, other status, undecodable or negative answer rejects.
\<close>

theorem auth_fails_closed:
  assumes "run_auth (Authenticate a) calls Map.empty = (xs, c)" "n < length calls" "xs ! n = Inr i"
  shows "entitled a (take n calls) (fst (calls ! n)) (snd (calls ! n)) i"
proof (cases a)
  case noneAuth
  with assms na.run_sound show ?thesis by blast
next
  case (headerAuth hn)
  with assms ha.run_sound show ?thesis by blast
next
  case (WebhookAuth w)
  then have "Authenticate a = webhook_Authenticate w" by (intro ext) simp
  with assms wa.run_sound [of w calls xs c n i] WebhookAuth show ?thesis by simp
qed

theorem auth_fails_closed_witness:
  "webhook_entitled wa0 [(at_time 0 yes_reply, req0 ''t'' ''d'')] (at_time 5 (NoReply ContextCanceled)) (req0 ''t'' ''d'')
     \<lparr>UserID = ''ann'', Metadata = []\<rparr>"
proof -
  let ?calls = "[(at_time 0 yes_reply, req0 ''t'' ''d''), (at_time 5 (NoReply ContextCanceled), req0 ''t'' ''d'')]"
  let ?run = "run_auth (Authenticate (WebhookAuth wa0)) ?calls Map.empty"
  have r: "fst ?run = [Inr \<lparr>UserID = ''ann'', Metadata = []\<rparr>, Inr \<lparr>UserID = ''ann'', Metadata = []\<rparr>]"
    by (rule two_calls) (simp_all add: second_def)
  show ?thesis
    using auth_fails_closed [of "WebhookAuth wa0" ?calls "fst ?run" "snd ?run" 1] r by simp
qed

text \<open>
  C33: The cache key does not separate token and document. The key is the token, a NUL byte and the
  document id; both may contain a NUL (query parameters may). A request with another token
  for another document then shares the key of an approved one and is let in with its
  identity, although the endpoint, asked, would refuse.
\<close>

theorem auth_key_collision:
  "let r1 = req0 ''t'' (''u'' @ [CHR 0x00] @ ''d''); r2 = req0 (''t'' @ [CHR 0x00] @ ''u'') ''d'' in
   extractToken r1 \<noteq> extractToken r2 \<and> Query_Get r1 ''doc_id'' \<noteq> Query_Get r2 ''doc_id''
   \<and> fst (run_auth (Authenticate (WebhookAuth wa0)) [(at_time 0 yes_reply, r1), (at_time 5 (Response 403 []), r2)] Map.empty)
     = [Inr \<lparr>UserID = ''ann'', Metadata = []\<rparr>, Inr \<lparr>UserID = ''ann'', Metadata = []\<rparr>]
   \<and> fst (run_auth (Authenticate (WebhookAuth wa0)) [(at_time 5 (Response 403 []), r2)] Map.empty) = [Inl ErrUnauthorized]"
proof -
  let ?r1 = "req0 ''t'' (''u'' @ [CHR 0x00] @ ''d'')" and ?r2 = "req0 (''t'' @ [CHR 0x00] @ ''u'') ''d''"
  have k: "cache_key ?r2 = cache_key ?r1" "extractToken ?r1 \<noteq> extractToken ?r2" "Query_Get ?r1 ''doc_id'' \<noteq> Query_Get ?r2 ''doc_id''"
    by code_simp+
  have "fst (run_auth (Authenticate (WebhookAuth wa0)) [(at_time 5 (Response 403 []), ?r2)] Map.empty) = [Inl ErrUnauthorized]"
    by (simp add: webhook_Authenticate_def cache_lookup_def verify_def Let_def at_time_def wa0_def second_def)
  with k two_calls [OF k(1), of 0 5 "Response 403 []"] show ?thesis
    unfolding Let_def by (simp add: second_def)
qed

end
