(* ===== verification/Store.thy ===== *)
theory Store
  imports Json
begin

text \<open>
  \<^verbatim>\<open>internal/storage/interface.go\<close>: the data a backend keeps per document and the
  \<^verbatim>\<open>Store\<close> interface every backend implements, as a record of operations on the
  backend's state. The locale \<open>store\<close> is the contract of the interface, stated over
  an abstract view of the documents: what each call does to the view, what it
  returns, and that the backend's own invariant is kept. The three backends
  interpret it; the engine's lemmas are proved once inside it.
\<close>

section \<open>Data\<close>

record StoredOp =
  op_Seq :: int
  op_DocID :: string
  op_SessionID :: string
  op_Payload :: bytes
  op_CreatedAt :: int

text \<open>A Go \<^verbatim>\<open>map[string]string\<close> is an association list; its meaning is \<^const>\<open>map_of\<close>.\<close>

type_synonym strmap = "(string \<times> string) list"

record Document =
  doc_ID :: string
  doc_Metadata :: strmap
  doc_LatestSeq :: int
  doc_CreatedAt :: int
  doc_UpdatedAt :: int

text \<open>The zero \<^verbatim>\<open>time.Time\<close> of \<^verbatim>\<open>UpdatedSince\<close> is \<open>None\<close>.\<close>

record DocumentFilter =
  f_UpdatedSince :: "int option"
  f_Limit :: int
  f_Offset :: int

section \<open>What a call meets outside the program\<close>

text \<open>
  A call on the database handle either succeeds, fails without effect, or is lost:
  the server did the work but the reply never came (a connection that breaks during
  a commit). The text is the driver's. A statement that the server refuses because a value
  does not fit its column (a text too long, a NUL byte in PostgreSQL) is one that fails
  without effect.
\<close>

datatype outcome = Succeeds | Fails string | Lost string

text \<open>The calls on the database a store operation makes, one name for each.\<close>

datatype site =
    AtBegin | AtEnsureDoc | AtSelectLatest | AtInsertDoc | AtInsertOp | AtUpdateDoc | AtCommit
  | AtCreateDoc | AtGetDoc | AtListDocs | AtListScan | AtDeleteDoc | AtRowsAffected
  | AtQueryOps | AtScanOps | AtGetLatest | AtSaveSnapshot | AtGetSnapshot | AtPing

text \<open>
  The environment of one request: the clock read at each call (\<^verbatim>\<open>UnixMilli\<close>), the
  outcome of each call, and the order a query gives to rows that its
  \<^verbatim>\<open>ORDER BY\<close> leaves open, as a rank of the document ids. It is the environment of one engine:
  two engines given the same call have environments, and ranks, of their own.
\<close>

record env =
  now :: "site \<Rightarrow> int"
  at :: "site \<Rightarrow> outcome"
  tie :: "string \<Rightarrow> nat"

definition fault_free :: "env \<Rightarrow> bool" where
  "fault_free e \<longleftrightarrow> (\<forall>k. at e k = Succeeds)"

lemma fault_freeD [simp]: "fault_free e \<Longrightarrow> at e k = Succeeds"
  by (simp add: fault_free_def)

text \<open>The environment in which nothing fails and the clock stands at \<open>t\<close>.\<close>

definition calm :: "int \<Rightarrow> env" where
  "calm t = \<lparr>now = \<lambda>_. t, at = \<lambda>_. Succeeds, tie = \<lambda>_. 0\<rparr>"

lemma fault_free_calm [simp]: "fault_free (calm t)"
  by (simp add: fault_free_def calm_def)

section \<open>The interface\<close>

record 's store_ops =
  AppendOp :: "env \<Rightarrow> string \<Rightarrow> bytes \<Rightarrow> string \<Rightarrow> 's \<Rightarrow> int res \<times> 's"
  GetOpsSince :: "env \<Rightarrow> string \<Rightarrow> int \<Rightarrow> 's \<Rightarrow> StoredOp list res"
  GetOpsInRange :: "env \<Rightarrow> string \<Rightarrow> int \<Rightarrow> int \<Rightarrow> 's \<Rightarrow> StoredOp list res"
  SaveSnapshot :: "env \<Rightarrow> string \<Rightarrow> bytes \<Rightarrow> int \<Rightarrow> 's \<Rightarrow> unit res \<times> 's"
  GetSnapshot :: "env \<Rightarrow> string \<Rightarrow> 's \<Rightarrow> (bytes \<times> int) res"
  GetLatestSeq :: "env \<Rightarrow> string \<Rightarrow> 's \<Rightarrow> int res"
  CreateDocument :: "env \<Rightarrow> string \<Rightarrow> strmap \<Rightarrow> 's \<Rightarrow> unit res \<times> 's"
  GetDocument :: "env \<Rightarrow> string \<Rightarrow> 's \<Rightarrow> Document res"
  ListDocuments :: "env \<Rightarrow> DocumentFilter \<Rightarrow> 's \<Rightarrow> Document list res"
  DeleteDocument :: "env \<Rightarrow> string \<Rightarrow> 's \<Rightarrow> unit res \<times> 's"
  HealthCheck :: "env \<Rightarrow> 's \<Rightarrow> unit res"

section \<open>The abstract view and the contract\<close>

text \<open>
  What the interface promises is stated over a view of the store: each existing
  document with its operations in sequence order and its snapshots by sequence
  number.
\<close>

record adoc =
  ad_ops :: "StoredOp list"
  ad_snaps :: "int \<rightharpoonup> bytes"

type_synonym view = "string \<rightharpoonup> adoc"

definition empty_adoc :: adoc where
  "empty_adoc = \<lparr>ad_ops = [], ad_snaps = Map.empty\<rparr>"

definition adoc_of :: "view \<Rightarrow> string \<Rightarrow> adoc" where
  "adoc_of v d = (case v d of None \<Rightarrow> empty_adoc | Some a \<Rightarrow> a)"

abbreviation log_of :: "view \<Rightarrow> string \<Rightarrow> StoredOp list" where
  "log_of v d \<equiv> ad_ops (adoc_of v d)"

abbreviation snaps_of :: "view \<Rightarrow> string \<Rightarrow> int \<rightharpoonup> bytes" where
  "snaps_of v d \<equiv> ad_snaps (adoc_of v d)"

text \<open>The specification of the writes.\<close>

definition spec_append :: "string \<Rightarrow> bytes \<Rightarrow> string \<Rightarrow> int \<Rightarrow> view \<Rightarrow> view" where
  "spec_append d p u t v = v(d \<mapsto> (adoc_of v d)\<lparr>ad_ops :=
     log_of v d @ [\<lparr>op_Seq = int (length (log_of v d)) + 1, op_DocID = d, op_SessionID = u,
                    op_Payload = p, op_CreatedAt = t\<rparr>]\<rparr>)"

definition spec_save_snapshot :: "string \<Rightarrow> bytes \<Rightarrow> int \<Rightarrow> view \<Rightarrow> view" where
  "spec_save_snapshot d st k v = v(d \<mapsto> (adoc_of v d)\<lparr>ad_snaps := (snaps_of v d)(k \<mapsto> st)\<rparr>)"

lemma log_of_empty [simp]: "v d = None \<Longrightarrow> log_of v d = []"
  by (simp add: adoc_of_def empty_adoc_def)

lemma snaps_of_empty [simp]: "v d = None \<Longrightarrow> snaps_of v d = Map.empty"
  by (simp add: adoc_of_def empty_adoc_def)

lemma log_spec_append [simp]:
  "log_of (spec_append d p u t v) d' =
     (if d' = d then log_of v d @ [\<lparr>op_Seq = int (length (log_of v d)) + 1, op_DocID = d,
        op_SessionID = u, op_Payload = p, op_CreatedAt = t\<rparr>] else log_of v d')"
  by (simp add: spec_append_def adoc_of_def)

lemma snaps_spec_append [simp]: "snaps_of (spec_append d p u t v) d' = snaps_of v d'"
  by (simp add: spec_append_def adoc_of_def)

lemma log_spec_save_snapshot [simp]: "log_of (spec_save_snapshot d st k v) d' = log_of v d'"
  by (simp add: spec_save_snapshot_def adoc_of_def)

lemma snaps_spec_save_snapshot [simp]:
  "snaps_of (spec_save_snapshot d st k v) d' = (if d' = d then (snaps_of v d)(k \<mapsto> st) else snaps_of v d')"
  by (simp add: spec_save_snapshot_def adoc_of_def)

lemma dom_specs [simp]:
  "dom (spec_append d p u t v) = insert d (dom v)"
  "dom (spec_save_snapshot d st k v) = insert d (dom v)"
  by (simp_all add: spec_append_def spec_save_snapshot_def)

text \<open>
  The contract. A write that reports success did exactly its work; one that reports
  an error did nothing or, when the reply was lost, all of it. Reads return what the
  view holds. Without faults every call that should succeed does.
\<close>

locale store =
  fixes S :: "'s store_ops" and inv :: "'s \<Rightarrow> bool" and view :: "'s \<Rightarrow> view"
  assumes log_numbered: "inv s \<Longrightarrow> numbered op_Seq (log_of (view s) d)"
    and append_ok:
      "inv s \<Longrightarrow> int (length (log_of (view s) d)) < max_i64 \<Longrightarrow> AppendOp S e d p u s = (Inr q, s') \<Longrightarrow>
         inv s' \<and> q = int (length (log_of (view s) d)) + 1 \<and> (\<exists>t. view s' = spec_append d p u t (view s))"
    and append_err:
      "inv s \<Longrightarrow> int (length (log_of (view s) d)) < max_i64 \<Longrightarrow> AppendOp S e d p u s = (Inl y, s') \<Longrightarrow>
         inv s' \<and> (view s' = view s \<or> (\<exists>t. view s' = spec_append d p u t (view s)))"
    and append_live: "inv s \<Longrightarrow> fault_free e \<Longrightarrow> int (length (log_of (view s) d)) < max_i64 \<Longrightarrow>
         \<exists>q s'. AppendOp S e d p u s = (Inr q, s')"
    and since: "inv s \<Longrightarrow> GetOpsSince S e d k s = Inr ops \<Longrightarrow> ops = filter (\<lambda>x. k < op_Seq x) (log_of (view s) d)"
    and since_live: "inv s \<Longrightarrow> fault_free e \<Longrightarrow> \<exists>ops. GetOpsSince S e d k s = Inr ops"
    and in_range: "inv s \<Longrightarrow> GetOpsInRange S e d k l s = Inr ops \<Longrightarrow>
         ops = filter (\<lambda>x. k \<le> op_Seq x \<and> op_Seq x \<le> l) (log_of (view s) d)"
    and save_ok: "inv s \<Longrightarrow> SaveSnapshot S e d st k s = (Inr (), s') \<Longrightarrow>
         inv s' \<and> d \<in> dom (view s) \<and> view s' = spec_save_snapshot d st k (view s)"
    and save_err: "inv s \<Longrightarrow> SaveSnapshot S e d st k s = (Inl y, s') \<Longrightarrow>
         inv s' \<and> (view s' = view s \<or> d \<in> dom (view s) \<and> view s' = spec_save_snapshot d st k (view s))"
    and save_live: "inv s \<Longrightarrow> fault_free e \<Longrightarrow> d \<in> dom (view s) \<Longrightarrow> \<exists>s'. SaveSnapshot S e d st k s = (Inr (), s')"
    and snapshot_ok: "inv s \<Longrightarrow> GetSnapshot S e d s = Inr (st, k) \<Longrightarrow>
         snaps_of (view s) d k = Some st \<and> (\<forall>k' \<in> dom (snaps_of (view s) d). k' \<le> k)"
    and snapshot_none: "inv s \<Longrightarrow> GetSnapshot S e d s = Inl ErrNoSnapshot \<Longrightarrow> snaps_of (view s) d = Map.empty"
    and snapshot_live: "inv s \<Longrightarrow> fault_free e \<Longrightarrow>
         (\<exists>st k. GetSnapshot S e d s = Inr (st, k)) \<or> GetSnapshot S e d s = Inl ErrNoSnapshot"
    and latest: "inv s \<Longrightarrow> GetLatestSeq S e d s = Inr q \<Longrightarrow> q = int (length (log_of (view s) d))"
    and latest_live: "inv s \<Longrightarrow> fault_free e \<Longrightarrow> \<exists>q. GetLatestSeq S e d s = Inr q"
    and create_ok: "inv s \<Longrightarrow> CreateDocument S e d m s = (Inr (), s') \<Longrightarrow>
         inv s' \<and> view s d = None \<and> view s' = (view s)(d \<mapsto> empty_adoc)"
    and create_err: "inv s \<Longrightarrow> CreateDocument S e d m s = (Inl y, s') \<Longrightarrow>
         inv s' \<and> (view s' = view s \<or> view s d = None \<and> view s' = (view s)(d \<mapsto> empty_adoc))"
    and create_exists: "inv s \<Longrightarrow> CreateDocument S e d m s = (Inl ErrDocumentExists, s') \<Longrightarrow>
         d \<in> dom (view s) \<and> view s' = view s"
    and get_ok: "inv s \<Longrightarrow> GetDocument S e d s = Inr doc \<Longrightarrow>
         d \<in> dom (view s) \<and> doc_ID doc = d \<and> doc_LatestSeq doc = int (length (log_of (view s) d))"
    and get_missing: "inv s \<Longrightarrow> GetDocument S e d s = Inl ErrDocumentNotFound \<Longrightarrow> view s d = None"
    and get_live: "inv s \<Longrightarrow> fault_free e \<Longrightarrow> d \<in> dom (view s) \<Longrightarrow> \<exists>doc. GetDocument S e d s = Inr doc"
    and delete_ok: "inv s \<Longrightarrow> DeleteDocument S e d s = (Inr (), s') \<Longrightarrow>
         inv s' \<and> d \<in> dom (view s) \<and> view s' = (view s)(d := None)"
    and delete_err: "inv s \<Longrightarrow> DeleteDocument S e d s = (Inl y, s') \<Longrightarrow>
         inv s' \<and> (view s' = view s \<or> view s' = (view s)(d := None))"
    and delete_missing: "inv s \<Longrightarrow> DeleteDocument S e d s = (Inl ErrDocumentNotFound, s') \<Longrightarrow>
         view s d = None \<and> view s' = view s"
begin

lemma append_cases:
  assumes "inv s" "int (length (log_of (view s) d)) < max_i64" "AppendOp S e d p u s = (r, s')"
  shows "inv s' \<and> (view s' = view s \<or> (\<exists>t. view s' = spec_append d p u t (view s)))"
  using assms append_ok [of s d e p u _ s'] append_err [of s d e p u _ s'] by (cases r) auto

lemma save_cases:
  assumes "inv s" "SaveSnapshot S e d st k s = (r, s')"
  shows "inv s' \<and> (view s' = view s \<or> d \<in> dom (view s) \<and> view s' = spec_save_snapshot d st k (view s))"
  using assms save_ok [of s e d st k s'] save_err [of s e d st k _ s'] by (cases r) auto

lemma save_log:
  assumes "inv s" "SaveSnapshot S e d st k s = (r, s')"
  shows "log_of (view s') d' = log_of (view s) d'"
  using save_cases [OF assms] by auto

lemma delete_cases:
  assumes "inv s" "DeleteDocument S e d s = (r, s')"
  shows "inv s' \<and> (view s' = view s \<or> view s' = (view s)(d := None))"
  using assms delete_ok [of s e d s'] delete_err [of s e d _ s'] by (cases r) auto

lemma create_cases:
  assumes "inv s" "CreateDocument S e d m s = (r, s')"
  shows "inv s' \<and> (view s' = view s \<or> view s d = None \<and> view s' = (view s)(d \<mapsto> empty_adoc))"
  using assms create_ok [of s e d m s'] create_err [of s e d m _ s'] by (cases r) auto

lemma since_drop: "inv s \<Longrightarrow> GetOpsSince S e d k s = Inr ops \<Longrightarrow> ops = drop (nat k) (log_of (view s) d)"
  using since log_numbered by (simp add: filter_numbered)

lemma append_then_since:
  assumes "inv s" "int (length (log_of (view s) d)) < max_i64" "AppendOp S e d p u s = (Inr q, s')"
    and "GetOpsSince S e' d (q - 1) s' = Inr ops"
  shows "\<exists>t. ops = [\<lparr>op_Seq = q, op_DocID = d, op_SessionID = u, op_Payload = p, op_CreatedAt = t\<rparr>]"
proof -
  from append_ok [OF assms(1-3)] obtain t where s': "inv s'" "q = int (length (log_of (view s) d)) + 1"
    "view s' = spec_append d p u t (view s)" by blast
  from since_drop [OF s'(1) assms(4)] s'(2,3) show ?thesis by simp
qed

end

end
