(* ===== verification/Crdt.thy ===== *)
theory Crdt
  imports Webhook
begin

text \<open>
  \<^verbatim>\<open>internal/crdt\<close>: the wrapper around the Automerge library (\<^verbatim>\<open>automerge.go\<close>) and the
  conflict resolver (\<^verbatim>\<open>resolver.go\<close>). The library itself is not part of the repository:
  it is a parameter, the record \<open>automerge\<close> of the functions the wrapper calls, and what
  its documentation promises is the predicate \<open>automerge_laws\<close>.
\<close>

section \<open>The Automerge library\<close>

text \<open>
  \<^verbatim>\<open>LoadIncremental\<close> changes the document in place and reports an error or not; the
  document afterwards is its second component.
\<close>

record 'd automerge =
  am_New :: 'd
  am_Load :: "bytes \<Rightarrow> 'd res"
  am_LoadIncremental :: "'d \<Rightarrow> bytes \<Rightarrow> goerr option \<times> 'd"
  am_Save :: "'d \<Rightarrow> bytes"
  am_Heads :: "'d \<Rightarrow> string list"

text \<open>
  A document holds a set of changes and a payload carries a set of changes. Loading a
  payload adds its changes to the document; one that fails adds some of them or none. A
  saved document is not empty and loads back with the same changes.
\<close>

definition automerge_laws :: "'d automerge \<Rightarrow> ('d \<Rightarrow> 'c set) \<Rightarrow> (bytes \<Rightarrow> 'c set) \<Rightarrow> bool" where
  "automerge_laws A content changes \<longleftrightarrow>
     content (am_New A) = {}
   \<and> (\<forall>d p d'. am_LoadIncremental A d p = (None, d') \<longrightarrow> content d' = content d \<union> changes p)
   \<and> (\<forall>d p d' e. am_LoadIncremental A d p = (Some e, d') \<longrightarrow>
        content d \<subseteq> content d' \<and> content d' \<subseteq> content d \<union> changes p)
   \<and> (\<forall>d. am_Save A d \<noteq> [] \<and> (\<exists>d'. am_Load A (am_Save A d) = Inr d' \<and> content d' = content d))"

section \<open>automerge.go\<close>

definition crdt_New :: "'d automerge \<Rightarrow> 'd" where
  "crdt_New A = am_New A"

definition crdt_Load :: "'d automerge \<Rightarrow> bytes \<Rightarrow> 'd res" where
  "crdt_Load A state =
     (case am_Load A state of Inl e \<Rightarrow> Inl (Wrap ''load automerge state: '' e []) | Inr d \<Rightarrow> Inr d)"

definition crdt_Apply :: "'d automerge \<Rightarrow> 'd \<Rightarrow> bytes \<Rightarrow> goerr option \<times> 'd" where
  "crdt_Apply A d payload =
     (case am_LoadIncremental A d payload of
        (Some e, d') \<Rightarrow> (Some (Wrap ''apply change set: '' e []), d')
      | (None, d') \<Rightarrow> (None, d'))"

fun replay_ops :: "'d automerge \<Rightarrow> nat \<Rightarrow> bytes list \<Rightarrow> 'd \<Rightarrow> 'd res" where
  "replay_ops A i [] d = Inr d"
| "replay_ops A i (p # ps) d =
     (case crdt_Apply A d p of
        (Some e, _) \<Rightarrow> Inl (Wrap (''replay op '' @ Itoa (int i) @ '': '') e [])
      | (None, d') \<Rightarrow> replay_ops A (Suc i) ps d')"

definition Rehydrate :: "'d automerge \<Rightarrow> bytes \<Rightarrow> bytes list \<Rightarrow> 'd res" where
  "Rehydrate A snapshot ps =
     bindE (if snapshot \<noteq> [] then crdt_Load A snapshot else Inr (crdt_New A)) (replay_ops A 0 ps)"

definition crdt_Save :: "'d automerge \<Rightarrow> 'd \<Rightarrow> bytes" where
  "crdt_Save A d = am_Save A d"

definition crdt_Heads :: "'d automerge \<Rightarrow> 'd \<Rightarrow> string list" where
  "crdt_Heads A d = am_Heads A d"

section \<open>resolver.go\<close>

record Resolver =
  rs_url :: string
  rs_secret :: string

definition NewResolver :: "string \<Rightarrow> string \<Rightarrow> Resolver option" where
  "NewResolver url secret = (if url = [] then None else Some \<lparr>rs_url = url, rs_secret = secret\<rparr>)"

definition resolve_body :: "string \<Rightarrow> bytes \<Rightarrow> bytes \<Rightarrow> bytes \<Rightarrow> int \<Rightarrow> string" where
  "resolve_body docID changeA changeB currentState clock = show_json (JObj
     [(''doc_id'', JStr docID), (''change_a'', JStr (b64_EncodeToString changeA)),
      (''change_b'', JStr (b64_EncodeToString changeB)),
      (''current_state'', JStr (b64_EncodeToString currentState)),
      (''timestamp'', JStr (RFC3339 clock))])"

definition resolve_request :: "Resolver \<Rightarrow> string \<Rightarrow> http_request" where
  "resolve_request r body =
     \<lparr>req_URL = rs_url r,
      req_Headers = [(''Content-Type'', ''application/json''),
        (''X-OpenSyncCRDT-Signature'', Sign (rs_secret r) (bytes_of_string body))],
      req_Body = body\<rparr>"

text \<open>
  \<^verbatim>\<open>Decode\<close> into the struct \<^verbatim>\<open>resolveResponse\<close>: its one field, matched without regard to
  case; the last occurrence counts and \<^verbatim>\<open>null\<close> leaves it as it is.
\<close>

fun dec_resolved :: "(string \<times> json) list \<Rightarrow> string \<Rightarrow> string option" where
  "dec_resolved [] s = Some s"
| "dec_resolved ((k, j) # ms) s =
     (if ToLower k = ''resolved_state'' then
        (case j of JStr t \<Rightarrow> dec_resolved ms t | JNull \<Rightarrow> dec_resolved ms s | _ \<Rightarrow> None)
      else dec_resolved ms s)"

definition resolveResponse :: "string \<Rightarrow> string option" where
  "resolveResponse body =
     (case json_Decode body of
        Some (JObj ms) \<Rightarrow> dec_resolved ms []
      | Some JNull \<Rightarrow> Some []
      | _ \<Rightarrow> None)"

definition Resolve ::
  "Resolver \<Rightarrow> (http_request \<Rightarrow> http_result) \<Rightarrow> int \<Rightarrow> string \<Rightarrow> bytes \<Rightarrow> bytes \<Rightarrow> bytes \<Rightarrow> bytes res" where
  "Resolve r net clock docID changeA changeB currentState =
     (case net (resolve_request r (resolve_body docID changeA changeB currentState clock)) of
        NoReply e \<Rightarrow> Inl (Wrap ''call resolver: '' e [])
      | Response code body \<Rightarrow>
          if code < 200 \<or> 300 \<le> code then Inl (Msg (''resolver returned status '' @ Itoa code))
          else (case resolveResponse body of
             None \<Rightarrow> Inl (Wrap ''decode resolver response: '' JsonErr [])
           | Some s \<Rightarrow>
               (case b64_DecodeString s of
                  None \<Rightarrow> Inl (Wrap ''decode resolved_state: '' JsonErr [])
                | Some state \<Rightarrow>
                    if state = [] then Inl (Msg ''resolver returned empty resolved_state'') else Inr state)))"

section \<open>What the wrapper does to the changes of a document\<close>

lemma laws_New: "automerge_laws A content changes \<Longrightarrow> content (am_New A) = {}"
  by (simp add: automerge_laws_def)

lemma crdt_Apply_ok: "crdt_Apply A d p = (None, d') \<longleftrightarrow> am_LoadIncremental A d p = (None, d')"
  by (auto simp: crdt_Apply_def split: prod.splits option.splits)

lemma crdt_Apply_err: "crdt_Apply A d p = (Some e, d') \<Longrightarrow> \<exists>e'. am_LoadIncremental A d p = (Some e', d')"
  by (auto simp: crdt_Apply_def split: prod.splits option.splits)

lemma laws_Apply_ok:
  "automerge_laws A content changes \<Longrightarrow> crdt_Apply A d p = (None, d') \<Longrightarrow> content d' = content d \<union> changes p"
  by (simp add: automerge_laws_def crdt_Apply_ok)

lemma laws_Apply_err:
  "automerge_laws A content changes \<Longrightarrow> crdt_Apply A d p = (Some e, d') \<Longrightarrow>
   content d \<subseteq> content d' \<and> content d' \<subseteq> content d \<union> changes p"
  using crdt_Apply_err [of A d p e d'] by (auto simp: automerge_laws_def)

lemma laws_Apply_grows:
  "automerge_laws A content changes \<Longrightarrow> crdt_Apply A d p = (r, d') \<Longrightarrow>
   content d \<subseteq> content d' \<and> content d' \<subseteq> content d \<union> changes p"
proof (cases r)
  case None
  moreover assume "automerge_laws A content changes" "crdt_Apply A d p = (r, d')"
  ultimately have "content d' = content d \<union> changes p" using laws_Apply_ok by metis
  then show ?thesis by simp
next
  case (Some e)
  moreover assume "automerge_laws A content changes" "crdt_Apply A d p = (r, d')"
  ultimately show ?thesis by (intro laws_Apply_err [of A content changes d p e]) simp_all
qed

lemma laws_Load_Save:
  assumes "automerge_laws A content changes"
  obtains d' where "am_Save A d \<noteq> []" "crdt_Load A (am_Save A d) = Inr d'" "content d' = content d"
proof -
  from assms have "am_Save A d \<noteq> [] \<and> (\<exists>d'. am_Load A (am_Save A d) = Inr d' \<and> content d' = content d)"
    unfolding automerge_laws_def by (elim conjE allE [of _ d]) (rule conjI)
  then obtain d' where "am_Save A d \<noteq> []" "am_Load A (am_Save A d) = Inr d'" "content d' = content d" by auto
  with that [of d'] show thesis by (simp add: crdt_Load_def)
qed

lemma replay_ops_content:
  "automerge_laws A content changes \<Longrightarrow> replay_ops A i ps d = Inr d' \<Longrightarrow>
   content d' = content d \<union> \<Union> (changes ` set ps)"
proof (induction ps arbitrary: i d)
  case (Cons p ps)
  then obtain d1 where d1: "crdt_Apply A d p = (None, d1)" "replay_ops A (Suc i) ps d1 = Inr d'"
    by (auto split: prod.splits option.splits)
  from Cons.IH [OF Cons.prems(1) d1(2)] laws_Apply_ok [OF Cons.prems(1) d1(1)] show ?case by auto
qed simp

end
