(* ===== verification/Sync_Engine.thy ===== *)
theory Sync_Engine
  imports Store Crdt Protocol
begin

text \<open>
  \<^verbatim>\<open>internal/sync\<close>: the engine that applies change sets, commits them, snapshots, emits
  events and broadcasts (\<^verbatim>\<open>engine.go\<close>, \<^verbatim>\<open>broadcast.go\<close>), and the batched catch-up
  (\<^verbatim>\<open>replay.go\<close>). The engine's fields that never change are \<open>Engine\<close>; the store's state
  and the cached documents are \<open>estate\<close>. A call returns its result, the state after it
  and, in order, what it sent to the emitter, the resolver and the broadcaster. A call is
  one step. Writes to one document are serialized by its lock, which a call takes after
  \<^verbatim>\<open>state\<close> has read an uncached document from the store. That reading is outside the lock, but
  on one node it has the same effect as inside it: to commit, a call needs the document's
  entry in the cache; a call that finds an entry made in the meantime uses that one and
  drops what it read; and when there is none, nothing was committed since it read. Only a
  deletion, which drops the entry, can come in between; then the call goes on with the
  deleted content, as it does with an entry it had found before (\<open>Api_Props\<close> shows what that
  leads to).
\<close>

section \<open>State\<close>

record Options =
  o_SnapshotInterval :: int
  o_Resolver :: "Resolver option"
  o_ReplayBatchSize :: int
  o_Emitter :: bool

record Engine =
  e_emitter :: bool
  e_resolver :: "Resolver option"
  e_snapshotEvery :: int
  e_replayBatch :: int

record ('s, 'd) estate =
  e_store :: 's
  e_docs :: "string \<rightharpoonup> 'd"

definition defaultReplayBatchSize :: int where "defaultReplayBatchSize = 500"
definition eventDocumentCreated :: string where "eventDocumentCreated = ''on_document_created''"
definition eventDocumentUpdated :: string where "eventDocumentUpdated = ''on_document_updated''"
definition eventSyncError :: string where "eventSyncError = ''on_sync_error''"

definition NewEngine :: "Options \<Rightarrow> Engine" where
  "NewEngine opts =
     \<lparr>e_emitter = o_Emitter opts, e_resolver = o_Resolver opts, e_snapshotEvery = o_SnapshotInterval opts,
      e_replayBatch = (if o_ReplayBatchSize opts \<le> 0 then defaultReplayBatchSize else o_ReplayBatchSize opts)\<rparr>"

definition new_estate :: "'s \<Rightarrow> ('s, 'd) estate" where
  "new_estate s = \<lparr>e_store = s, e_docs = Map.empty\<rparr>"

text \<open>What a call meets: the database, the resolver's endpoint and the clock (seconds).\<close>

record eenv =
  dbe :: env
  net :: "http_request \<Rightarrow> http_result"
  clock :: int

datatype effect =
    Emit string "(string \<times> json) list"
  | CallResolver http_request
  | Broadcast string string ServerSync

definition nullable :: "string \<Rightarrow> json" where
  "nullable s = (if s = [] then JNull else JStr s)"

definition emit :: "Engine \<Rightarrow> string \<Rightarrow> (string \<times> json) list \<Rightarrow> effect list" where
  "emit c event flds = (if e_emitter c then [Emit event flds] else [])"

section \<open>Loading\<close>

definition loadDoc :: "'s store_ops \<Rightarrow> 'd automerge \<Rightarrow> eenv \<Rightarrow> string \<Rightarrow> 's \<Rightarrow> 'd res" where
  "loadDoc S A e docID s =
     bindE (case GetSnapshot S (dbe e) docID s of
              Inr (snapshot, atSeq) \<Rightarrow> Inr (snapshot, atSeq)
            | Inl err \<Rightarrow> if err = ErrNoSnapshot then Inr ([], 0) else Inl (Wrap ''load snapshot: '' err []))
       (\<lambda>(snapshot, atSeq).
          case GetOpsSince S (dbe e) docID atSeq s of
            Inl err \<Rightarrow> Inl (Wrap ''load ops: '' err [])
          | Inr ops \<Rightarrow> Rehydrate A snapshot (map op_Payload ops))"

definition state ::
  "'s store_ops \<Rightarrow> 'd automerge \<Rightarrow> eenv \<Rightarrow> string \<Rightarrow> ('s, 'd) estate \<Rightarrow> 'd res \<times> ('s, 'd) estate" where
  "state S A e docID st =
     (case e_docs st docID of
        Some d \<Rightarrow> (Inr d, st)
      | None \<Rightarrow>
          (case loadDoc S A e docID (e_store st) of
             Inl err \<Rightarrow> (Inl err, st)
           | Inr d \<Rightarrow> (Inr d, st\<lparr>e_docs := (e_docs st)(docID \<mapsto> d)\<rparr>)))"

section \<open>Writing\<close>

definition applyChange ::
  "'d automerge \<Rightarrow> Engine \<Rightarrow> eenv \<Rightarrow> string \<Rightarrow> 'd \<Rightarrow> bytes \<Rightarrow> goerr option \<times> 'd \<times> effect list" where
  "applyChange A c e docID d payload =
     (case e_resolver c of
        None \<Rightarrow> (case crdt_Apply A d payload of (r, d') \<Rightarrow> (r, d', []))
      | Some rs \<Rightarrow>
          (let stateBefore = crdt_Save A d; headsBefore = crdt_Heads A d in
           case crdt_Apply A d payload of
             (Some err, d') \<Rightarrow> (Some err, d', [])
           | (None, d') \<Rightarrow>
               if headsBefore = [] \<or> length (crdt_Heads A d') \<le> 1 then (None, d', [])
               else
                 (let call = CallResolver (resolve_request rs (resolve_body docID stateBefore payload stateBefore (clock e))) in
                  case Resolve rs (net e) (clock e) docID stateBefore payload stateBefore of
                    Inl err \<Rightarrow>
                      (None, d', call # emit c eventSyncError
                         [(''doc_id'', JStr docID), (''session_id'', JStr []),
                          (''error_code'', JStr ''resolver_failed''), (''error_message'', JStr (err_Error err))])
                  | Inr resolved \<Rightarrow>
                      (case crdt_Load A resolved of
                         Inl _ \<Rightarrow> (None, d', [call])
                       | Inr d'' \<Rightarrow> (None, d'', [call])))))"

text \<open>The write-back of the document the cached entry points to.\<close>

definition set_doc :: "string \<Rightarrow> 'd \<Rightarrow> ('s, 'd) estate \<Rightarrow> ('s, 'd) estate" where
  "set_doc docID d st = st\<lparr>e_docs := (e_docs st)(docID \<mapsto> d)\<rparr>"

definition Submit ::
  "'s store_ops \<Rightarrow> 'd automerge \<Rightarrow> Engine \<Rightarrow> eenv \<Rightarrow> string \<Rightarrow> string \<Rightarrow> string \<Rightarrow> bytes
     \<Rightarrow> ('s, 'd) estate \<Rightarrow> int res \<times> ('s, 'd) estate \<times> effect list" where
  "Submit S A c e docID sessionID userID payload st =
     (if docID = [] then (Inl (Msg ''submit: empty doc_id''), st, [])
      else if payload = [] then (Inl (Msg ''submit: empty payload''), st, [])
      else case state S A e docID st of
        (Inl err, st1) \<Rightarrow> (Inl err, st1, [])
      | (Inr d, st1) \<Rightarrow>
          (case applyChange A c e docID d payload of
             (Some err, d', fx) \<Rightarrow> (Inl err, set_doc docID d' st1, fx)
           | (None, d', fx) \<Rightarrow>
               (let st2 = set_doc docID d' st1 in
                case AppendOp S (dbe e) docID payload sessionID (e_store st2) of
                  (Inl err, s) \<Rightarrow> (Inl (Wrap ''append op: '' err []), st2\<lparr>e_store := s\<rparr>, fx)
                | (Inr q, s) \<Rightarrow>
                    (let created = (if q = 1 then emit c eventDocumentCreated
                           [(''doc_id'', JStr docID), (''user_id'', nullable userID)] else []);
                         updated = emit c eventDocumentUpdated
                           [(''doc_id'', JStr docID), (''seq'', JInt q), (''user_id'', nullable userID),
                            (''session_id'', JStr sessionID)];
                         s' = (if 0 < e_snapshotEvery c \<and> go_rem q (e_snapshotEvery c) = 0
                               then snd (SaveSnapshot S (dbe e) docID (crdt_Save A d') q s) else s)
                     in (Inr q, st2\<lparr>e_store := s'\<rparr>,
                         fx @ created @ updated @ [Broadcast docID sessionID (NewServerSync docID sessionID q payload)])))))"

section \<open>Snapshot, Export, Forget\<close>

definition Snapshot ::
  "'s store_ops \<Rightarrow> 'd automerge \<Rightarrow> eenv \<Rightarrow> string \<Rightarrow> ('s, 'd) estate \<Rightarrow> int res \<times> ('s, 'd) estate" where
  "Snapshot S A e docID st =
     (case state S A e docID st of
        (Inl err, st1) \<Rightarrow> (Inl err, st1)
      | (Inr d, st1) \<Rightarrow>
          (case GetLatestSeq S (dbe e) docID (e_store st1) of
             Inl err \<Rightarrow> (Inl err, st1)
           | Inr q \<Rightarrow>
               (case SaveSnapshot S (dbe e) docID (crdt_Save A d) q (e_store st1) of
                  (Inl err, s) \<Rightarrow> (Inl (Wrap ''save snapshot: '' err []), st1\<lparr>e_store := s\<rparr>)
                | (Inr _, s) \<Rightarrow> (Inr q, st1\<lparr>e_store := s\<rparr>))))"

definition Export ::
  "'s store_ops \<Rightarrow> 'd automerge \<Rightarrow> eenv \<Rightarrow> string \<Rightarrow> ('s, 'd) estate \<Rightarrow> bytes res \<times> ('s, 'd) estate" where
  "Export S A e docID st =
     (case state S A e docID st of
        (Inl err, st1) \<Rightarrow> (Inl err, st1)
      | (Inr d, st1) \<Rightarrow> (Inr (crdt_Save A d), st1))"

definition Forget :: "string \<Rightarrow> ('s, 'd) estate \<Rightarrow> ('s, 'd) estate" where
  "Forget docID st = st\<lparr>e_docs := (e_docs st)(docID := None)\<rparr>"

section \<open>Replay\<close>

definition replay_op :: "StoredOp \<Rightarrow> ReplayOp" where
  "replay_op x = \<lparr>ro_Seq = op_Seq x, ro_FromSession = op_SessionID x, ro_Payload = op_Payload x\<rparr>"

text \<open>
  The loop over the batches. \<open>dlv\<close> works on a state of its own (a connection's
  queue); a slice whose bounds do not fit is a panic.
\<close>

function replay_batches ::
  "string \<Rightarrow> StoredOp list \<Rightarrow> int \<Rightarrow> int \<Rightarrow> ('c \<Rightarrow> Replay \<Rightarrow> goerr option \<times> 'c) \<Rightarrow> int \<Rightarrow> 'c \<Rightarrow> goerr option \<times> 'c" where
  "replay_batches docID ops rb tb dlv batch q =
     (if batch < tb then
        (let start = i64 (batch * rb);
             fin0 = i64 (start + rb);
             fin = (if int (length ops) < fin0 then int (length ops) else fin0)
         in if start < 0 \<or> fin < start then (Some (Panic ''slice bounds out of range''), q)
            else
              (let chunk = take (nat (fin - start)) (drop (nat start) ops);
                   msg = NewReplay docID (map replay_op chunk) (batch + 1) tb (batch = tb - 1)
               in case dlv q msg of
                    (Some err, q') \<Rightarrow> (Some err, q')
                  | (None, q') \<Rightarrow> replay_batches docID ops rb tb dlv (batch + 1) q'))
      else (None, q))"
  by pat_completeness auto
termination
  by (relation "measure (\<lambda>(_, _, _, tb, _, batch, _). nat (tb - batch))") auto

declare replay_batches.simps [simp del]

definition Engine_Replay ::
  "'s store_ops \<Rightarrow> Engine \<Rightarrow> eenv \<Rightarrow> string \<Rightarrow> int \<Rightarrow> ('c \<Rightarrow> Replay \<Rightarrow> goerr option \<times> 'c)
     \<Rightarrow> 's \<Rightarrow> 'c \<Rightarrow> goerr option \<times> 'c" where
  "Engine_Replay S c e docID afterSeq dlv s q =
     (case GetOpsSince S (dbe e) docID afterSeq s of
        Inl err \<Rightarrow> (Some (Wrap ''replay: load ops: '' err []), q)
      | Inr ops \<Rightarrow>
          (let total0 = go_quot (i64 (i64 (int (length ops) + e_replayBatch c) - 1)) (e_replayBatch c);
               tb = (if total0 = 0 then 1 else total0)
           in replay_batches docID ops (e_replayBatch c) tb dlv 0 q))"

subsection \<open>The batches of a replay\<close>

text \<open>The number of batches and the messages, as lists.\<close>

definition batch_count :: "nat \<Rightarrow> nat \<Rightarrow> nat" where
  "batch_count rb n = (if n = 0 then 1 else (n + rb - 1) div rb)"

definition replay_msg :: "string \<Rightarrow> StoredOp list \<Rightarrow> nat \<Rightarrow> nat \<Rightarrow> nat \<Rightarrow> Replay" where
  "replay_msg docID ops rb tb i =
     NewReplay docID (map replay_op (take rb (drop (i * rb) ops))) (int i + 1) (int tb) (Suc i = tb)"

definition replay_msgs :: "string \<Rightarrow> StoredOp list \<Rightarrow> nat \<Rightarrow> Replay list" where
  "replay_msgs docID ops rb =
     (let tb = batch_count rb (length ops) in map (replay_msg docID ops rb tb) [0..<tb])"

text \<open>Handing messages over until one is refused.\<close>

fun deliver_all :: "('c \<Rightarrow> Replay \<Rightarrow> goerr option \<times> 'c) \<Rightarrow> Replay list \<Rightarrow> 'c \<Rightarrow> goerr option \<times> 'c" where
  "deliver_all dlv [] q = (None, q)"
| "deliver_all dlv (m # ms) q =
     (case dlv q m of (Some err, q') \<Rightarrow> (Some err, q') | (None, q') \<Rightarrow> deliver_all dlv ms q')"

lemma batch_count_pos: "0 < rb \<Longrightarrow> 0 < batch_count rb n"
  by (auto simp: batch_count_def div_greater_zero_iff)

lemma batch_count_bounds:
  assumes "0 < rb"
  shows "n \<le> batch_count rb n * rb" and "i < batch_count rb n \<Longrightarrow> i * rb \<le> n"
proof -
  show "n \<le> batch_count rb n * rb"
  proof (cases "n = 0")
    case False
    have "n + rb - 1 = (n + rb - 1) div rb * rb + (n + rb - 1) mod rb"
      by (rule div_mult_mod_eq [symmetric])
    moreover have "(n + rb - 1) mod rb < rb" using assms by simp
    ultimately have "n \<le> (n + rb - 1) div rb * rb" using False assms by linarith
    then show ?thesis using False by (simp add: batch_count_def)
  qed simp
  show "i * rb \<le> n" if "i < batch_count rb n"
  proof (cases "n = 0")
    case False
    then have "Suc i \<le> (n + rb - 1) div rb" using that by (simp add: batch_count_def)
    then have "Suc i * rb \<le> n + rb - 1" using assms by (simp add: less_eq_div_iff_mult_less_eq)
    then show ?thesis using assms by simp
  qed (use that in \<open>simp add: batch_count_def\<close>)
qed

lemma slice_end:
  "a \<le> n \<Longrightarrow> nat ((if int n < int (a + r) then int n else int (a + r)) - int a) = min r (n - a)"
  by (auto simp: min_def)

lemma replay_batches_eq:
  assumes rb: "0 < rb" "int (length ops) + int rb \<le> max_i64" and tb: "tb = batch_count rb (length ops)"
    and "b \<le> tb"
  shows "replay_batches docID ops (int rb) (int tb) dlv (int b) q =
     deliver_all dlv (map (replay_msg docID ops rb tb) [b..<tb]) q"
  using assms(4)
proof (induction "tb - b" arbitrary: b q)
  case 0
  then show ?case by (simp add: replay_batches.simps)
next
  case (Suc m)
  then have b: "b < tb" "[b..<tb] = b # [Suc b..<tb]" by (simp_all add: upt_conv_Cons)
  have start: "b * rb \<le> length ops" using batch_count_bounds(2) [OF rb(1)] b(1) tb by simp
  have "int (b * rb) \<le> int (length ops)" using start by (rule of_nat_mono)
  then have "int (b * rb) + int rb \<le> max_i64" "0 \<le> int (b * rb)" using rb(2) by linarith+
  then have wrap: "i64 (int b * int rb) = int (b * rb)" "i64 (int (b * rb) + int rb) = int (b * rb + rb)"
    by (simp_all add: i64_id flip: of_nat_mult of_nat_add)
  let ?fin = "if int (length ops) < int (b * rb + rb) then int (length ops) else int (b * rb + rb)"
  have "0 \<le> int (b * rb)" "int (b * rb) \<le> ?fin" using start by (simp_all del: of_nat_mult)
  then have guard: "(int (b * rb) < 0 \<or> ?fin < int (b * rb)) = False" by (simp only: not_less [symmetric] simp_thms)
  have chunk: "take (nat (?fin - int (b * rb))) (drop (nat (int (b * rb))) ops) = take rb (drop (b * rb) ops)"
    unfolding slice_end [OF start] nat_int by (simp add: min_def)
  have cond: "(int b < int tb) = True" "(int b = int tb - 1) = (Suc b = tb)" using b(1) by auto
  have "replay_batches docID ops (int rb) (int tb) dlv (int b) q =
      (case dlv q (replay_msg docID ops rb tb b) of
         (Some err, q') \<Rightarrow> (Some err, q')
       | (None, q') \<Rightarrow> replay_batches docID ops (int rb) (int tb) dlv (int b + 1) q')"
    by (subst replay_batches.simps) (simp only: cond wrap Let_def if_True if_False guard chunk replay_msg_def)
  moreover have "replay_batches docID ops (int rb) (int tb) dlv (int b + 1) q' =
      deliver_all dlv (map (replay_msg docID ops rb tb) [Suc b..<tb]) q'" for q'
    using Suc.hyps(1) [of "Suc b" q'] Suc.hyps(2) b(1) by (simp add: add.commute)
  ultimately show ?case
    by (simp add: b(2) split: prod.split option.split)
qed

lemma Engine_Replay_eq:
  assumes "0 < e_replayBatch c" "GetOpsSince S (dbe e) docID k s = Inr ops"
    and "int (length ops) + e_replayBatch c \<le> max_i64"
  shows "Engine_Replay S c e docID k dlv s q =
     deliver_all dlv (replay_msgs docID ops (nat (e_replayBatch c))) q"
proof -
  define rb where "rb = nat (e_replayBatch c)"
  have rb: "e_replayBatch c = int rb" "0 < rb" using assms(1) by (simp_all add: rb_def)
  have "i64 (i64 (int (length ops) + int rb) - 1) = int (length ops + rb - 1)"
    using assms(3) rb by (simp add: i64_id of_nat_diff)
  then have t0: "go_quot (i64 (i64 (int (length ops) + int rb) - 1)) (int rb) = int ((length ops + rb - 1) div rb)"
    using rb(2) by (simp add: zdiv_int)
  have tb: "(if int ((length ops + rb - 1) div rb) = 0 then 1 else int ((length ops + rb - 1) div rb)) =
      int (batch_count rb (length ops))"
    using rb(2) by (cases ops) (auto simp: batch_count_def div_eq_0_iff)
  have "replay_batches docID ops (int rb) (int (batch_count rb (length ops))) dlv (int 0) q =
      deliver_all dlv (replay_msgs docID ops rb) q"
    using assms(3) rb by (subst replay_batches_eq) (simp_all add: replay_msgs_def Let_def)
  then show ?thesis
    unfolding Engine_Replay_def assms(2) rb(1) sum.case Let_def t0 tb by simp
qed

lemma concat_batches:
  "concat (map (\<lambda>i. take rb (drop (i * rb) xs)) [0..<n]) = take (n * rb) xs"
proof (induction n)
  case (Suc n)
  then show ?case by (simp add: take_add [symmetric] add.commute)
qed simp

lemma replay_msgs_ops:
  assumes "0 < rb"
  shows "concat (map rp_Ops (replay_msgs docID ops rb)) = map replay_op ops"
proof -
  have "concat (map rp_Ops (replay_msgs docID ops rb)) =
      map replay_op (concat (map (\<lambda>i. take rb (drop (i * rb) ops)) [0..<batch_count rb (length ops)]))"
    by (simp add: replay_msgs_def replay_msg_def NewReplay_def Let_def comp_def map_concat)
  then show ?thesis using batch_count_bounds(1) [OF assms] by (simp add: concat_batches)
qed

end
