(* ===== verification/Metrics.thy ===== *)
theory Metrics
  imports Golib
begin

text \<open>
  \<^verbatim>\<open>internal/metrics/metrics.go\<close>: the counters and their text form. Counters are 64-bit and
  wrap. The theorem gives the exact lines of the text, whatever the document ids are.
\<close>

record Registry =
  connectionsTotal :: int
  connectionsActive :: int
  operationsErrors :: int
  replayOperations :: int
  storageQueryCount :: int
  storageQuerySum :: int   \<comment> \<open>nanoseconds, unsigned\<close>
  operations_by :: "(string \<times> int) list"
  webhookCalls :: "(string \<times> int) list"
  webhookErrors :: "(string \<times> int) list"

definition metrics_New :: Registry where
  "metrics_New =
     \<lparr>connectionsTotal = 0, connectionsActive = 0, operationsErrors = 0, replayOperations = 0,
      storageQueryCount = 0, storageQuerySum = 0, operations_by = [], webhookCalls = [], webhookErrors = []\<rparr>"

definition ConnectionOpened :: "Registry \<Rightarrow> Registry" where
  "ConnectionOpened r =
     r\<lparr>connectionsTotal := i64 (connectionsTotal r + 1), connectionsActive := i64 (connectionsActive r + 1)\<rparr>"

definition ConnectionClosed :: "Registry \<Rightarrow> Registry" where
  "ConnectionClosed r = r\<lparr>connectionsActive := i64 (connectionsActive r - 1)\<rparr>"

definition count_in :: "string \<Rightarrow> (string \<times> int) list \<Rightarrow> (string \<times> int) list" where
  "count_in k m = map_put k (i64 (map_get 0 m k + 1)) m"

definition Operation :: "string \<Rightarrow> Registry \<Rightarrow> Registry" where
  "Operation docID r = r\<lparr>operations_by := count_in docID (operations_by r)\<rparr>"

definition OperationError :: "Registry \<Rightarrow> Registry" where
  "OperationError r = r\<lparr>operationsErrors := i64 (operationsErrors r + 1)\<rparr>"

definition ReplayOps :: "int \<Rightarrow> Registry \<Rightarrow> Registry" where
  "ReplayOps n r = r\<lparr>replayOperations := i64 (replayOperations r + n)\<rparr>"

definition WebhookCall :: "string \<Rightarrow> Registry \<Rightarrow> Registry" where
  "WebhookCall event r = r\<lparr>webhookCalls := count_in event (webhookCalls r)\<rparr>"

definition WebhookError :: "string \<Rightarrow> Registry \<Rightarrow> Registry" where
  "WebhookError event r = r\<lparr>webhookErrors := count_in event (webhookErrors r)\<rparr>"

definition StorageQuery :: "int \<Rightarrow> Registry \<Rightarrow> Registry" where
  "StorageQuery d r =
     r\<lparr>storageQueryCount := i64 (storageQueryCount r + 1),
       storageQuerySum := (storageQuerySum r + d) mod 2 ^ 64\<rparr>"

section \<open>Render\<close>

abbreviation nl :: char where "nl \<equiv> CHR 0x0A"

definition write_head :: "string \<Rightarrow> string \<Rightarrow> string \<Rightarrow> string" where
  "write_head name help kind =
     ''# HELP '' @ name @ '' '' @ help @ [nl] @ ''# TYPE '' @ name @ '' '' @ kind @ [nl]"

definition writeCounter :: "string \<Rightarrow> string \<Rightarrow> int \<Rightarrow> string" where
  "writeCounter name help v = write_head name help ''counter'' @ name @ '' '' @ Itoa v @ [nl]"

definition writeGauge :: "string \<Rightarrow> string \<Rightarrow> int \<Rightarrow> string" where
  "writeGauge name help v = write_head name help ''gauge'' @ name @ '' '' @ Itoa v @ [nl]"

definition label_text :: "string \<Rightarrow> string \<Rightarrow> string \<times> int \<Rightarrow> string" where
  "label_text name label kv = name @ ''{'' @ label @ ''='' @ Quote (fst kv) @ ''} '' @ Itoa (snd kv)"

definition labeled_line :: "string \<Rightarrow> string \<Rightarrow> string \<times> int \<Rightarrow> string" where
  "labeled_line name label kv = label_text name label kv @ [nl]"

definition writeLabeledCounter :: "string \<Rightarrow> string \<Rightarrow> string \<Rightarrow> (string \<times> int) list \<Rightarrow> string" where
  "writeLabeledCounter name help label values =
     write_head name help ''counter'' @ concat (map (labeled_line name label) (sort_key fst values))"

text \<open>
  \<open>fmt_g\<close> is Go's \<^verbatim>\<open>%g\<close> applied to a number of nanoseconds divided by \<^verbatim>\<open>1e9\<close>.
\<close>

definition write_storage :: "(int \<Rightarrow> string) \<Rightarrow> int \<Rightarrow> int \<Rightarrow> string" where
  "write_storage fmt_g count total_ns =
     ''# HELP opensynccrdt_storage_query_duration_seconds Storage query duration.'' @ [nl] @
     ''# TYPE opensynccrdt_storage_query_duration_seconds summary'' @ [nl] @
     ''opensynccrdt_storage_query_duration_seconds_count '' @ Itoa count @ [nl] @
     ''opensynccrdt_storage_query_duration_seconds_sum '' @ fmt_g total_ns @ [nl]"

definition Render :: "(int \<Rightarrow> string) \<Rightarrow> Registry \<Rightarrow> string" where
  "Render fmt_g r =
     writeCounter ''opensynccrdt_connections_total'' ''Total WebSocket connections opened.'' (connectionsTotal r) @
     writeGauge ''opensynccrdt_connections_active'' ''WebSocket connections currently open.'' (connectionsActive r) @
     writeLabeledCounter ''opensynccrdt_operations_total'' ''Total committed operations.'' ''doc_id'' (operations_by r) @
     writeCounter ''opensynccrdt_operations_errors_total'' ''Total operations that failed to apply.'' (operationsErrors r) @
     writeLabeledCounter ''opensynccrdt_webhook_calls_total'' ''Total webhook delivery attempts.'' ''event'' (webhookCalls r) @
     writeLabeledCounter ''opensynccrdt_webhook_errors_total'' ''Total webhook deliveries that failed after retries.''
       ''event'' (webhookErrors r) @
     write_storage fmt_g (storageQueryCount r) (storageQuerySum r) @
     writeCounter ''opensynccrdt_replay_operations_total'' ''Total operations delivered during replay.'' (replayOperations r)"

section \<open>Lines\<close>

text \<open>A text as its lines, each closed by a newline.\<close>

fun lines_of :: "string \<Rightarrow> string list" where
  "lines_of [] = []"
| "lines_of (c # cs) =
     (if c = nl then [] # lines_of cs
      else case lines_of cs of [] \<Rightarrow> [[c]] | l # ls \<Rightarrow> (c # l) # ls)"

lemma lines_of_line: "nl \<notin> set s \<Longrightarrow> lines_of (s @ nl # t) = s # lines_of t"
  by (induction s) auto

lemma hex_digit_not_nl [simp]: "d < 16 \<Longrightarrow> hex_digit d \<noteq> nl"
proof
  assume "d < 16" "hex_digit d = nl"
  then show False using hex_digit_small [of d] by (auto split: if_splits)
qed

lemma quote_ascii_no_nl: "nl \<notin> set (quote_ascii c)"
  by (auto simp: quote_ascii_def x2_def dest: sym)

lemma continuation_bytes:
  "rune2 b cs = Some (r, n) \<Longrightarrow> \<forall>x \<in> set (take (n - 1) cs). 128 \<le> (of_char x :: nat)"
  "rune3 b cs = Some (r, n) \<Longrightarrow> \<forall>x \<in> set (take (n - 1) cs). 128 \<le> (of_char x :: nat)"
  "rune4 b cs = Some (r, n) \<Longrightarrow> \<forall>x \<in> set (take (n - 1) cs). 128 \<le> (of_char x :: nat)"
  by (auto simp: rune2_def rune3_def rune4_def Let_def in_range_def split: list.splits if_splits)

lemma utf8_take_no_nl:
  assumes "utf8_DecodeRune (c # cs) = (r, n)" "1 < n" "128 \<le> (of_char c :: nat)"
  shows "nl \<notin> set (take n (c # cs))"
proof -
  obtain m where m: "n = Suc m" using assms(2) by (cases n) auto
  have "\<forall>x \<in> set (take (n - 1) cs). 128 \<le> (of_char x :: nat)"
    using assms continuation_bytes [of "of_char c" cs r n] by (auto simp: Let_def split: option.splits)
  with assms(3) m show ?thesis by fastforce
qed

lemma escapes_no_nl [simp]: "nl \<notin> set (x2 n)" "nl \<notin> set (u4 n)"
  using hex_digit_not_nl [THEN not_sym] by (simp_all add: x2_def u4_def)

lemma quote_no_nl [simp]: "nl \<notin> set (Quote s)"
proof -
  have "nl \<notin> set (quote_body s)"
  proof (induction s rule: quote_body.induct)
    case (2 c cs)
    show ?case
    proof (cases "(of_char c :: nat) < 128")
      case True
      with "2.IH"(1) show ?thesis by (simp add: quote_ascii_no_nl)
    next
      case False
      obtain r n where rn: "utf8_DecodeRune (c # cs) = (r, n)" by fastforce
      have "nl \<notin> set (if n \<le> 1 then x2 (of_char c) else if r < 160 \<or> r = 173 then u4 r else take n (c # cs))"
        using utf8_take_no_nl [OF rn] False by (simp del: set_simps take_Suc_Cons add: not_le)
      with "2.IH"(2) [OF False rn [symmetric]] False rn show ?thesis by (simp del: utf8_DecodeRune.simps)
    qed
  qed simp
  then show ?thesis by (simp add: Quote_def)
qed

lemma Itoa_no_nl [simp]: "nl \<notin> set (Itoa i)"
proof -
  have "nl \<notin> set (nat_digits n)" for n using nat_digits_digits [of nl n] by (auto simp: is_digit_def)
  then show ?thesis by (simp add: Itoa_def)
qed

section \<open>Properties\<close>

lemma lines_of_append: "s = [] \<or> last s = nl \<Longrightarrow> lines_of (s @ t) = lines_of s @ lines_of t"
proof (induction s)
  case (Cons c s)
  show ?case
  proof (cases "s = []")
    case False
    with Cons.prems have l: "last s = nl" by simp
    have "lines_of s \<noteq> []" using False by (cases s) (auto split: list.splits)
    with Cons.IH l show ?thesis by (auto split: list.splits)
  qed (use Cons.prems in simp)
qed simp

text \<open>The lines of one family of the text.\<close>

lemma lines_write_head:
  "nl \<notin> set name \<Longrightarrow> nl \<notin> set help \<Longrightarrow> nl \<notin> set kind \<Longrightarrow>
     lines_of (write_head name help kind @ t) =
       (''# HELP '' @ name @ '' '' @ help) # (''# TYPE '' @ name @ '' '' @ kind) # lines_of t"
  using lines_of_line [of "''# HELP '' @ name @ '' '' @ help"] lines_of_line [of "''# TYPE '' @ name @ '' '' @ kind" t]
  by (simp add: write_head_def)

lemma lines_labeled:
  assumes "nl \<notin> set name" "nl \<notin> set label"
  shows "lines_of (concat (map (labeled_line name label) kvs) @ t) = map (label_text name label) kvs @ lines_of t"
proof (induction kvs)
  case (Cons kv kvs)
  have "nl \<notin> set (label_text name label kv)" using assms by (simp add: label_text_def)
  from lines_of_line [OF this, of "concat (map (labeled_line name label) kvs) @ t"] Cons.IH show ?case
    by (simp add: labeled_line_def [of _ _ kv])
qed simp

lemma lines_value: "nl \<notin> set name \<Longrightarrow> nl \<notin> set v \<Longrightarrow> lines_of (name @ '' '' @ v @ nl # t) = (name @ '' '' @ v) # lines_of t"
  using lines_of_line [of "name @ '' '' @ v" t] by simp

lemma lines_counter:
  assumes "nl \<notin> set name" "nl \<notin> set help"
  shows "lines_of (writeCounter name help v @ t) =
      [''# HELP '' @ name @ '' '' @ help, ''# TYPE '' @ name @ '' counter'', name @ '' '' @ Itoa v] @ lines_of t"
    and "lines_of (writeGauge name help v @ t) =
      [''# HELP '' @ name @ '' '' @ help, ''# TYPE '' @ name @ '' gauge'', name @ '' '' @ Itoa v] @ lines_of t"
  using assms lines_write_head [of name "help" _ "name @ '' '' @ Itoa v @ nl # t"] lines_value [of name "Itoa v" t]
  by (simp_all add: writeCounter_def writeGauge_def)

lemma lines_labeled_counter:
  assumes "nl \<notin> set name" "nl \<notin> set help" "nl \<notin> set label"
  shows "lines_of (writeLabeledCounter name help label kvs @ t) =
      [''# HELP '' @ name @ '' '' @ help, ''# TYPE '' @ name @ '' counter'']
      @ map (label_text name label) (sort_key fst kvs) @ lines_of t"
  using assms lines_labeled [of name label "sort_key fst kvs" t]
    lines_write_head [of name "help" "''counter''" "concat (map (labeled_line name label) (sort_key fst kvs)) @ t"]
  by (simp add: writeLabeledCounter_def)

lemma lines_pair: "nl \<notin> set a \<Longrightarrow> nl \<notin> set b \<Longrightarrow> lines_of (a @ b @ [nl] @ t) = (a @ b) # lines_of t"
  using lines_of_line [of "a @ b" t] by simp

lemma lines_storage:
  assumes "nl \<notin> set (fmt_g s)"
  shows "lines_of (write_storage fmt_g n s @ t) =
      [''# HELP opensynccrdt_storage_query_duration_seconds Storage query duration.'',
       ''# TYPE opensynccrdt_storage_query_duration_seconds summary'',
       ''opensynccrdt_storage_query_duration_seconds_count '' @ Itoa n,
       ''opensynccrdt_storage_query_duration_seconds_sum '' @ fmt_g s] @ lines_of t"
proof -
  have four: "lines_of (a @ [nl] @ b @ [nl] @ c @ Itoa n @ [nl] @ d @ fmt_g s @ [nl] @ t) =
      [a, b, c @ Itoa n, d @ fmt_g s] @ lines_of t"
    if "nl \<notin> set a" "nl \<notin> set b" "nl \<notin> set c" "nl \<notin> set d" for a b c d
    using that assms lines_of_line [of a] lines_of_line [of b] by (simp add: lines_pair [simplified])
  show ?thesis unfolding write_storage_def append_assoc by (rule four) simp_all
qed

text \<open>
  C34: The metrics text is exactly these lines, in this order, whatever the document ids and
  event names contain: for each metric its help and its type, then its value, or one line
  for each label in the order of the labels with the label quoted. An id with newlines or
  quotes cannot add, split or forge a line, and every value stands under its own name.
\<close>

theorem metrics_lines:
  assumes "nl \<notin> set (fmt_g (storageQuerySum r))"
  shows "lines_of (Render fmt_g r) =
     [''# HELP opensynccrdt_connections_total Total WebSocket connections opened.'',
      ''# TYPE opensynccrdt_connections_total counter'',
      ''opensynccrdt_connections_total '' @ Itoa (connectionsTotal r),
      ''# HELP opensynccrdt_connections_active WebSocket connections currently open.'',
      ''# TYPE opensynccrdt_connections_active gauge'',
      ''opensynccrdt_connections_active '' @ Itoa (connectionsActive r),
      ''# HELP opensynccrdt_operations_total Total committed operations.'',
      ''# TYPE opensynccrdt_operations_total counter'']
   @ map (\<lambda>(d, n). ''opensynccrdt_operations_total{doc_id='' @ Quote d @ ''} '' @ Itoa n) (sort_key fst (operations_by r))
   @ [''# HELP opensynccrdt_operations_errors_total Total operations that failed to apply.'',
      ''# TYPE opensynccrdt_operations_errors_total counter'',
      ''opensynccrdt_operations_errors_total '' @ Itoa (operationsErrors r),
      ''# HELP opensynccrdt_webhook_calls_total Total webhook delivery attempts.'',
      ''# TYPE opensynccrdt_webhook_calls_total counter'']
   @ map (\<lambda>(ev, n). ''opensynccrdt_webhook_calls_total{event='' @ Quote ev @ ''} '' @ Itoa n) (sort_key fst (webhookCalls r))
   @ [''# HELP opensynccrdt_webhook_errors_total Total webhook deliveries that failed after retries.'',
      ''# TYPE opensynccrdt_webhook_errors_total counter'']
   @ map (\<lambda>(ev, n). ''opensynccrdt_webhook_errors_total{event='' @ Quote ev @ ''} '' @ Itoa n) (sort_key fst (webhookErrors r))
   @ [''# HELP opensynccrdt_storage_query_duration_seconds Storage query duration.'',
      ''# TYPE opensynccrdt_storage_query_duration_seconds summary'',
      ''opensynccrdt_storage_query_duration_seconds_count '' @ Itoa (storageQueryCount r),
      ''opensynccrdt_storage_query_duration_seconds_sum '' @ fmt_g (storageQuerySum r),
      ''# HELP opensynccrdt_replay_operations_total Total operations delivered during replay.'',
      ''# TYPE opensynccrdt_replay_operations_total counter'',
      ''opensynccrdt_replay_operations_total '' @ Itoa (replayOperations r)]"
proof -
  have last: "lines_of (writeCounter name hlp c) =
      [''# HELP '' @ name @ '' '' @ hlp, ''# TYPE '' @ name @ '' counter'', name @ '' '' @ Itoa c]"
    if "nl \<notin> set name" "nl \<notin> set hlp" for name hlp c
    using lines_counter(1) [OF that, of c "[]"] by simp
  have labels: "map (label_text name label) kvs = map (\<lambda>(k, n). name @ ''{'' @ label @ ''='' @ Quote k @ ''} '' @ Itoa n) kvs"
    for name label kvs by (simp add: label_text_def case_prod_beta)
  note rp = last [of "''opensynccrdt_replay_operations_total''" "''Total operations delivered during replay.''", simplified]
  show ?thesis
    unfolding Render_def by (simp add: lines_counter lines_labeled_counter labels lines_storage assms rp)
qed

theorem metrics_lines_witness:
  "length (lines_of (Render (\<lambda>_. ''0'') (Operation [nl] metrics_New))) = 23
   \<and> lines_of (Render (\<lambda>_. ''0'') (Operation [nl] metrics_New)) ! 8 = ''opensynccrdt_operations_total{doc_id='' @ Quote [nl] @ ''} 1''"
proof -
  let ?r = "Operation [nl] metrics_New"
  have r: "operations_by ?r = [([nl], 1)]" "webhookCalls ?r = []" "webhookErrors ?r = []"
    by (simp_all add: Operation_def metrics_New_def count_in_def map_put_def map_get_def i64_id max_i64_def)
  have "Itoa 1 = ''1''" by code_simp
  with metrics_lines [of "\<lambda>_. ''0''" ?r] show ?thesis by (simp add: r)
qed

end
