(* ===== verification/Hub.thy ===== *)
theory Hub
  imports Auth Sync_Engine Metrics
begin

text \<open>
  \<^verbatim>\<open>internal/server/hub.go\<close> and the part of \<^verbatim>\<open>connection.go\<close> it works on: a connection with its
  bounded send queue and its subscriptions, and the hub with the subscribers of each
  document and the count of connections. A connection is a number; \<open>conns\<close> holds the
  connections made so far. The set of a document's subscribers is a list, in the order a
  range over Go's map may take.
\<close>

section \<open>A connection's state and queue\<close>

definition sendQueueSize :: nat where "sendQueueSize = 256"

definition StatusNormalClosure :: int where "StatusNormalClosure = 1000"
definition StatusPolicyViolation :: int where "StatusPolicyViolation = 1008"
definition StatusInternalError :: int where "StatusInternalError = 1011"

text \<open>
  \<open>cn_closed\<close> is \<open>None\<close> until \<^verbatim>\<open>close\<close> has run and holds its code and reason afterwards; the
  channel \<^verbatim>\<open>done\<close> is closed exactly then. \<open>cn_wire\<close> are the frames the write loop has handed to
  the WebSocket.
\<close>

record conn =
  cn_codec :: codec
  cn_identity :: Identity
  cn_remoteAddr :: string
  cn_connectedAt :: int
  cn_send :: "frame list"
  cn_closed :: "(int \<times> string) option"
  cn_subs :: "(string \<times> string) list"
  cn_wire :: "frame list"

definition newConn :: "codec \<Rightarrow> Identity \<Rightarrow> string \<Rightarrow> int \<Rightarrow> conn" where
  "newConn cd ident remoteAddr t =
     \<lparr>cn_codec = cd, cn_identity = ident, cn_remoteAddr = remoteAddr, cn_connectedAt = t, cn_send = [],
      cn_closed = None, cn_subs = [], cn_wire = []\<rparr>"

abbreviation is_done :: "conn \<Rightarrow> bool" where
  "is_done c \<equiv> cn_closed c \<noteq> None"

definition close :: "int \<Rightarrow> string \<Rightarrow> conn \<Rightarrow> conn" where
  "close code reason c = (if is_done c then c else c\<lparr>cn_closed := Some (code, reason)\<rparr>)"

text \<open>
  \<^verbatim>\<open>enqueueErr\<close>. When the connection is already closed and the queue has room, the select
  statement may take either branch; \<open>pick\<close> says which.
\<close>

definition enqueueErr :: "bool \<Rightarrow> outmsg \<Rightarrow> conn \<Rightarrow> goerr option \<times> conn" where
  "enqueueErr pick msg c =
     (let frame = Encode (cn_codec c) msg; room = (length (cn_send c) < sendQueueSize) in
      if is_done c \<and> (\<not> room \<or> \<not> pick) then (None, c)
      else if room then (None, c\<lparr>cn_send := cn_send c @ [frame]\<rparr>)
      else (Some ContextCanceled, close StatusPolicyViolation ''send queue full'' c))"

definition enqueue :: "bool \<Rightarrow> outmsg \<Rightarrow> conn \<Rightarrow> conn" where
  "enqueue pick msg c = snd (enqueueErr pick msg c)"

definition sessionFor :: "conn \<Rightarrow> string \<Rightarrow> string" where
  "sessionFor c docID = map_get [] (cn_subs c) docID"

definition subscriptions :: "conn \<Rightarrow> (string \<times> string) list" where
  "subscriptions c = cn_subs c"

type_synonym conns = "nat \<rightharpoonup> conn"

section \<open>The hub\<close>

record hub =
  h_docs :: "string \<rightharpoonup> nat list"
  h_active :: int

definition newHub :: hub where
  "newHub = \<lparr>h_docs = Map.empty, h_active = 0\<rparr>"

definition tryRegister :: "int \<Rightarrow> hub \<Rightarrow> bool \<times> hub" where
  "tryRegister mx h =
     (if 0 < mx \<and> mx \<le> h_active h then (False, h) else (True, h\<lparr>h_active := h_active h + 1\<rparr>))"

definition release :: "hub \<Rightarrow> hub" where
  "release h = (if 0 < h_active h then h\<lparr>h_active := h_active h - 1\<rparr> else h)"

text \<open>The loop of \<^verbatim>\<open>deregister\<close> over the connection's documents; it collects those left empty.\<close>

fun remove_from :: "nat \<Rightarrow> string list \<Rightarrow> (string \<rightharpoonup> nat list) \<Rightarrow> (string \<rightharpoonup> nat list) \<times> string list" where
  "remove_from c [] docs = (docs, [])"
| "remove_from c (d # ds) docs =
     (case docs d of
        None \<Rightarrow> remove_from c ds docs
      | Some cs \<Rightarrow>
          (let cs' = filter (\<lambda>x. x \<noteq> c) cs in
           if cs' = [] then (case remove_from c ds (docs(d := None)) of (docs', emptied) \<Rightarrow> (docs', d # emptied))
           else remove_from c ds (docs(d \<mapsto> cs'))))"

text \<open>\<^verbatim>\<open>deregister\<close> returns the documents to report to the observer.\<close>

definition deregister :: "nat \<Rightarrow> conn \<Rightarrow> hub \<Rightarrow> hub \<times> string list" where
  "deregister cid c h =
     (case remove_from cid (map fst (subscriptions c)) (h_docs h) of (docs, emptied) \<Rightarrow>
        (\<lparr>h_docs = docs, h_active = (if 0 < h_active h then h_active h - 1 else h_active h)\<rparr>, emptied))"

text \<open>\<^verbatim>\<open>subscribe\<close> returns whether the connection is the document's first.\<close>

definition subscribe :: "string \<Rightarrow> nat \<Rightarrow> hub \<Rightarrow> hub \<times> bool" where
  "subscribe docID cid h =
     (let cs = (case h_docs h docID of None \<Rightarrow> [] | Some cs \<Rightarrow> cs) in
      (h\<lparr>h_docs := (h_docs h)(docID \<mapsto> (if cid \<in> set cs then cs else cs @ [cid]))\<rparr>, h_docs h docID = None))"

definition targets :: "hub \<Rightarrow> string \<Rightarrow> nat list" where
  "targets h docID = (case h_docs h docID of None \<Rightarrow> [] | Some cs \<Rightarrow> cs)"

text \<open>One target of a broadcast. The caller's \<open>pick\<close> is as in \<^const>\<open>enqueueErr\<close>.\<close>

definition send_sync ::
  "(nat \<Rightarrow> outmsg \<Rightarrow> bool) \<Rightarrow> string \<Rightarrow> string \<Rightarrow> ServerSync \<Rightarrow> nat \<Rightarrow> conns \<Rightarrow> conns" where
  "send_sync pick docID exceptSession msg cid cs =
     (case cs cid of
        None \<Rightarrow> cs
      | Some c \<Rightarrow>
          if sessionFor c docID = exceptSession then cs
          else cs(cid \<mapsto> enqueue (pick cid (OutSync msg)) (OutSync msg) c))"

definition Hub_Broadcast ::
  "(nat \<Rightarrow> outmsg \<Rightarrow> bool) \<Rightarrow> string \<Rightarrow> string \<Rightarrow> ServerSync \<Rightarrow> hub \<Rightarrow> conns \<Rightarrow> conns" where
  "Hub_Broadcast pick docID exceptSession msg h cs =
     fold (send_sync pick docID exceptSession msg) (targets h docID) cs"

section \<open>The queue\<close>

lemma close_sel [simp]:
  "cn_send (close code reason c) = cn_send c" "cn_subs (close code reason c) = cn_subs c"
  "cn_wire (close code reason c) = cn_wire c" "cn_codec (close code reason c) = cn_codec c"
  "cn_identity (close code reason c) = cn_identity c" "is_done (close code reason c)"
  by (auto simp: close_def)

lemma enqueueErr_cases:
  obtains (queued) "length (cn_send c) < sendQueueSize"
      "enqueueErr pick msg c = (None, c\<lparr>cn_send := cn_send c @ [Encode (cn_codec c) msg]\<rparr>)"
    | (dropped) "is_done c" "enqueueErr pick msg c = (None, c)"
    | (full) "\<not> is_done c" "length (cn_send c) \<ge> sendQueueSize"
        "enqueueErr pick msg c = (Some ContextCanceled, close StatusPolicyViolation ''send queue full'' c)"
  by (fastforce simp: enqueueErr_def Let_def not_less split: if_splits)

lemma enqueue_sel [simp]:
  "cn_subs (enqueue pick msg c) = cn_subs c" "cn_wire (enqueue pick msg c) = cn_wire c"
  "cn_codec (enqueue pick msg c) = cn_codec c" "cn_identity (enqueue pick msg c) = cn_identity c"
  by (rule enqueueErr_cases [of c pick msg]; simp add: enqueue_def)+

lemma enqueue_done: "is_done c \<Longrightarrow> is_done (enqueue pick msg c)"
  by (rule enqueueErr_cases [of c pick msg]) (simp_all add: enqueue_def)

lemma enqueue_queue_bound: "length (cn_send c) \<le> sendQueueSize \<Longrightarrow> length (cn_send (enqueue pick msg c)) \<le> sendQueueSize"
  by (rule enqueueErr_cases [of c pick msg]) (simp_all add: enqueue_def)

text \<open>A live connection gets the frame at the end of its queue or is closed.\<close>

lemma enqueue_live:
  "is_done (enqueue pick msg c) \<or> cn_send (enqueue pick msg c) = cn_send c @ [Encode (cn_codec c) msg]"
  by (rule enqueueErr_cases [of c pick msg]) (simp_all add: enqueue_def)

lemma enqueue_prefix: "\<exists>xs. cn_send (enqueue pick msg c) = cn_send c @ xs"
  by (rule enqueueErr_cases [of c pick msg]) (simp_all add: enqueue_def)

section \<open>The set of subscribers\<close>

definition docs_ok_hub :: "(string \<rightharpoonup> nat list) \<Rightarrow> bool" where
  "docs_ok_hub docs \<longleftrightarrow> (\<forall>d cs. docs d = Some cs \<longrightarrow> cs \<noteq> [] \<and> distinct cs)"

definition hub_ok :: "hub \<Rightarrow> bool" where
  "hub_ok h \<longleftrightarrow> docs_ok_hub (h_docs h) \<and> 0 \<le> h_active h"

lemma hub_ok_new [simp]: "hub_ok newHub"
  by (simp add: hub_ok_def newHub_def docs_ok_hub_def)

lemma targets_distinct: "hub_ok h \<Longrightarrow> distinct (targets h d)"
  by (auto simp: hub_ok_def docs_ok_hub_def targets_def split: option.splits)

lemma tryRegister_ok: "hub_ok h \<Longrightarrow> hub_ok (snd (tryRegister mx h)) \<and> targets (snd (tryRegister mx h)) d = targets h d"
  by (simp add: hub_ok_def tryRegister_def targets_def)

lemma release_ok: "hub_ok h \<Longrightarrow> hub_ok (release h) \<and> targets (release h) d = targets h d"
  by (simp add: hub_ok_def release_def targets_def)

lemma subscribe_ok: "hub_ok h \<Longrightarrow> hub_ok (fst (subscribe d c h))"
  by (auto simp: hub_ok_def docs_ok_hub_def subscribe_def Let_def split: option.splits if_splits)

lemma set_targets_subscribe:
  "set (targets (fst (subscribe d c h)) d') = (if d' = d then insert c (set (targets h d)) else set (targets h d'))"
  by (auto simp: subscribe_def targets_def Let_def split: option.splits)

lemma subscribe_active [simp]: "h_active (fst (subscribe d c h)) = h_active h"
  by (simp add: subscribe_def Let_def)

definition members :: "(string \<rightharpoonup> nat list) \<Rightarrow> string \<Rightarrow> nat list" where
  "members docs d = (case docs d of None \<Rightarrow> [] | Some cs \<Rightarrow> cs)"

definition drop_one :: "nat \<Rightarrow> string \<Rightarrow> (string \<rightharpoonup> nat list) \<Rightarrow> (string \<rightharpoonup> nat list)" where
  "drop_one c d docs =
     (case docs d of None \<Rightarrow> docs
      | Some cs \<Rightarrow> if filter (\<lambda>x. x \<noteq> c) cs = [] then docs(d := None) else docs(d \<mapsto> filter (\<lambda>x. x \<noteq> c) cs))"

lemma remove_from_Cons: "fst (remove_from c (d # ds) docs) = fst (remove_from c ds (drop_one c d docs))"
  by (cases "docs d") (simp_all add: drop_one_def Let_def case_prod_beta)

lemma members_drop_one:
  "members (drop_one c d docs) d' = (if d' = d then filter (\<lambda>x. x \<noteq> c) (members docs d) else members docs d')"
  by (cases "docs d") (simp_all add: drop_one_def members_def)

lemma drop_one_ok:
  assumes "docs_ok_hub docs"
  shows "docs_ok_hub (drop_one c d docs)"
proof (cases "docs d")
  case None
  with assms show ?thesis by (simp add: drop_one_def)
next
  case (Some cs)
  then have "distinct cs" using assms by (simp add: docs_ok_hub_def)
  with Some assms show ?thesis by (simp add: drop_one_def docs_ok_hub_def)
qed

lemma remove_from_members:
  "members (fst (remove_from c ds docs)) d =
     (if d \<in> set ds then filter (\<lambda>x. x \<noteq> c) (members docs d) else members docs d)"
proof (induction ds arbitrary: docs)
  case (Cons d' ds)
  show ?case unfolding remove_from_Cons Cons.IH members_drop_one by simp
qed simp

lemma remove_from_ok: "docs_ok_hub docs \<Longrightarrow> docs_ok_hub (fst (remove_from c ds docs))"
proof (induction ds arbitrary: docs)
  case (Cons d' ds)
  show ?case unfolding remove_from_Cons by (rule Cons.IH [OF drop_one_ok [OF Cons.prems]])
qed simp

lemma targets_deregister:
  "targets (fst (deregister cid c h)) d =
     (if d \<in> fst ` set (cn_subs c) then filter (\<lambda>x. x \<noteq> cid) (targets h d) else targets h d)"
  using remove_from_members [of cid "map fst (cn_subs c)" "h_docs h" d]
  unfolding members_def by (simp add: deregister_def targets_def case_prod_beta subscriptions_def)

lemma deregister_ok: "hub_ok h \<Longrightarrow> hub_ok (fst (deregister cid c h))"
  by (simp add: hub_ok_def deregister_def case_prod_beta remove_from_ok)

section \<open>Who gets a broadcast\<close>

text \<open>What a broadcast does to a connection it finds among the targets.\<close>

definition sync_sent :: "(nat \<Rightarrow> outmsg \<Rightarrow> bool) \<Rightarrow> string \<Rightarrow> string \<Rightarrow> ServerSync \<Rightarrow> nat \<Rightarrow> conn \<Rightarrow> conn" where
  "sync_sent pick d x msg i c =
     (if sessionFor c d = x then c else enqueue (pick i (OutSync msg)) (OutSync msg) c)"

lemma send_sync_at:
  "send_sync pick d x msg t cs i = (if i = t then map_option (sync_sent pick d x msg i) (cs i) else cs i)"
  by (cases "cs t") (simp_all add: send_sync_def sync_sent_def)

lemma fold_send_sync:
  "distinct ts \<Longrightarrow> fold (send_sync pick d x msg) ts cs i =
     (if i \<in> set ts then map_option (sync_sent pick d x msg i) (cs i) else cs i)"
  by (induction ts arbitrary: cs) (auto simp: send_sync_at)

lemma Hub_Broadcast_at:
  "hub_ok h \<Longrightarrow> Hub_Broadcast pick d x msg h cs i =
     (if i \<in> set (targets h d) then map_option (sync_sent pick d x msg i) (cs i) else cs i)"
  unfolding Hub_Broadcast_def by (rule fold_send_sync [OF targets_distinct])

lemma sync_sent_sel [simp]:
  "cn_subs (sync_sent pick d x msg i c) = cn_subs c" "cn_wire (sync_sent pick d x msg i c) = cn_wire c"
  "cn_codec (sync_sent pick d x msg i c) = cn_codec c" "cn_identity (sync_sent pick d x msg i c) = cn_identity c"
  by (simp_all add: sync_sent_def)

end
