(* ===== verification/Connection.thy ===== *)
theory Connection
  imports Hub
begin

text \<open>
  \<^verbatim>\<open>internal/server/connection.go\<close>: what a connection does with each message it reads, its write
  and keep-alive loops, and the start and end of \<^verbatim>\<open>serve\<close>. A handler works on the \<open>world\<close>: the
  hub, the connections, the engine's state, the metrics, the cache of the authenticator
  and, in order, what was sent outside (\<open>w_trace\<close>). The engine's broadcasts go to the
  broadcaster of the wiring: the hub, or the cluster node in front of it.
\<close>

section \<open>The world of a server\<close>

datatype outside =
    Sent effect                \<comment> \<open>an event to the emitter or a call of the resolver\<close>
  | DocActive string           \<comment> \<open>\<^verbatim>\<open>observer.OnDocActive\<close>\<close>
  | DocInactive string         \<comment> \<open>\<^verbatim>\<open>observer.OnDocInactive\<close>\<close>
  | Published string string    \<comment> \<open>a message on a Redis channel\<close>

record ('s, 'd) world =
  w_hub :: hub
  w_conns :: conns
  w_engine :: "('s, 'd) estate"
  w_metrics :: Registry
  w_cache :: cache
  w_trace :: "outside list"
  w_next :: nat

text \<open>
  \<^verbatim>\<open>serverDeps\<close> and what the engine was built with. The broadcaster takes the choices of
  \<^const>\<open>enqueueErr\<close> first.
\<close>

record ('s, 'd) serverDeps =
  dp_store :: "'s store_ops"
  dp_automerge :: "'d automerge"
  dp_engine :: Engine
  dp_emitter :: bool
  dp_metrics :: bool
  dp_observer :: bool
  dp_limits :: LimitsConfig
  dp_broadcast :: "(nat \<Rightarrow> outmsg \<Rightarrow> bool) \<Rightarrow> string \<Rightarrow> string \<Rightarrow> ServerSync \<Rightarrow> ('s, 'd) world \<Rightarrow> ('s, 'd) world"

text \<open>What one message's handling meets: the engine's environment, the choices of the selects, the clock.\<close>

record henv =
  he_engine :: eenv
  he_pick :: "nat \<Rightarrow> outmsg \<Rightarrow> bool"
  he_now :: int

definition conn_at :: "('s, 'd) world \<Rightarrow> nat \<Rightarrow> conn" where
  "conn_at w cid = (case w_conns w cid of Some c \<Rightarrow> c | None \<Rightarrow> newConn JSONCodec no_identity [] 0)"

definition upd_conn :: "nat \<Rightarrow> (conn \<Rightarrow> conn) \<Rightarrow> ('s, 'd) world \<Rightarrow> ('s, 'd) world" where
  "upd_conn cid f w = w\<lparr>w_conns := (w_conns w)(cid := map_option f (w_conns w cid))\<rparr>"

definition outside :: "outside list \<Rightarrow> ('s, 'd) world \<Rightarrow> ('s, 'd) world" where
  "outside xs w = w\<lparr>w_trace := w_trace w @ xs\<rparr>"

definition tally :: "('s, 'd) serverDeps \<Rightarrow> (Registry \<Rightarrow> Registry) \<Rightarrow> ('s, 'd) world \<Rightarrow> ('s, 'd) world" where
  "tally D f w = (if dp_metrics D then w\<lparr>w_metrics := f (w_metrics w)\<rparr> else w)"

definition reply :: "henv \<Rightarrow> nat \<Rightarrow> outmsg \<Rightarrow> ('s, 'd) world \<Rightarrow> ('s, 'd) world" where
  "reply e cid msg w = upd_conn cid (enqueue (he_pick e cid msg) msg) w"

definition conn_nullable :: "string \<Rightarrow> json" where
  "conn_nullable s = (if s = [] then JNull else JStr s)"

definition conn_emit :: "('s, 'd) serverDeps \<Rightarrow> string \<Rightarrow> (string \<times> json) list \<Rightarrow> ('s, 'd) world \<Rightarrow> ('s, 'd) world" where
  "conn_emit D event flds w = (if dp_emitter D then outside [Sent (Emit event flds)] w else w)"

definition fireConnected :: "('s, 'd) serverDeps \<Rightarrow> nat \<Rightarrow> string \<Rightarrow> string \<Rightarrow> ('s, 'd) world \<Rightarrow> ('s, 'd) world" where
  "fireConnected D cid docID sessionID w =
     conn_emit D ''on_client_connected''
       [(''doc_id'', JStr docID), (''session_id'', JStr sessionID),
        (''user_id'', conn_nullable (UserID (cn_identity (conn_at w cid)))),
        (''remote_addr'', JStr (cn_remoteAddr (conn_at w cid)))] w"

definition fireDisconnected :: "('s, 'd) serverDeps \<Rightarrow> int \<Rightarrow> nat \<Rightarrow> ('s, 'd) world \<Rightarrow> ('s, 'd) world" where
  "fireDisconnected D t cid w =
     (let c = conn_at w cid; dur = go_quot (t - cn_connectedAt c) second in
      fold (\<lambda>(docID, sessionID).
          conn_emit D ''on_client_disconnected''
            [(''doc_id'', JStr docID), (''session_id'', JStr sessionID),
             (''user_id'', conn_nullable (UserID (cn_identity c))), (''duration_seconds'', JInt dur)])
        (subscriptions c) w)"

section \<open>Subscribing\<close>

definition set_session :: "nat \<Rightarrow> string \<Rightarrow> string \<Rightarrow> ('s, 'd) world \<Rightarrow> ('s, 'd) world" where
  "set_session cid docID sessionID w = upd_conn cid (\<lambda>c. c\<lparr>cn_subs := map_put docID sessionID (cn_subs c)\<rparr>) w"

text \<open>\<^verbatim>\<open>hub.subscribe\<close> with the observer's notification, which runs after the lock is released.\<close>

definition hub_subscribe :: "('s, 'd) serverDeps \<Rightarrow> nat \<Rightarrow> string \<Rightarrow> ('s, 'd) world \<Rightarrow> ('s, 'd) world" where
  "hub_subscribe D cid docID w =
     (case subscribe docID cid (w_hub w) of (h, first) \<Rightarrow>
        (if first \<and> dp_observer D then outside [DocActive docID] else id) (w\<lparr>w_hub := h\<rparr>))"

text \<open>The function \<^verbatim>\<open>Replay\<close> calls with each batch.\<close>

definition send_batch ::
  "('s, 'd) serverDeps \<Rightarrow> henv \<Rightarrow> nat \<Rightarrow> ('s, 'd) world \<Rightarrow> Replay \<Rightarrow> goerr option \<times> ('s, 'd) world" where
  "send_batch D e cid w batch =
     (let w1 = tally D (ReplayOps (int (length (rp_Ops batch)))) w in
      case w_conns w1 cid of
        None \<Rightarrow> (None, w1)
      | Some c \<Rightarrow>
          (case enqueueErr (he_pick e cid (OutReplay batch)) (OutReplay batch) c of
             (r, c') \<Rightarrow> (r, w1\<lparr>w_conns := (w_conns w1)(cid \<mapsto> c')\<rparr>)))"

definition replay_failed :: "henv \<Rightarrow> nat \<Rightarrow> ('s, 'd) world \<Rightarrow> ('s, 'd) world" where
  "replay_failed e cid w = reply e cid (OutError (NewError CodeInternal ''replay failed'')) w"

definition handleSubscribe ::
  "('s, 'd) serverDeps \<Rightarrow> henv \<Rightarrow> nat \<Rightarrow> Inbound \<Rightarrow> ('s, 'd) world \<Rightarrow> ('s, 'd) world" where
  "handleSubscribe D e cid m w =
     (if in_DocID m = [] then reply e cid (OutError (NewError CodeBadMessage ''subscribe requires doc_id'')) w
      else
        (let w1 = set_session cid (in_DocID m) (in_SessionID m) w;
             w2 = hub_subscribe D cid (in_DocID m) w1;
             w3 = fireConnected D cid (in_DocID m) (in_SessionID m) w2
         in case Engine_Replay (dp_store D) (dp_engine D) (he_engine e) (in_DocID m) (in_LastSeq m)
                   (send_batch D e cid) (e_store (w_engine w3)) w3 of
              (None, w4) \<Rightarrow> w4
            | (Some err, w4) \<Rightarrow> replay_failed e cid w4))"

section \<open>Submitting\<close>

definition default_session :: "nat \<Rightarrow> string \<Rightarrow> string \<Rightarrow> ('s, 'd) world \<Rightarrow> ('s, 'd) world" where
  "default_session cid docID sessionID w =
     upd_conn cid (\<lambda>c. if docID \<in> fst ` set (cn_subs c) then c
                       else c\<lparr>cn_subs := map_put docID sessionID (cn_subs c)\<rparr>) w"

text \<open>The effects of a submit, in order: events and resolver calls go outside, a broadcast to the broadcaster.\<close>

fun run_effect ::
  "('s, 'd) serverDeps \<Rightarrow> (nat \<Rightarrow> outmsg \<Rightarrow> bool) \<Rightarrow> effect \<Rightarrow> ('s, 'd) world \<Rightarrow> ('s, 'd) world" where
  "run_effect D pick (Broadcast d x msg) w = dp_broadcast D pick d x msg w"
| "run_effect D pick fx w = outside [Sent fx] w"

text \<open>The call of \<^verbatim>\<open>engine.Submit\<close> up to, and without, running its effects.\<close>

definition submit ::
  "('s, 'd) serverDeps \<Rightarrow> henv \<Rightarrow> nat \<Rightarrow> Inbound \<Rightarrow> ('s, 'd) world \<Rightarrow> int res \<times> ('s, 'd) world \<times> effect list" where
  "submit D e cid m w =
     (case Submit (dp_store D) (dp_automerge D) (dp_engine D) (he_engine e) (in_DocID m) (in_SessionID m)
             (UserID (cn_identity (conn_at w cid))) (in_Payload m) (w_engine w) of
        (r, st, fx) \<Rightarrow> (r, w\<lparr>w_engine := st\<rparr>, fx))"

definition submit_failed ::
  "('s, 'd) serverDeps \<Rightarrow> henv \<Rightarrow> nat \<Rightarrow> Inbound \<Rightarrow> goerr \<Rightarrow> ('s, 'd) world \<Rightarrow> ('s, 'd) world" where
  "submit_failed D e cid m err w =
     conn_emit D ''on_sync_error''
       [(''doc_id'', JStr (in_DocID m)), (''session_id'', JStr (in_SessionID m)),
        (''error_code'', JStr CodeApplyFailed), (''error_message'', JStr (err_Error err))]
       (reply e cid (OutError (NewError CodeApplyFailed (err_Error err))) (tally D OperationError w))"

definition submit_done ::
  "('s, 'd) serverDeps \<Rightarrow> henv \<Rightarrow> nat \<Rightarrow> string \<Rightarrow> int \<Rightarrow> ('s, 'd) world \<Rightarrow> ('s, 'd) world" where
  "submit_done D e cid docID q w = reply e cid (OutAck (NewAck q)) (tally D (Operation docID) w)"

definition handleSync ::
  "('s, 'd) serverDeps \<Rightarrow> henv \<Rightarrow> nat \<Rightarrow> Inbound \<Rightarrow> ('s, 'd) world \<Rightarrow> ('s, 'd) world" where
  "handleSync D e cid m w =
     (if in_DocID m = [] then reply e cid (OutError (NewError CodeBadMessage ''sync requires doc_id'')) w
      else case submit D e cid m (default_session cid (in_DocID m) (in_SessionID m) w) of
          (r, w1, fx) \<Rightarrow>
            (let w2 = fold (run_effect D (he_pick e)) fx w1 in
             case r of Inl err \<Rightarrow> submit_failed D e cid m err w2
             | Inr q \<Rightarrow> submit_done D e cid (in_DocID m) q w2))"

section \<open>The loops\<close>

definition handle ::
  "('s, 'd) serverDeps \<Rightarrow> henv \<Rightarrow> nat \<Rightarrow> Inbound \<Rightarrow> ('s, 'd) world \<Rightarrow> ('s, 'd) world" where
  "handle D e cid m w =
     (if in_Type m = TypeSubscribe then handleSubscribe D e cid m w
      else if in_Type m = TypeSync then handleSync D e cid m w
      else if in_Type m = TypePing then reply e cid (OutPong NewPong) w
      else reply e cid (OutError (NewError CodeBadMessage ''unknown message type'')) w)"

text \<open>One round of the read loop.\<close>

definition receive ::
  "('s, 'd) serverDeps \<Rightarrow> henv \<Rightarrow> nat \<Rightarrow> frame \<Rightarrow> ('s, 'd) world \<Rightarrow> ('s, 'd) world" where
  "receive D e cid data w =
     (case Decode (cn_codec (conn_at w cid)) data of
        Inl err \<Rightarrow> reply e cid (OutError (NewError CodeBadMessage (err_Error err))) w
      | Inr m \<Rightarrow> handle D e cid m w)"

text \<open>The frames read until \<^verbatim>\<open>ws.Read\<close> fails, each with what its handling meets.\<close>

fun readLoop :: "('s, 'd) serverDeps \<Rightarrow> nat \<Rightarrow> (henv \<times> frame) list \<Rightarrow> ('s, 'd) world \<Rightarrow> ('s, 'd) world" where
  "readLoop D cid [] w = w"
| "readLoop D cid ((e, data) # rest) w = readLoop D cid rest (receive D e cid data w)"

text \<open>The write loop: one outcome for each write it gets to make.\<close>

fun writeLoop :: "bool list \<Rightarrow> conn \<Rightarrow> conn" where
  "writeLoop [] c = c"
| "writeLoop (ok # oks) c =
     (if is_done c then c
      else case cn_send c of
          [] \<Rightarrow> c
        | f # fs \<Rightarrow>
            if ok then writeLoop oks (c\<lparr>cn_send := fs, cn_wire := cn_wire c @ [f]\<rparr>)
            else close StatusInternalError ''write error'' (c\<lparr>cn_send := fs\<rparr>))"

text \<open>The keep-alive loop: one outcome for each tick.\<close>

fun ping_ticks :: "bool list \<Rightarrow> conn \<Rightarrow> conn" where
  "ping_ticks [] c = c"
| "ping_ticks (ok # oks) c =
     (if is_done c then c else if ok then ping_ticks oks c
      else close StatusPolicyViolation ''ping timeout'' c)"

definition keepAlive :: "LimitsConfig \<Rightarrow> bool list \<Rightarrow> conn \<Rightarrow> conn" where
  "keepAlive lim oks c = (if PingInterval lim \<le> 0 then c else ping_ticks oks c)"

text \<open>The end of \<^verbatim>\<open>serve\<close>: close, deregister with the observer's notifications, the events, the gauge.\<close>

definition hub_deregister :: "('s, 'd) serverDeps \<Rightarrow> nat \<Rightarrow> ('s, 'd) world \<Rightarrow> ('s, 'd) world" where
  "hub_deregister D cid w =
     (case deregister cid (conn_at w cid) (w_hub w) of (h, emptied) \<Rightarrow>
        (if dp_observer D then outside (map DocInactive emptied) else id) (w\<lparr>w_hub := h\<rparr>))"

definition serve_end :: "('s, 'd) serverDeps \<Rightarrow> int \<Rightarrow> nat \<Rightarrow> ('s, 'd) world \<Rightarrow> ('s, 'd) world" where
  "serve_end D t cid w =
     tally D ConnectionClosed
       (fireDisconnected D t cid
         (hub_deregister D cid (upd_conn cid (close StatusNormalClosure []) w)))"

definition serve :: "('s, 'd) serverDeps \<Rightarrow> int \<Rightarrow> nat \<Rightarrow> (henv \<times> frame) list \<Rightarrow> ('s, 'd) world \<Rightarrow> ('s, 'd) world" where
  "serve D t cid frames w = serve_end D t cid (readLoop D cid frames (tally D ConnectionOpened w))"

section \<open>The broadcaster\<close>

definition hub_broadcaster ::
  "(nat \<Rightarrow> outmsg \<Rightarrow> bool) \<Rightarrow> string \<Rightarrow> string \<Rightarrow> ServerSync \<Rightarrow> ('s, 'd) world \<Rightarrow> ('s, 'd) world" where
  "hub_broadcaster pick d x msg w = w\<lparr>w_conns := Hub_Broadcast pick d x msg (w_hub w) (w_conns w)\<rparr>"

text \<open>
  The interface \<^verbatim>\<open>Broadcaster\<close> of the engine: whatever else a broadcaster does, the local
  subscribers get the message as from the hub, and the hub, the engine and the counter of
  connections stay. The effects of a submit then keep them too.
\<close>

locale broadcaster =
  fixes bc :: "(nat \<Rightarrow> outmsg \<Rightarrow> bool) \<Rightarrow> string \<Rightarrow> string \<Rightarrow> ServerSync \<Rightarrow> ('s, 'd) world \<Rightarrow> ('s, 'd) world"
  assumes bc_conns: "w_conns (bc pick d x msg w) = Hub_Broadcast pick d x msg (w_hub w) (w_conns w)"
    and bc_hub: "w_hub (bc pick d x msg w) = w_hub w"
    and bc_engine: "w_engine (bc pick d x msg w) = w_engine w"
    and bc_next: "w_next (bc pick d x msg w) = w_next w"
begin

lemma effect_hub: "dp_broadcast D = bc \<Longrightarrow> w_hub (run_effect D pick x w) = w_hub w"
  and effect_engine: "dp_broadcast D = bc \<Longrightarrow> w_engine (run_effect D pick x w) = w_engine w"
  by (cases x; simp add: bc_hub bc_engine outside_def)+

lemma effects_hub: "dp_broadcast D = bc \<Longrightarrow> w_hub (fold (run_effect D pick) fx w) = w_hub w"
  by (induction fx arbitrary: w) (simp_all add: effect_hub)

lemma effects_engine: "dp_broadcast D = bc \<Longrightarrow> w_engine (fold (run_effect D pick) fx w) = w_engine w"
  by (induction fx arbitrary: w) (simp_all add: effect_engine)

text \<open>A sync leaves the subscribers of the hub as they are.\<close>

lemma sync_hub:
  assumes "dp_broadcast D = bc"
  shows "w_hub (handleSync D e i m w) = w_hub w"
proof (cases "in_DocID m = []")
  case True
  then show ?thesis by (simp add: handleSync_def reply_def upd_conn_def)
next
  case False
  let ?w = "default_session i (in_DocID m) (in_SessionID m) w"
  obtain r w1 fx where s: "submit D e i m ?w = (r, w1, fx)" by (metis prod_cases3)
  have "w_hub w1 = w_hub w" using s by (auto simp: submit_def default_session_def upd_conn_def split: prod.splits)
  then show ?thesis
    using False s effects_hub [OF assms]
    by (simp add: handleSync_def Let_def submit_failed_def submit_done_def reply_def upd_conn_def conn_emit_def outside_def tally_def
        split: sum.splits)
qed

end

interpretation hb: broadcaster hub_broadcaster
  by unfold_locales (simp_all add: hub_broadcaster_def)

end
