(* ===== verification/Server.thy ===== *)
theory Server
  imports Connection
begin

text \<open>
  \<^verbatim>\<open>internal/server/server.go\<close>: the endpoint \<^verbatim>\<open>/sync\<close>. A request reserves a connection slot, is
  authenticated, is upgraded and then served; a failure on the way gives the slot back.
  The WebSocket library's \<^verbatim>\<open>Accept\<close> is a parameter: it gets the request, the subprotocols and
  the origin patterns, and returns the negotiated subprotocol or nothing.
\<close>

section \<open>Origins and subprotocols\<close>

definition cut_scheme :: "string \<Rightarrow> string list \<Rightarrow> string" where
  "cut_scheme origin ps =
     (case filter (HasPrefix origin) ps of [] \<Rightarrow> origin | p # _ \<Rightarrow> drop (length p) origin)"

definition stripScheme :: "string \<Rightarrow> string" where
  "stripScheme origin = cut_scheme origin [''https://'', ''http://'', ''wss://'', ''ws://'']"

definition originPatterns :: "CORSConfig \<Rightarrow> string list" where
  "originPatterns cors =
     (if ''*'' \<in> set (AllowedOrigins cors) then [''*''] else map stripScheme (AllowedOrigins cors))"

definition subprotocols :: "string \<Rightarrow> string list" where
  "subprotocols negotiated = (if negotiated = [] then [] else [negotiated])"

section \<open>The server\<close>

record Server =
  sv_auth :: Authenticator
  sv_cors :: CORSConfig

text \<open>\<^verbatim>\<open>New\<close>, without the engine, which is injected with \<^verbatim>\<open>SetEngine\<close>: the server and the world at its start.\<close>

definition server_New :: "Authenticator \<Rightarrow> CORSConfig \<Rightarrow> Server" where
  "server_New a cors = \<lparr>sv_auth = a, sv_cors = cors\<rparr>"

definition new_world :: "('s, 'd) estate \<Rightarrow> ('s, 'd) world" where
  "new_world st =
     \<lparr>w_hub = newHub, w_conns = Map.empty, w_engine = st, w_metrics = metrics_New, w_cache = Map.empty,
      w_trace = [], w_next = 0\<rparr>"

definition SetSubscriptionObserver :: "('s, 'd) serverDeps \<Rightarrow> ('s, 'd) serverDeps" where
  "SetSubscriptionObserver D = D\<lparr>dp_observer := True\<rparr>"

type_synonym acceptor = "Request \<Rightarrow> string list \<Rightarrow> string list \<Rightarrow> string option"

datatype sync_response =
    HttpError int string   \<comment> \<open>status and text\<close>
  | AcceptFailed           \<comment> \<open>the library wrote its own response\<close>
  | Served nat             \<comment> \<open>a connection\<close>

definition reserve :: "('s, 'd) serverDeps \<Rightarrow> ('s, 'd) world \<Rightarrow> bool \<times> ('s, 'd) world" where
  "reserve D w = (case tryRegister (MaxConnections (dp_limits D)) (w_hub w) of (ok, h) \<Rightarrow> (ok, w\<lparr>w_hub := h\<rparr>))"

definition give_back :: "('s, 'd) world \<Rightarrow> ('s, 'd) world" where
  "give_back w = w\<lparr>w_hub := release (w_hub w)\<rparr>"

text \<open>The rest of a request that holds a slot, up to \<^verbatim>\<open>newConn\<close>.\<close>

definition handshake ::
  "acceptor \<Rightarrow> Server \<Rightarrow> aenv \<Rightarrow> int \<Rightarrow> Request \<Rightarrow> ('s, 'd) world \<Rightarrow> sync_response \<times> ('s, 'd) world" where
  "handshake accept sv ae t r w =
     (case Authenticate (sv_auth sv) ae r (w_cache w) of
        (Inl err, c) \<Rightarrow>
          (if errors_Is err ErrUnauthorized then HttpError 401 ''unauthorized''
           else HttpError 500 ''authorization failed'', give_back (w\<lparr>w_cache := c\<rparr>))
      | (Inr ident, c) \<Rightarrow>
          (case accept r [SubprotocolJSON] (originPatterns (sv_cors sv)) of
             None \<Rightarrow> (AcceptFailed, give_back (w\<lparr>w_cache := c\<rparr>))
           | Some sub \<Rightarrow>
               (let cid = w_next w;
                    cd = fst (SelectCodec (subprotocols sub))
                in (Served cid,
                    w\<lparr>w_cache := c, w_conns := (w_conns w)(cid \<mapsto> newConn cd ident (r_RemoteAddr r) t),
                      w_next := cid + 1\<rparr>))))"

definition HandleSync ::
  "acceptor \<Rightarrow> Server \<Rightarrow> ('s, 'd) serverDeps \<Rightarrow> aenv \<Rightarrow> int \<Rightarrow> int \<Rightarrow> Request \<Rightarrow> (henv \<times> frame) list
     \<Rightarrow> ('s, 'd) world \<Rightarrow> sync_response \<times> ('s, 'd) world" where
  "HandleSync accept sv D ae t t_end r frames w =
     (case reserve D w of
        (False, w1) \<Rightarrow> (HttpError 503 ''connection limit reached'', w1)
      | (True, w1) \<Rightarrow>
          (case handshake accept sv ae t r w1 of
             (Served cid, w2) \<Rightarrow> (Served cid, serve D t_end cid frames w2)
           | (resp, w2) \<Rightarrow> (resp, w2)))"

end
