(* ===== verification/Sql.thy ===== *)
theory Sql
  imports Store "HOL-Library.Multiset"
begin

text \<open>
  What the three SQL backends share: the schema (tables \<^verbatim>\<open>documents\<close>, \<^verbatim>\<open>operations\<close>,
  \<^verbatim>\<open>snapshots\<close> with their keys), the meaning of the SQL statements the backends send,
  the scanning of result rows and the metadata text. A statement is a function of the
  database; text columns are compared under a collation, given as the function that
  maps a text to its sort key (the identity where the comparison is binary). The
  invariant \<open>db_inv\<close> is what the schema and the statements keep; \<open>db_view\<close> is the
  abstract view of a database.
\<close>

section \<open>Schema\<close>

record doc_row =
  dr_id :: string
  dr_metadata :: string
  dr_latest_seq :: int
  dr_created_at :: int
  dr_updated_at :: int

record op_row =
  or_doc_id :: string
  or_seq :: int
  or_session_id :: string
  or_payload :: bytes
  or_created_at :: int

record snap_row =
  sr_doc_id :: string
  sr_seq :: int
  sr_state :: bytes
  sr_created_at :: int

record db =
  documents :: "doc_row list"
  operations :: "op_row list"
  snapshots :: "snap_row list"

definition empty_db :: db where
  "empty_db = \<lparr>documents = [], operations = [], snapshots = []\<rparr>"

text \<open>The row of a document that has no operations yet.\<close>

definition new_doc :: "string \<Rightarrow> string \<Rightarrow> int \<Rightarrow> doc_row" where
  "new_doc d meta t = \<lparr>dr_id = d, dr_metadata = meta, dr_latest_seq = 0, dr_created_at = t, dr_updated_at = t\<rparr>"

text \<open>The row of an operation.\<close>

definition append_row :: "string \<Rightarrow> int \<Rightarrow> string \<Rightarrow> bytes \<Rightarrow> int \<Rightarrow> op_row" where
  "append_row d q u p t =
     \<lparr>or_doc_id = d, or_seq = q, or_session_id = u, or_payload = p, or_created_at = t\<rparr>"

section \<open>Statements\<close>

type_synonym collation = "string \<Rightarrow> string"

abbreviation (input) binary :: collation where
  "binary \<equiv> (\<lambda>s. s)"

text \<open>The constraints a write can violate.\<close>

datatype violation = PrimaryKey | ForeignKey

text \<open>\<^verbatim>\<open>SELECT ... FROM documents WHERE id = ?\<close>\<close>

definition sql_select_doc :: "collation \<Rightarrow> string \<Rightarrow> db \<Rightarrow> doc_row option" where
  "sql_select_doc c d b = find (\<lambda>r. c (dr_id r) = c d) (documents b)"

text \<open>\<^verbatim>\<open>INSERT INTO documents ... VALUES ...\<close>\<close>

definition sql_insert_doc :: "collation \<Rightarrow> doc_row \<Rightarrow> db \<Rightarrow> violation + db" where
  "sql_insert_doc c r b =
     (case sql_select_doc c (dr_id r) b of
        Some _ \<Rightarrow> Inl PrimaryKey
      | None \<Rightarrow> Inr (b\<lparr>documents := documents b @ [r]\<rparr>))"

text \<open>
  \<^verbatim>\<open>INSERT INTO documents ... ON CONFLICT (id) DO NOTHING\<close> (Postgres) and
  \<^verbatim>\<open>... ON DUPLICATE KEY UPDATE id = id\<close> (MySQL): an existing row stays as it is.
\<close>

definition sql_ensure_doc :: "collation \<Rightarrow> doc_row \<Rightarrow> db \<Rightarrow> db" where
  "sql_ensure_doc c r b =
     (case sql_select_doc c (dr_id r) b of
        Some _ \<Rightarrow> b
      | None \<Rightarrow> b\<lparr>documents := documents b @ [r]\<rparr>)"

text \<open>\<^verbatim>\<open>INSERT INTO operations ... VALUES ...\<close>\<close>

definition sql_insert_op :: "collation \<Rightarrow> op_row \<Rightarrow> db \<Rightarrow> violation + db" where
  "sql_insert_op c r b =
     (if \<exists>x \<in> set (operations b). c (or_doc_id x) = c (or_doc_id r) \<and> or_seq x = or_seq r then Inl PrimaryKey
      else if sql_select_doc c (or_doc_id r) b = None then Inl ForeignKey
      else Inr (b\<lparr>operations := operations b @ [r]\<rparr>))"

text \<open>\<^verbatim>\<open>UPDATE documents SET latest_seq = ?, updated_at = ? WHERE id = ?\<close>\<close>

definition sql_update_doc :: "collation \<Rightarrow> string \<Rightarrow> int \<Rightarrow> int \<Rightarrow> db \<Rightarrow> db" where
  "sql_update_doc c d seq t b =
     b\<lparr>documents := map (\<lambda>r. if c (dr_id r) = c d then r\<lparr>dr_latest_seq := seq, dr_updated_at := t\<rparr> else r)
          (documents b)\<rparr>"

text \<open>
  \<^verbatim>\<open>DELETE FROM documents WHERE id = ?\<close> with \<^verbatim>\<open>ON DELETE CASCADE\<close>: the number of rows
  deleted and the database without them.
\<close>

definition sql_delete_doc :: "collation \<Rightarrow> string \<Rightarrow> db \<Rightarrow> nat \<times> db" where
  "sql_delete_doc c d b =
     (length (filter (\<lambda>r. c (dr_id r) = c d) (documents b)),
      \<lparr>documents = filter (\<lambda>r. c (dr_id r) \<noteq> c d) (documents b),
       operations = filter (\<lambda>r. c (or_doc_id r) \<noteq> c d) (operations b),
       snapshots = filter (\<lambda>r. c (sr_doc_id r) \<noteq> c d) (snapshots b)\<rparr>)"

text \<open>\<^verbatim>\<open>SELECT ... FROM operations WHERE doc_id = ? AND <condition on seq> ORDER BY seq ASC\<close>\<close>

definition sql_select_ops :: "collation \<Rightarrow> (int \<Rightarrow> bool) \<Rightarrow> string \<Rightarrow> db \<Rightarrow> op_row list" where
  "sql_select_ops c P d b =
     sort_key or_seq (filter (\<lambda>r. c (or_doc_id r) = c d \<and> P (or_seq r)) (operations b))"

text \<open>
  \<^verbatim>\<open>INSERT INTO snapshots ... ON CONFLICT/DUPLICATE KEY\<close>: a row with the same document
  and sequence number gets the new state and time.
\<close>

definition sql_upsert_snapshot :: "collation \<Rightarrow> snap_row \<Rightarrow> db \<Rightarrow> violation + db" where
  "sql_upsert_snapshot c r b =
     (if \<exists>x \<in> set (snapshots b). c (sr_doc_id x) = c (sr_doc_id r) \<and> sr_seq x = sr_seq r
      then Inr (b\<lparr>snapshots := map (\<lambda>x. if c (sr_doc_id x) = c (sr_doc_id r) \<and> sr_seq x = sr_seq r
             then x\<lparr>sr_state := sr_state r, sr_created_at := sr_created_at r\<rparr> else x) (snapshots b)\<rparr>)
      else if sql_select_doc c (sr_doc_id r) b = None then Inl ForeignKey
      else Inr (b\<lparr>snapshots := snapshots b @ [r]\<rparr>))"

text \<open>\<^verbatim>\<open>SELECT state, seq FROM snapshots WHERE doc_id = ? ORDER BY seq DESC LIMIT 1\<close>\<close>

definition sql_select_snapshot :: "collation \<Rightarrow> string \<Rightarrow> db \<Rightarrow> snap_row option" where
  "sql_select_snapshot c d b =
     (case sort_key (\<lambda>r. - sr_seq r) (filter (\<lambda>r. c (sr_doc_id r) = c d) (snapshots b)) of
        [] \<Rightarrow> None
      | r # _ \<Rightarrow> Some r)"

text \<open>
  \<^verbatim>\<open>SELECT ... FROM documents [WHERE updated_at >= ?] ORDER BY updated_at DESC [LIMIT ? [OFFSET ?]]\<close>:
  SQL leaves the order of rows with the same time to the engine. Here it is the rank \<open>t\<close> of
  their ids, a part of the environment of the call; a statement about a listing holds for
  every rank, and one about two engines takes two ranks.
\<close>

definition sql_order_docs :: "(string \<Rightarrow> nat) \<Rightarrow> doc_row list \<Rightarrow> doc_row list" where
  "sql_order_docs t rs = sort_key (\<lambda>r. - dr_updated_at r) (sort_key (\<lambda>r. t (dr_id r)) rs)"

definition sql_list_docs :: "(string \<Rightarrow> nat) \<Rightarrow> int option \<Rightarrow> int option \<Rightarrow> int option \<Rightarrow> db \<Rightarrow> doc_row list" where
  "sql_list_docs t since limit offset b =
     (let rs = (case since of None \<Rightarrow> documents b
                | Some u \<Rightarrow> filter (\<lambda>r. u \<le> dr_updated_at r) (documents b));
          sorted = sql_order_docs t rs;
          skipped = (case offset of None \<Rightarrow> sorted | Some n \<Rightarrow> drop (nat n) sorted)
      in case limit of None \<Rightarrow> skipped | Some n \<Rightarrow> take (nat n) skipped)"

section \<open>Metadata text (sqlite.go)\<close>

definition marshalMetadata :: "strmap \<Rightarrow> string" where
  "marshalMetadata m =
     (if m = [] then ''{}'' else show_json (JObj (map (\<lambda>(k, v). (k, JStr v)) (sort_key fst m))))"

text \<open>
  \<^verbatim>\<open>json.Unmarshal\<close> into a \<^verbatim>\<open>map[string]string\<close>: a later key wins (it stands first in the
  association list), a \<^verbatim>\<open>null\<close> value is the empty string, other values are errors.
\<close>

definition dec_map_value :: "json \<Rightarrow> string option" where
  "dec_map_value j = (case j of JStr s \<Rightarrow> Some s | JNull \<Rightarrow> Some [] | _ \<Rightarrow> None)"

fun dec_strmap :: "(string \<times> json) list \<Rightarrow> strmap \<Rightarrow> strmap option" where
  "dec_strmap [] acc = Some acc"
| "dec_strmap ((k, j) # ms) acc =
     (case dec_map_value j of None \<Rightarrow> None | Some v \<Rightarrow> dec_strmap ms ((k, v) # acc))"

definition unmarshal_strmap :: "json \<Rightarrow> strmap option" where
  "unmarshal_strmap j = (case j of JObj ms \<Rightarrow> dec_strmap ms [] | JNull \<Rightarrow> Some [] | _ \<Rightarrow> None)"

definition unmarshalMetadata :: "string \<Rightarrow> strmap res" where
  "unmarshalMetadata s =
     (if s = [] \<or> s = ''{}'' then Inr []
      else case Option.bind (json_parse s) unmarshal_strmap of
        None \<Rightarrow> Inl (Wrap ''unmarshal metadata: '' JsonErr [])
      | Some m \<Rightarrow> Inr m)"

lemma dec_strmap_strings:
  "dec_strmap (members_clean (map (\<lambda>(k, v). (k, JStr v)) kvs)) acc =
     Some (rev (map (\<lambda>(k, v). (to_valid k, to_valid v)) kvs) @ acc)"
  by (induction kvs arbitrary: acc) (auto simp: dec_map_value_def)

lemma members_printable_strings: "members_printable (map (\<lambda>(k, v). (k, JStr v)) kvs)"
  by (induction kvs) auto

lemma unmarshal_marshal:
  "unmarshalMetadata (marshalMetadata m) = Inr (rev (map (\<lambda>(k, v). (to_valid k, to_valid v)) (sort_key fst m)))"
proof (cases "m = []")
  case True
  then show ?thesis by (simp add: marshalMetadata_def unmarshalMetadata_def)
next
  case False
  let ?j = "JObj (map (\<lambda>(k, v). (k, JStr v)) (sort_key fst m))"
  have parse: "json_parse (show_json ?j) = Some (json_clean ?j)"
    by (rule json_parse_show) (simp add: members_printable_strings)
  have "sort_key fst m \<noteq> []" using False by (metis set_empty set_sort)
  then obtain k v kvs where kv: "sort_key fst m = (k, v) # kvs" by (cases "sort_key fst m") auto
  have "show_json ?j \<noteq> ''{}''"
    by (cases kvs) (auto simp: kv)
  moreover have "show_json ?j \<noteq> []" by simp
  ultimately show ?thesis
    using parse False by (simp add: marshalMetadata_def unmarshalMetadata_def unmarshal_strmap_def dec_strmap_strings)
qed

lemma map_valid_id:
  "\<forall>(k, v) \<in> set m. valid_utf8 k \<and> valid_utf8 v \<Longrightarrow> map (\<lambda>(k, v). (to_valid k, to_valid v)) m = m"
  by (intro map_idI) (auto simp: valid_utf8_def)

text \<open>
  Metadata written and read back is the same map, provided its texts are valid UTF-8
  (other byte sequences come back with replacement characters).
\<close>

lemma metadata_roundtrip:
  assumes "distinct (map fst m)" and "\<forall>(k, v) \<in> set m. valid_utf8 k \<and> valid_utf8 v"
  shows "\<exists>m'. unmarshalMetadata (marshalMetadata m) = Inr m' \<and> map_of m' = map_of m"
proof -
  have perm: "mset (sort_key fst m) = mset m" by simp
  then have "distinct (map fst (sort_key fst m))"
    using assms(1) by (metis mset_map mset_eq_imp_distinct_iff)
  then have "map_of (rev (sort_key fst m)) = map_of m"
    using assms(1) by (simp add: map_of_inject_set rev_map [symmetric])
  moreover have "map (\<lambda>(k, v). (to_valid k, to_valid v)) (sort_key fst m) = sort_key fst m"
    using assms(2) by (intro map_valid_id) simp
  ultimately show ?thesis by (simp add: unmarshal_marshal)
qed

section \<open>Rows (sqlite.go, sql\_util.go)\<close>

definition scanDocument :: "doc_row option \<Rightarrow> Document res" where
  "scanDocument row =
     (case row of
        None \<Rightarrow> Inl ErrDocumentNotFound
      | Some r \<Rightarrow>
          bindE (unmarshalMetadata (dr_metadata r)) (\<lambda>m.
            Inr \<lparr>doc_ID = dr_id r, doc_Metadata = m, doc_LatestSeq = dr_latest_seq r,
                 doc_CreatedAt = dr_created_at r, doc_UpdatedAt = dr_updated_at r\<rparr>))"

fun scanDocuments :: "doc_row list \<Rightarrow> Document list res" where
  "scanDocuments [] = Inr []"
| "scanDocuments (r # rs) =
     bindE (scanDocument (Some r)) (\<lambda>doc. bindE (scanDocuments rs) (\<lambda>docs. Inr (doc # docs)))"

definition scanOpRow :: "op_row \<Rightarrow> StoredOp" where
  "scanOpRow r = \<lparr>op_Seq = or_seq r, op_DocID = or_doc_id r, op_SessionID = or_session_id r,
     op_Payload = or_payload r, op_CreatedAt = or_created_at r\<rparr>"

definition scanOpRows :: "op_row list \<Rightarrow> StoredOp list" where
  "scanOpRows rs = map scanOpRow rs"

section \<open>Calls and their outcomes\<close>

definition drv :: "string \<Rightarrow> goerr" where
  "drv m = DriverErr (OtherError m)"

text \<open>A query: its rows, or the wrapped error of the driver.\<close>

definition query :: "env \<Rightarrow> site \<Rightarrow> string \<Rightarrow> 'a \<Rightarrow> 'a res" where
  "query e k pre x =
     (case at e k of Succeeds \<Rightarrow> Inr x | Fails m \<Rightarrow> Inl (Wrap pre (drv m) []) | Lost m \<Rightarrow> Inl (Wrap pre (drv m) []))"

text \<open>A statement inside a transaction: any error makes the caller roll back.\<close>

definition tx_exec :: "env \<Rightarrow> site \<Rightarrow> string \<Rightarrow> (violation \<Rightarrow> drverr) \<Rightarrow> violation + db \<Rightarrow> db res" where
  "tx_exec e k pre f r =
     bindE (query e k pre ()) (\<lambda>_. case r of Inl v \<Rightarrow> Inl (Wrap pre (DriverErr (f v)) []) | Inr b \<Rightarrow> Inr b)"

text \<open>
  A statement outside a transaction on database \<open>b\<close>, with its effect \<open>r\<close>: the error as the
  driver reports it and the database after it.
\<close>

definition exec :: "env \<Rightarrow> site \<Rightarrow> (violation \<Rightarrow> drverr) \<Rightarrow> violation + db \<Rightarrow> db \<Rightarrow> goerr option \<times> db" where
  "exec e k f r b =
     (case r of
        Inl v \<Rightarrow> (case at e k of Succeeds \<Rightarrow> (Some (DriverErr (f v)), b) | Fails m \<Rightarrow> (Some (drv m), b) | Lost m \<Rightarrow> (Some (drv m), b))
      | Inr b' \<Rightarrow> (case at e k of Succeeds \<Rightarrow> (None, b') | Fails m \<Rightarrow> (Some (drv m), b) | Lost m \<Rightarrow> (Some (drv m), b')))"

text \<open>
  A transaction: \<^verbatim>\<open>Begin\<close>, the body, \<^verbatim>\<open>Commit\<close>; the deferred \<^verbatim>\<open>Rollback\<close> undoes the body when an
  error leaves the function before the commit.
\<close>

definition transaction :: "env \<Rightarrow> (db \<Rightarrow> ('a \<times> db) res) \<Rightarrow> db \<Rightarrow> 'a res \<times> db" where
  "transaction e body b =
     (case query e AtBegin ''begin append tx: '' () of
        Inl x \<Rightarrow> (Inl x, b)
      | Inr _ \<Rightarrow>
          (case body b of
             Inl x \<Rightarrow> (Inl x, b)
           | Inr (y, b') \<Rightarrow>
               (case at e AtCommit of
                  Succeeds \<Rightarrow> (Inr y, b')
                | Fails m \<Rightarrow> (Inl (Wrap ''commit append tx: '' (drv m) []), b)
                | Lost m \<Rightarrow> (Inl (Wrap ''commit append tx: '' (drv m) []), b'))))"

lemma query_Inr [simp]: "query e k pre x = Inr y \<longleftrightarrow> at e k = Succeeds \<and> y = x"
  by (auto simp: query_def split: outcome.splits)

lemma query_not_sentinel [simp]:
  "query e k pre x \<noteq> Inl ErrNoSnapshot" "query e k pre x \<noteq> Inl ErrDocumentNotFound"
  by (auto simp: query_def split: outcome.splits)

lemma query_fault_free [simp]: "fault_free e \<Longrightarrow> query e k pre x = Inr x"
  by simp

section \<open>Invariant and view\<close>

definition ops_of :: "db \<Rightarrow> string \<Rightarrow> op_row list" where
  "ops_of b d = filter (\<lambda>r. or_doc_id r = d) (operations b)"

definition snap_rows :: "db \<Rightarrow> string \<Rightarrow> snap_row list" where
  "snap_rows b d = filter (\<lambda>r. sr_doc_id r = d) (snapshots b)"

definition doc_ids :: "db \<Rightarrow> string set" where
  "doc_ids b = dr_id ` set (documents b)"

text \<open>
  Keys are unique, operations and snapshots belong to an existing document, the log
  of a document is numbered 1, 2, 3, ... without gaps, \<^verbatim>\<open>latest_seq\<close> is its length, and the
  stored metadata can be read back.
\<close>

definition db_inv :: "db \<Rightarrow> bool" where
  "db_inv b \<longleftrightarrow>
     distinct (map dr_id (documents b))
   \<and> (\<forall>r \<in> set (documents b). dr_latest_seq r = int (length (ops_of b (dr_id r)))
        \<and> (\<exists>m. unmarshalMetadata (dr_metadata r) = Inr m))
   \<and> (\<forall>d. numbered or_seq (ops_of b d))
   \<and> (\<forall>r \<in> set (operations b). or_doc_id r \<in> doc_ids b)
   \<and> distinct (map (\<lambda>r. (sr_doc_id r, sr_seq r)) (snapshots b))
   \<and> (\<forall>r \<in> set (snapshots b). sr_doc_id r \<in> doc_ids b)"

definition snap_map :: "snap_row list \<Rightarrow> int \<rightharpoonup> bytes" where
  "snap_map rs = map_of (map (\<lambda>r. (sr_seq r, sr_state r)) rs)"

definition db_view :: "db \<Rightarrow> view" where
  "db_view b d =
     (if d \<in> doc_ids b
      then Some \<lparr>ad_ops = scanOpRows (ops_of b d), ad_snaps = snap_map (snap_rows b d)\<rparr>
      else None)"

lemma db_inv_empty: "db_inv empty_db"
  by (simp add: db_inv_def empty_db_def ops_of_def)

lemma dom_db_view [simp]: "dom (db_view b) = doc_ids b"
  by (auto simp: db_view_def split: if_splits)

lemma scanOpRow_sel [simp]:
  "op_Seq (scanOpRow r) = or_seq r" "op_SessionID (scanOpRow r) = or_session_id r"
  "op_Payload (scanOpRow r) = or_payload r" "op_DocID (scanOpRow r) = or_doc_id r"
  "op_CreatedAt (scanOpRow r) = or_created_at r"
  by (simp_all add: scanOpRow_def)

lemma ops_of_missing: "db_inv b \<Longrightarrow> d \<notin> doc_ids b \<Longrightarrow> ops_of b d = []"
  by (auto simp: db_inv_def ops_of_def filter_empty_conv)

lemma snap_rows_missing: "db_inv b \<Longrightarrow> d \<notin> doc_ids b \<Longrightarrow> snap_rows b d = []"
  by (auto simp: db_inv_def snap_rows_def filter_empty_conv)

lemma log_db_view [simp]: "db_inv b \<Longrightarrow> log_of (db_view b) d = scanOpRows (ops_of b d)"
  by (auto simp: adoc_of_def db_view_def empty_adoc_def ops_of_missing scanOpRows_def)

lemma snaps_db_view [simp]: "db_inv b \<Longrightarrow> snaps_of (db_view b) d = snap_map (snap_rows b d)"
  by (auto simp: adoc_of_def db_view_def empty_adoc_def snap_rows_missing snap_map_def)

lemma length_scanOpRows [simp]: "length (scanOpRows rs) = length rs"
  by (simp add: scanOpRows_def)

lemma numbered_scan: "numbered op_Seq (scanOpRows rs) \<longleftrightarrow> numbered or_seq rs"
  by (simp add: numbered_def scanOpRows_def)

lemma db_log_numbered: "db_inv b \<Longrightarrow> numbered op_Seq (log_of (db_view b) d)"
  by (simp add: numbered_scan) (simp add: db_inv_def)

subsection \<open>Reading\<close>

lemma select_doc_None: "sql_select_doc binary d b = None \<longleftrightarrow> d \<notin> doc_ids b"
  by (auto simp: sql_select_doc_def find_None_iff doc_ids_def)

lemma select_doc_Some:
  "sql_select_doc binary d b = Some r \<Longrightarrow> r \<in> set (documents b) \<and> dr_id r = d"
  by (auto simp: sql_select_doc_def find_Some_iff)

lemma select_doc_latest:
  "db_inv b \<Longrightarrow> sql_select_doc binary d b = Some r \<Longrightarrow> dr_latest_seq r = int (length (ops_of b d))"
  using select_doc_Some [of d b r] by (auto simp: db_inv_def)

lemma select_doc_meta:
  "db_inv b \<Longrightarrow> sql_select_doc binary d b = Some r \<Longrightarrow> \<exists>m. unmarshalMetadata (dr_metadata r) = Inr m"
  using select_doc_Some [of d b r] by (auto simp: db_inv_def)

lemma select_ops_eq:
  assumes "db_inv b"
  shows "sql_select_ops binary P d b = filter (\<lambda>r. P (or_seq r)) (ops_of b d)"
proof -
  have "numbered or_seq (ops_of b d)" using assms by (simp add: db_inv_def)
  then have "sorted (map or_seq (ops_of b d))" by (rule numbered_sorted)
  then have "sorted (map or_seq (filter (\<lambda>r. P (or_seq r)) (ops_of b d)))"
    by (rule sorted_filter)
  then show ?thesis
    by (simp add: sql_select_ops_def sort_key_id ops_of_def conj_commute)
qed

lemma scan_filter: "scanOpRows (filter (\<lambda>r. P (or_seq r)) rs) = filter (\<lambda>x. P (op_Seq x)) (scanOpRows rs)"
  by (simp add: scanOpRows_def filter_map comp_def)

lemma scan_select_ops:
  "db_inv b \<Longrightarrow> scanOpRows (sql_select_ops binary P d b) = filter (\<lambda>x. P (op_Seq x)) (log_of (db_view b) d)"
  by (simp add: select_ops_eq scan_filter)

lemma snap_rows_distinct: "db_inv b \<Longrightarrow> distinct (map sr_seq (snap_rows b d))"
proof -
  assume "db_inv b"
  then have "distinct (map (\<lambda>r. (sr_doc_id r, sr_seq r)) (snapshots b))" by (simp add: db_inv_def)
  then have "distinct (map (\<lambda>r. (sr_doc_id r, sr_seq r)) (snap_rows b d))"
    unfolding snap_rows_def by (rule distinct_map_filter)
  then show ?thesis
    by (induction "snapshots b") (auto simp: snap_rows_def distinct_map inj_on_def)
qed

lemma dom_snap_map: "dom (snap_map rs) = sr_seq ` set rs"
  by (auto simp: snap_map_def dom_map_of_conv_image_fst image_comp)

lemma snap_map_Some: "distinct (map sr_seq rs) \<Longrightarrow> r \<in> set rs \<Longrightarrow> snap_map rs (sr_seq r) = Some (sr_state r)"
proof (induction rs)
  case (Cons a rs)
  show ?case
  proof (cases "r = a")
    case True
    then show ?thesis by (simp add: snap_map_def)
  next
    case False
    with Cons.prems have "r \<in> set rs" "sr_seq a \<noteq> sr_seq r" by auto
    with Cons show ?thesis by (simp add: snap_map_def)
  qed
qed simp

lemma select_snapshot_Some:
  assumes "sql_select_snapshot binary d b = Some r"
  shows "r \<in> set (snap_rows b d) \<and> (\<forall>x \<in> set (snap_rows b d). sr_seq x \<le> sr_seq r)"
proof -
  let ?rs = "sort_key (\<lambda>r. - sr_seq r) (snap_rows b d)"
  from assms obtain xs where xs: "?rs = r # xs"
    by (auto simp: sql_select_snapshot_def snap_rows_def split: list.splits)
  have "sorted (map (\<lambda>r. - sr_seq r) ?rs)" by (rule sorted_sort_key)
  then have "\<forall>x \<in> set ?rs. sr_seq x \<le> sr_seq r" by (auto simp: xs)
  moreover have "r \<in> set ?rs" by (simp add: xs)
  ultimately show ?thesis by simp
qed

lemma select_snapshot_None: "sql_select_snapshot binary d b = None \<longleftrightarrow> snap_rows b d = []"
proof -
  have "sort_key (\<lambda>r. - sr_seq r) (snap_rows b d) = [] \<longleftrightarrow> snap_rows b d = []"
    by (metis set_empty set_sort)
  then show ?thesis
    by (auto simp: sql_select_snapshot_def snap_rows_def split: list.splits)
qed

subsection \<open>Writing\<close>

text \<open>What appending an operation does to the database, in terms of the statements.\<close>

definition add_doc :: "doc_row \<Rightarrow> db \<Rightarrow> db" where
  "add_doc r b = b\<lparr>documents := documents b @ [r]\<rparr>"

definition add_op :: "op_row \<Rightarrow> db \<Rightarrow> db" where
  "add_op r b = b\<lparr>operations := operations b @ [r]\<rparr>"

lemma insert_doc_eq:
  "sql_insert_doc binary r b = (if dr_id r \<in> doc_ids b then Inl PrimaryKey else Inr (add_doc r b))"
  using select_doc_None [of "dr_id r" b]
  by (auto simp: sql_insert_doc_def add_doc_def split: option.splits)

lemma ensure_doc_eq:
  "sql_ensure_doc binary r b = (if dr_id r \<in> doc_ids b then b else add_doc r b)"
  using select_doc_None [of "dr_id r" b]
  by (auto simp: sql_ensure_doc_def add_doc_def split: option.splits)

lemma insert_op_eq:
  assumes "db_inv b" "or_doc_id r \<in> doc_ids b" "or_seq r = int (length (ops_of b (or_doc_id r))) + 1"
  shows "sql_insert_op binary r b = Inr (add_op r b)"
proof -
  have "numbered or_seq (ops_of b (or_doc_id r))" using assms(1) by (simp add: db_inv_def)
  then have "\<forall>x \<in> set (ops_of b (or_doc_id r)). or_seq x \<le> int (length (ops_of b (or_doc_id r)))"
    by (auto dest: numbered_bounds)
  then have "\<not> (\<exists>x \<in> set (operations b). or_doc_id x = or_doc_id r \<and> or_seq x = or_seq r)"
    using assms(3) by (force simp: ops_of_def)
  with assms(2) show ?thesis
    by (simp add: sql_insert_op_def select_doc_None add_op_def)
qed

lemma ops_of_simps [simp]:
  "ops_of (add_doc r b) d = ops_of b d"
  "ops_of (sql_update_doc c x q t b) d = ops_of b d"
  "ops_of (add_op o1 b) d = (if or_doc_id o1 = d then ops_of b d @ [o1] else ops_of b d)"
  by (simp_all add: ops_of_def add_doc_def sql_update_doc_def add_op_def)

lemma snap_rows_simps [simp]:
  "snap_rows (add_doc r b) d = snap_rows b d"
  "snap_rows (sql_update_doc c x q t b) d = snap_rows b d"
  "snap_rows (add_op o1 b) d = snap_rows b d"
  by (simp_all add: snap_rows_def add_doc_def sql_update_doc_def add_op_def)

lemma update_doc_ids: "map dr_id (documents (sql_update_doc c x q t b)) = map dr_id (documents b)"
  by (simp add: sql_update_doc_def comp_def if_distrib cong: if_cong)

lemma doc_ids_simps [simp]:
  "doc_ids (add_doc r b) = insert (dr_id r) (doc_ids b)"
  "doc_ids (sql_update_doc c x q t b) = doc_ids b"
  "doc_ids (add_op o1 b) = doc_ids b"
  by (simp_all add: doc_ids_def add_doc_def add_op_def update_doc_ids flip: set_map)

lemma add_doc_inv:
  assumes "db_inv b" "dr_id r \<notin> doc_ids b" "dr_latest_seq r = 0" "unmarshalMetadata (dr_metadata r) = Inr m"
  shows "db_inv (add_doc r b)"
proof -
  have "ops_of b (dr_id r) = []" using assms(1,2) by (rule ops_of_missing)
  moreover have "distinct (map dr_id (documents (add_doc r b)))"
    using assms(1,2) by (simp add: db_inv_def add_doc_def doc_ids_def)
  ultimately show ?thesis
    using assms by (auto simp: db_inv_def) (auto simp: add_doc_def)
qed

lemma add_doc_view:
  "db_inv b \<Longrightarrow> dr_id r \<notin> doc_ids b \<Longrightarrow> db_view (add_doc r b) = (db_view b)(dr_id r \<mapsto> empty_adoc)"
  by (auto simp: db_view_def fun_eq_iff empty_adoc_def ops_of_missing snap_rows_missing
      scanOpRows_def snap_map_def)

text \<open>Insert the operation after the last one and advance \<^verbatim>\<open>latest_seq\<close>.\<close>

lemma append_step:
  assumes inv: "db_inv b" and d: "d \<in> doc_ids b"
    and q: "q = int (length (ops_of b d)) + 1"
    and r: "or_doc_id r = d" "or_seq r = q"
  shows "db_inv (sql_update_doc binary d q t (add_op r b))"
    and "db_view (sql_update_doc binary d q t (add_op r b)) =
         spec_append d (or_payload r) (or_session_id r) (or_created_at r) (db_view b)"
proof -
  let ?b = "sql_update_doc binary d q t (add_op r b)"
  have ids: "map dr_id (documents ?b) = map dr_id (documents b)"
    by (simp add: update_doc_ids) (simp add: add_op_def)
  have rows: "\<forall>x \<in> set (documents ?b). dr_latest_seq x = int (length (ops_of ?b (dr_id x)))
      \<and> (\<exists>m. unmarshalMetadata (dr_metadata x) = Inr m)"
    using inv q r by (auto simp: sql_update_doc_def db_inv_def add_op_def ops_of_def)
  have "numbered or_seq (ops_of ?b x)" for x
    using inv q r by (simp add: db_inv_def)
  moreover have "\<forall>x \<in> set (operations ?b). or_doc_id x \<in> doc_ids ?b"
    using inv d r by (auto simp: db_inv_def) (auto simp: sql_update_doc_def add_op_def)
  moreover have "snapshots ?b = snapshots b"
    by (simp add: sql_update_doc_def add_op_def)
  ultimately show "db_inv ?b"
    using inv ids rows by (simp add: db_inv_def)
  have "scanOpRow r = \<lparr>op_Seq = q, op_DocID = d, op_SessionID = or_session_id r,
      op_Payload = or_payload r, op_CreatedAt = or_created_at r\<rparr>"
    using r by (simp add: scanOpRow_def)
  then show "db_view ?b = spec_append d (or_payload r) (or_session_id r) (or_created_at r) (db_view b)"
    using d q r by (auto simp: db_view_def spec_append_def adoc_of_def fun_eq_iff scanOpRows_def)
qed

text \<open>Saving a snapshot of a document.\<close>

definition set_snap :: "snap_row \<Rightarrow> snap_row \<Rightarrow> snap_row" where
  "set_snap r x = (if sr_doc_id x = sr_doc_id r \<and> sr_seq x = sr_seq r
     then x\<lparr>sr_state := sr_state r, sr_created_at := sr_created_at r\<rparr> else x)"

definition put_snap :: "snap_row \<Rightarrow> db \<Rightarrow> db" where
  "put_snap r b =
     (if \<exists>x \<in> set (snapshots b). sr_doc_id x = sr_doc_id r \<and> sr_seq x = sr_seq r
      then b\<lparr>snapshots := map (set_snap r) (snapshots b)\<rparr>
      else b\<lparr>snapshots := snapshots b @ [r]\<rparr>)"

lemma upsert_eq:
  assumes "db_inv b"
  shows "sql_upsert_snapshot binary r b =
     (if sr_doc_id r \<in> doc_ids b then Inr (put_snap r b) else Inl ForeignKey)"
  using assms
  by (auto simp: sql_upsert_snapshot_def put_snap_def set_snap_def select_doc_None db_inv_def)

lemma set_snap_sel [simp]: "sr_doc_id (set_snap r x) = sr_doc_id x" "sr_seq (set_snap r x) = sr_seq x"
  by (simp_all add: set_snap_def)

lemma put_snap_simps [simp]:
  "documents (put_snap r b) = documents b" "operations (put_snap r b) = operations b"
  "ops_of (put_snap r b) d = ops_of b d" "doc_ids (put_snap r b) = doc_ids b"
  by (simp_all add: put_snap_def ops_of_def doc_ids_def)

lemma put_snap_inv: "db_inv b \<Longrightarrow> sr_doc_id r \<in> doc_ids b \<Longrightarrow> db_inv (put_snap r b)"
  by (auto simp: db_inv_def) (auto simp: put_snap_def comp_def split: if_splits)

lemma snap_map_set:
  "\<forall>x \<in> set rs. sr_doc_id x = sr_doc_id r \<Longrightarrow> sr_seq r \<in> sr_seq ` set rs \<Longrightarrow>
   snap_map (map (set_snap r) rs) = (snap_map rs)(sr_seq r \<mapsto> sr_state r)"
proof (induction rs)
  case (Cons a rs)
  have hd: "snap_map (a # rs) = (snap_map rs)(sr_seq a \<mapsto> sr_state a)" for a rs
    by (simp add: snap_map_def)
  show ?case
  proof (cases "sr_seq r \<in> sr_seq ` set rs")
    case True
    then have "snap_map (map (set_snap r) rs) = (snap_map rs)(sr_seq r \<mapsto> sr_state r)"
      using Cons.prems(1) by (intro Cons.IH) auto
    moreover have "sr_doc_id a = sr_doc_id r" using Cons.prems(1) by simp
    ultimately show ?thesis
      by (simp add: hd) (simp add: set_snap_def fun_eq_iff)
  next
    case False
    with Cons.prems have a: "sr_seq a = sr_seq r" "sr_doc_id a = sr_doc_id r" by auto
    have "set_snap r x = x" if "x \<in> set rs" for x
      using False that by (metis image_eqI set_snap_def)
    then have "map (set_snap r) rs = rs" by (simp add: map_idI)
    with a show ?thesis by (simp add: hd) (simp add: set_snap_def fun_eq_iff)
  qed
qed simp

lemma snap_map_snoc: "sr_seq r \<notin> sr_seq ` set rs \<Longrightarrow> snap_map (rs @ [r]) = (snap_map rs)(sr_seq r \<mapsto> sr_state r)"
proof -
  assume "sr_seq r \<notin> sr_seq ` set rs"
  then have "snap_map rs (sr_seq r) = None" by (simp add: dom_snap_map [symmetric] domIff)
  then show ?thesis
    by (auto simp: snap_map_def fun_eq_iff map_add_def split: option.splits)
qed

lemma put_snap_rows:
  "snap_map (snap_rows (put_snap r b) d) =
     (if d = sr_doc_id r then (snap_map (snap_rows b d))(sr_seq r \<mapsto> sr_state r) else snap_map (snap_rows b d))"
proof (cases "\<exists>x \<in> set (snapshots b). sr_doc_id x = sr_doc_id r \<and> sr_seq x = sr_seq r")
  case True
  then have "snap_rows (put_snap r b) d = map (set_snap r) (snap_rows b d)"
    by (simp add: put_snap_def snap_rows_def filter_map comp_def)
  moreover have "map (set_snap r) (snap_rows b d) = snap_rows b d" if "d \<noteq> sr_doc_id r"
    using that by (intro map_idI) (auto simp: snap_rows_def set_snap_def)
  moreover have "snap_map (map (set_snap r) (snap_rows b d)) = (snap_map (snap_rows b d))(sr_seq r \<mapsto> sr_state r)"
    if "d = sr_doc_id r"
    using True that by (intro snap_map_set) (auto simp: snap_rows_def image_iff)
  ultimately show ?thesis by simp
next
  case False
  then have "put_snap r b = b\<lparr>snapshots := snapshots b @ [r]\<rparr>"
    unfolding put_snap_def by (rule if_not_P)
  then have "snap_rows (put_snap r b) d = (if d = sr_doc_id r then snap_rows b d @ [r] else snap_rows b d)"
    by (simp add: snap_rows_def)
  moreover have "sr_seq r \<notin> sr_seq ` set (snap_rows b (sr_doc_id r))"
    using False by (auto simp: snap_rows_def)
  ultimately show ?thesis by (simp add: snap_map_snoc)
qed

lemma put_snap_view:
  assumes "sr_doc_id r \<in> doc_ids b"
  shows "db_view (put_snap r b) = spec_save_snapshot (sr_doc_id r) (sr_state r) (sr_seq r) (db_view b)"
  using assms by (auto simp: db_view_def fun_eq_iff put_snap_rows spec_save_snapshot_def adoc_of_def)

text \<open>Deleting a document and, by the cascade, its operations and snapshots.\<close>

lemma delete_fields:
  "documents (snd (sql_delete_doc binary d b)) = filter (\<lambda>r. dr_id r \<noteq> d) (documents b)"
  "operations (snd (sql_delete_doc binary d b)) = filter (\<lambda>r. or_doc_id r \<noteq> d) (operations b)"
  "snapshots (snd (sql_delete_doc binary d b)) = filter (\<lambda>r. sr_doc_id r \<noteq> d) (snapshots b)"
  by (simp_all add: sql_delete_doc_def)

lemma delete_simps [simp]:
  "doc_ids (snd (sql_delete_doc binary d b)) = doc_ids b - {d}"
  "ops_of (snd (sql_delete_doc binary d b)) x = (if x = d then [] else ops_of b x)"
  "snap_rows (snd (sql_delete_doc binary d b)) x = (if x = d then [] else snap_rows b x)"
  by (auto simp: delete_fields doc_ids_def ops_of_def snap_rows_def filter_empty_conv intro: filter_cong)

lemma delete_count: "fst (sql_delete_doc binary d b) = 0 \<longleftrightarrow> d \<notin> doc_ids b"
  by (auto simp: sql_delete_doc_def filter_empty_conv doc_ids_def)

lemma delete_inv: "db_inv b \<Longrightarrow> db_inv (snd (sql_delete_doc binary d b))"
  by (auto simp: db_inv_def) (auto simp: delete_fields intro: distinct_map_filter)

lemma delete_view: "db_view (snd (sql_delete_doc binary d b)) = (db_view b)(d := None)"
  by (auto simp: db_view_def fun_eq_iff)

lemma delete_missing_id: "db_inv b \<Longrightarrow> d \<notin> doc_ids b \<Longrightarrow> db_view (snd (sql_delete_doc binary d b)) = db_view b"
  by (auto simp: delete_view db_view_def)

subsection \<open>What the backends share\<close>

lemma tx_exec_Inr [simp]: "tx_exec e k pre f r = Inr b \<longleftrightarrow> at e k = Succeeds \<and> r = Inr b"
  by (auto simp: tx_exec_def bindE_Inr_iff split: sum.splits)

lemma exec_cases:
  assumes "exec e k f r b = (x, b')"
  obtains "x = None" "r = Inr b'" "at e k = Succeeds"
  | v where "x = Some (DriverErr (f v))" "r = Inl v" "b' = b" "at e k = Succeeds"
  | m where "x = Some (drv m)" "b' = b \<or> r = Inr b'" "at e k \<noteq> Succeeds"
  using assms by (auto simp: exec_def split: sum.splits outcome.splits)

lemma exec_live [simp]: "at e k = Succeeds \<Longrightarrow> exec e k f (Inr b') b = (None, b')"
  by (simp add: exec_def)

lemma transaction_Inr:
  "transaction e body b = (Inr y, b') \<longleftrightarrow>
     at e AtBegin = Succeeds \<and> at e AtCommit = Succeeds \<and> body b = Inr (y, b')"
  by (auto simp: transaction_def query_def split: sum.splits outcome.splits)

lemma transaction_Inl:
  "transaction e body b = (Inl x, b') \<Longrightarrow> b' = b \<or> (\<exists>y. body b = Inr (y, b'))"
  by (auto simp: transaction_def split: sum.splits outcome.splits)

text \<open>A transaction is all or nothing, whatever fails in it.\<close>

lemma transaction_atomic:
  assumes "transaction e body b = (r, b')"
  shows "b' = b \<or> (\<exists>y. body b = Inr (y, b'))"
  using assms transaction_Inl [of e body b _ b'] transaction_Inr [of e body b _ b'] by (cases r) auto

lemma new_doc_sel [simp]:
  "dr_id (new_doc d m t) = d" "dr_metadata (new_doc d m t) = m" "dr_latest_seq (new_doc d m t) = 0"
  by (simp_all add: new_doc_def)

lemma first_write:
  assumes "db_inv b" "d \<notin> doc_ids b"
  shows "db_inv (add_doc (new_doc d ''{}'' t) b)"
    and "spec_append d p u t' (db_view (add_doc (new_doc d ''{}'' t) b)) = spec_append d p u t' (db_view b)"
proof -
  show "db_inv (add_doc (new_doc d ''{}'' t) b)"
    using assms by (intro add_doc_inv) (simp_all add: unmarshalMetadata_def)
  have "adoc_of (db_view b) d = empty_adoc"
    using assms(2) by (simp add: adoc_of_def db_view_def)
  then show "spec_append d p u t' (db_view (add_doc (new_doc d ''{}'' t) b)) = spec_append d p u t' (db_view b)"
    by (simp add: add_doc_view [OF assms(1)] assms(2) spec_append_def)
       (simp add: adoc_of_def)
qed

text \<open>
  The database after an append: the row of the document is there, the operation has the
  next number, and the row is advanced to it.
\<close>

definition next_seq :: "db \<Rightarrow> string \<Rightarrow> int" where
  "next_seq b d = int (length (ops_of b d)) + 1"

definition with_doc :: "string \<Rightarrow> int \<Rightarrow> db \<Rightarrow> db" where
  "with_doc d t b = (if d \<in> doc_ids b then b else add_doc (new_doc d ''{}'' t) b)"

definition appended :: "string \<Rightarrow> bytes \<Rightarrow> string \<Rightarrow> int \<Rightarrow> db \<Rightarrow> db" where
  "appended d p u t b =
     sql_update_doc binary d (next_seq b d) t (add_op (append_row d (next_seq b d) u p t) (with_doc d t b))"

lemma with_doc_simps [simp]:
  "ops_of (with_doc d t b) x = ops_of b x" "next_seq (with_doc d t b) x = next_seq b x"
  "d \<in> doc_ids (with_doc d t b)"
  by (simp_all add: with_doc_def next_seq_def)

lemma with_doc_inv: "db_inv b \<Longrightarrow> db_inv (with_doc d t b)"
  by (simp add: with_doc_def first_write)

lemma next_seq_i64: "int (length (ops_of b d)) < max_i64 \<Longrightarrow> i64 (int (length (ops_of b d)) + 1) = next_seq b d"
  by (simp add: next_seq_def i64_id)

lemma append_row_sel [simp]:
  "or_doc_id (append_row d q u p t) = d" "or_seq (append_row d q u p t) = q"
  "or_payload (append_row d q u p t) = p" "or_session_id (append_row d q u p t) = u"
  "or_created_at (append_row d q u p t) = t"
  by (simp_all add: append_row_def)

lemma append_insert_op:
  "db_inv b \<Longrightarrow> sql_insert_op binary (append_row d (next_seq b d) u p t) (with_doc d t b) =
     Inr (add_op (append_row d (next_seq b d) u p t) (with_doc d t b))"
  using with_doc_inv by (intro insert_op_eq) (simp_all add: next_seq_def)

lemma select_with_doc:
  assumes "db_inv b"
  obtains r where "sql_select_doc binary d (with_doc d t b) = Some r" "dr_latest_seq r = int (length (ops_of b d))"
proof -
  obtain r where "sql_select_doc binary d (with_doc d t b) = Some r"
    using select_doc_None [of d "with_doc d t b"] by auto
  with that select_doc_latest [OF with_doc_inv [OF assms] this] show thesis by simp
qed

lemma appended_ok:
  assumes "db_inv b"
  shows "db_inv (appended d p u t b)"
    and "db_view (appended d p u t b) = spec_append d p u t (db_view b)"
proof -
  note step = append_step [of "with_doc d t b" d "next_seq b d" "append_row d (next_seq b d) u p t",
      OF with_doc_inv [OF assms]]
  show "db_inv (appended d p u t b)"
    unfolding appended_def by (rule step(1)) (simp_all add: next_seq_def)
  have "db_view (appended d p u t b) = spec_append d p u t (db_view (with_doc d t b))"
    unfolding appended_def by (subst step(2)) (simp_all add: next_seq_def)
  then show "db_view (appended d p u t b) = spec_append d p u t (db_view b)"
    using assms by (simp add: with_doc_def first_write(2))
qed

text \<open>What the single-statement writes do to the view.\<close>

lemma create_exec:
  assumes "db_inv b" "exec e k f (sql_insert_doc binary (new_doc d (marshalMetadata m) t) b) b = (x, b')"
  shows "db_inv b'"
    and "x = None \<Longrightarrow> db_view b d = None \<and> db_view b' = (db_view b)(d \<mapsto> empty_adoc)"
    and "x = Some y \<Longrightarrow> y = DriverErr (f PrimaryKey) \<and> d \<in> doc_ids b \<and> b' = b
       \<or> (\<exists>m. y = drv m) \<and> (db_view b' = db_view b \<or> db_view b d = None \<and> db_view b' = (db_view b)(d \<mapsto> empty_adoc))"
proof -
  let ?r = "new_doc d (marshalMetadata m) t"
  have new: "db_inv (add_doc ?r b) \<and> db_view b d = None \<and> db_view (add_doc ?r b) = (db_view b)(d \<mapsto> empty_adoc)"
    if "d \<notin> doc_ids b"
    using that assms(1) add_doc_inv [OF assms(1), of ?r] add_doc_view [OF assms(1), of ?r]
    by (simp add: unmarshal_marshal) (simp add: db_view_def)
  have ins: "sql_insert_doc binary ?r b = (if d \<in> doc_ids b then Inl PrimaryKey else Inr (add_doc ?r b))"
    by (simp add: insert_doc_eq)
  show "db_inv b'" "x = None \<Longrightarrow> db_view b d = None \<and> db_view b' = (db_view b)(d \<mapsto> empty_adoc)"
    "x = Some y \<Longrightarrow> y = DriverErr (f PrimaryKey) \<and> d \<in> doc_ids b \<and> b' = b
       \<or> (\<exists>m. y = drv m) \<and> (db_view b' = db_view b \<or> db_view b d = None \<and> db_view b' = (db_view b)(d \<mapsto> empty_adoc))"
    by (rule exec_cases [OF assms(2)]; use assms(1) new ins in \<open>auto split: if_splits\<close>)+
qed

lemma save_exec:
  assumes "db_inv b" "exec e k f (sql_upsert_snapshot binary r b) b = (x, b')"
  shows "db_inv b'"
    and "x = None \<Longrightarrow> sr_doc_id r \<in> doc_ids b
       \<and> db_view b' = spec_save_snapshot (sr_doc_id r) (sr_state r) (sr_seq r) (db_view b)"
    and "db_view b' = db_view b \<or> sr_doc_id r \<in> doc_ids b
       \<and> db_view b' = spec_save_snapshot (sr_doc_id r) (sr_state r) (sr_seq r) (db_view b)"
  by (rule exec_cases [OF assms(2)]; use assms(1) in
      \<open>auto simp: upsert_eq put_snap_view put_snap_inv split: if_splits\<close>)+

lemma delete_exec:
  assumes "db_inv b" "exec e k f (Inr (snd (sql_delete_doc binary d b))) b = (x, b')"
  shows "db_inv b'"
    and "x = None \<Longrightarrow> db_view b' = (db_view b)(d := None)"
    and "db_view b' = db_view b \<or> db_view b' = (db_view b)(d := None)"
  by (rule exec_cases [OF assms(2)]; use assms(1) in \<open>auto simp: delete_view delete_inv\<close>)+

text \<open>The same with the error handling the backends put around the statement.\<close>

definition append_post :: "string \<Rightarrow> bytes \<Rightarrow> string \<Rightarrow> int \<Rightarrow> db \<Rightarrow> int res \<Rightarrow> db \<Rightarrow> bool" where
  "append_post d p u t b r b' \<longleftrightarrow> (b' = b \<or> b' = appended d p u t b)
      \<and> (\<forall>q. r = Inr q \<longrightarrow> q = next_seq b d \<and> b' = appended d p u t b)"

definition create_post :: "string \<Rightarrow> db \<Rightarrow> unit res \<Rightarrow> db \<Rightarrow> bool" where
  "create_post d b w b' \<longleftrightarrow> db_inv b'
      \<and> (w = Inr () \<longrightarrow> db_view b d = None \<and> db_view b' = (db_view b)(d \<mapsto> empty_adoc))
      \<and> (w = Inl ErrDocumentExists \<longrightarrow> d \<in> doc_ids b \<and> b' = b)
      \<and> (db_view b' = db_view b \<or> db_view b d = None \<and> db_view b' = (db_view b)(d \<mapsto> empty_adoc))"

definition save_post :: "string \<Rightarrow> bytes \<Rightarrow> int \<Rightarrow> db \<Rightarrow> unit res \<Rightarrow> db \<Rightarrow> bool" where
  "save_post d st q b w b' \<longleftrightarrow> db_inv b'
      \<and> (w = Inr () \<longrightarrow> d \<in> doc_ids b \<and> db_view b' = spec_save_snapshot d st q (db_view b))
      \<and> (db_view b' = db_view b \<or> d \<in> doc_ids b \<and> db_view b' = spec_save_snapshot d st q (db_view b))"

definition delete_post :: "string \<Rightarrow> db \<Rightarrow> unit res \<Rightarrow> db \<Rightarrow> bool" where
  "delete_post d b w b' \<longleftrightarrow> db_inv b'
      \<and> (w = Inr () \<longrightarrow> d \<in> doc_ids b \<and> db_view b' = (db_view b)(d := None))
      \<and> (w = Inl ErrDocumentNotFound \<longrightarrow> d \<notin> doc_ids b \<and> db_view b' = db_view b)
      \<and> (db_view b' = db_view b \<or> db_view b' = (db_view b)(d := None))"

lemma transaction_post:
  assumes "transaction e body b = (r, b')"
    and "\<And>q b'. body b = Inr (q, b') \<Longrightarrow> q = next_seq b d \<and> b' = appended d p u t b"
  shows "append_post d p u t b r b'"
  using transaction_atomic [OF assms(1)] assms by (auto simp: append_post_def transaction_Inr)

lemma create_result:
  assumes "db_inv b" "U (DriverErr (f PrimaryKey))" "\<And>m. \<not> U (drv m)"
    and "(case exec e k f (sql_insert_doc binary (new_doc d (marshalMetadata m) t) b) b of (err, b') \<Rightarrow>
           (case err of
              None \<Rightarrow> (Inr (), b')
            | Some x \<Rightarrow> if U x then (Inl ErrDocumentExists, b') else (Inl (Wrap pre x []), b'))) = (w, b')"
  shows "create_post d b w b'"
proof -
  obtain x where x: "exec e k f (sql_insert_doc binary (new_doc d (marshalMetadata m) t) b) b = (x, b')"
    using assms(4) by (auto split: prod.splits option.splits if_splits)
  note c = create_exec [OF assms(1) x]
  have "w = Inr () \<longrightarrow> db_view b d = None \<and> db_view b' = (db_view b)(d \<mapsto> empty_adoc)"
    using assms(4) c(2) by (auto simp: x split: option.splits if_splits)
  moreover have "w = Inl ErrDocumentExists \<longrightarrow> d \<in> doc_ids b \<and> b' = b"
    using assms(2-4) c(3) by (auto simp: x split: option.splits if_splits)
  moreover have "db_view b' = db_view b \<or> db_view b d = None \<and> db_view b' = (db_view b)(d \<mapsto> empty_adoc)"
    using c(2,3) by (cases x) auto
  ultimately show ?thesis unfolding create_post_def using c(1) by blast
qed

lemma save_result:
  assumes "db_inv b"
    and "(case exec e k f (sql_upsert_snapshot binary \<lparr>sr_doc_id = d, sr_seq = q, sr_state = st, sr_created_at = t\<rparr> b) b
          of (err, b') \<Rightarrow> (case err of None \<Rightarrow> (Inr (), b') | Some x \<Rightarrow> (Inl (Wrap pre x []), b'))) = (w, b')"
  shows "save_post d st q b w b'"
proof -
  let ?row = "\<lparr>sr_doc_id = d, sr_seq = q, sr_state = st, sr_created_at = t\<rparr>"
  obtain x where x: "exec e k f (sql_upsert_snapshot binary ?row b) b = (x, b')"
    using assms(2) by (auto split: prod.splits option.splits)
  from save_exec [OF assms(1) x] assms(2) show ?thesis
    by (auto simp: x save_post_def split: option.splits)
qed

lemma delete_result:
  assumes "db_inv b"
    and "(case exec e k f (Inr (snd (sql_delete_doc binary d b))) b of (err, b') \<Rightarrow>
           (case err of None \<Rightarrow> (bindE (Q (fst (sql_delete_doc binary d b))) (\<lambda>n. if n = 0 then Inl ErrDocumentNotFound else Inr ()), b')
            | Some x \<Rightarrow> (Inl (Wrap pre x []), b'))) = (w, b')"
    and "\<And>n n'. Q n = Inr n' \<Longrightarrow> n' = n" "\<And>n. Q n \<noteq> Inl ErrDocumentNotFound"
  shows "delete_post d b w b'"
proof -
  obtain x where x: "exec e k f (Inr (snd (sql_delete_doc binary d b))) b = (x, b')"
    using assms(2) by (auto split: prod.splits option.splits)
  note c = delete_exec [OF assms(1) x]
  have "w = Inr () \<longrightarrow> d \<in> doc_ids b \<and> db_view b' = (db_view b)(d := None)"
    using assms(2,3) c(2) delete_count [of d b]
    by (fastforce simp: x bindE_Inr_iff split: option.splits if_splits)
  moreover have "w = Inl ErrDocumentNotFound \<longrightarrow> d \<notin> doc_ids b \<and> db_view b' = db_view b"
  proof
    assume "w = Inl ErrDocumentNotFound"
    with assms(2,4) have "x = None" "Q (fst (sql_delete_doc binary d b)) = Inr 0"
      by (auto simp: x bindE_def split: option.splits sum.splits if_splits)
    moreover from assms(3) [OF this(2)] have "fst (sql_delete_doc binary d b) = 0" by simp
    ultimately have "x = None" "fst (sql_delete_doc binary d b) = 0" by simp_all
    with c(2) delete_count [of d b] show "d \<notin> doc_ids b \<and> db_view b' = db_view b"
      by (auto simp: db_view_def)
  qed
  ultimately show ?thesis unfolding delete_post_def using c(1,3) by blast
qed

text \<open>The transaction body of the backends that ensure the row first.\<close>

lemma ensure_body:
  assumes "db_inv b" "int (length (ops_of b d)) < max_i64"
  shows "bindE (tx_exec e AtEnsureDoc p1 f (Inr (sql_ensure_doc binary (new_doc d ''{}'' t) b))) (\<lambda>b1.
      bindE (query e AtSelectLatest p2 (sql_select_doc binary d b1)) (\<lambda>row.
      bindE (case row of None \<Rightarrow> Inl y | Some r \<Rightarrow> Inr (dr_latest_seq r)) (\<lambda>latest.
      bindE (tx_exec e AtInsertOp p3 f (sql_insert_op binary (append_row d (i64 (latest + 1)) u p t) b1)) (\<lambda>b2.
      bindE (tx_exec e AtUpdateDoc p4 f (Inr (sql_update_doc binary d (i64 (latest + 1)) t b2)))
        (\<lambda>b3. Inr (i64 (latest + 1), b3)))))) = Inr (q, b') \<longleftrightarrow>
     (\<forall>k \<in> {AtEnsureDoc, AtSelectLatest, AtInsertOp, AtUpdateDoc}. at e k = Succeeds)
     \<and> q = next_seq b d \<and> b' = appended d p u t b"
proof -
  have w: "sql_ensure_doc binary (new_doc d ''{}'' t) b = with_doc d t b"
    by (simp add: ensure_doc_eq with_doc_def)
  obtain r where r: "sql_select_doc binary d (with_doc d t b) = Some r" "dr_latest_seq r = int (length (ops_of b d))"
    by (rule select_with_doc [OF assms(1)])
  show ?thesis
    using append_insert_op [OF assms(1), of d u p t]
    by (auto simp: bindE_Inr_iff w r next_seq_i64 [OF assms(2)] appended_def)
qed

lemma scanDocument_inv:
  assumes "db_inv b"
  shows "scanDocument (sql_select_doc binary d b) = Inr doc \<Longrightarrow>
      d \<in> doc_ids b \<and> doc_ID doc = d \<and> doc_LatestSeq doc = int (length (ops_of b d))"
    and "scanDocument (sql_select_doc binary d b) = Inl ErrDocumentNotFound \<longleftrightarrow> d \<notin> doc_ids b"
    and "d \<in> doc_ids b \<Longrightarrow> \<exists>doc. scanDocument (sql_select_doc binary d b) = Inr doc"
proof -
  obtain r m where r: "sql_select_doc binary d b = Some r" "r \<in> set (documents b)" "dr_id r = d"
    "dr_latest_seq r = int (length (ops_of b d))" "unmarshalMetadata (dr_metadata r) = Inr m" if "d \<in> doc_ids b"
    using select_doc_None [of d b] select_doc_Some [of d b] select_doc_latest [OF assms, of d]
      select_doc_meta [OF assms, of d] by blast
  show "scanDocument (sql_select_doc binary d b) = Inr doc \<Longrightarrow>
      d \<in> doc_ids b \<and> doc_ID doc = d \<and> doc_LatestSeq doc = int (length (ops_of b d))"
    "scanDocument (sql_select_doc binary d b) = Inl ErrDocumentNotFound \<longleftrightarrow> d \<notin> doc_ids b"
    "d \<in> doc_ids b \<Longrightarrow> \<exists>doc. scanDocument (sql_select_doc binary d b) = Inr doc"
    by (cases "d \<in> doc_ids b"; use r select_doc_None [of d b] in \<open>auto simp: scanDocument_def\<close>)+
qed

lemma scanDocuments_inv:
  assumes "\<forall>r \<in> set rs. \<exists>m. unmarshalMetadata (dr_metadata r) = Inr m"
  shows "\<exists>docs. scanDocuments rs = Inr docs \<and> map doc_ID docs = map dr_id rs
     \<and> map doc_UpdatedAt docs = map dr_updated_at rs"
  using assms
proof (induction rs)
  case (Cons r rs)
  then obtain docs m where "scanDocuments rs = Inr docs" "map doc_ID docs = map dr_id rs"
    "map doc_UpdatedAt docs = map dr_updated_at rs" "unmarshalMetadata (dr_metadata r) = Inr m" by auto
  then show ?case by (simp add: scanDocument_def)
qed simp

text \<open>The rows a listing selects: newest first, a slice of the matching ones.\<close>

definition matching :: "int option \<Rightarrow> db \<Rightarrow> doc_row list" where
  "matching since b = filter (\<lambda>r. case since of None \<Rightarrow> True | Some u \<Rightarrow> u \<le> dr_updated_at r) (documents b)"

definition page :: "int option \<Rightarrow> int option \<Rightarrow> 'a list \<Rightarrow> 'a list" where
  "page limit offset xs = (case limit of None \<Rightarrow> id | Some n \<Rightarrow> take (nat n))
     ((case offset of None \<Rightarrow> id | Some n \<Rightarrow> drop (nat n)) xs)"

lemma list_docs_rows:
  shows "sql_list_docs t since limit offset b = page limit offset (sql_order_docs t (matching since b))"
    and "set (page limit offset xs) \<subseteq> set xs"
    and "distinct (map f xs) \<Longrightarrow> distinct (map f (page limit offset xs))"
    and "sorted_wrt R xs \<Longrightarrow> sorted_wrt R (page limit offset xs)"
  by (auto simp: page_def sql_list_docs_def matching_def distinct_map inj_on_def
      sorted_wrt_take sorted_wrt_drop dest: in_set_takeD in_set_dropD split: option.splits)

lemma order_docs:
  "mset (sql_order_docs t rs) = mset rs"
  "sorted_wrt (\<lambda>x y. dr_updated_at y \<le> dr_updated_at x) (sql_order_docs t rs)"
proof -
  show "mset (sql_order_docs t rs) = mset rs" by (simp add: sql_order_docs_def)
  have "sorted (map (\<lambda>r. - dr_updated_at r) (sql_order_docs t rs))"
    unfolding sql_order_docs_def by (rule sorted_sort_key)
  then show "sorted_wrt (\<lambda>x y. dr_updated_at y \<le> dr_updated_at x) (sql_order_docs t rs)"
    by (simp add: sorted_wrt_map)
qed

lemma select_snapshot_view:
  assumes "db_inv b"
  shows "sql_select_snapshot binary d b = Some r \<Longrightarrow>
      snaps_of (db_view b) d (sr_seq r) = Some (sr_state r) \<and> (\<forall>k \<in> dom (snaps_of (db_view b) d). k \<le> sr_seq r)"
    and "sql_select_snapshot binary d b = None \<Longrightarrow> snaps_of (db_view b) d = Map.empty"
  using assms select_snapshot_Some [of d b r]
  by (auto simp: snap_map_Some snap_rows_distinct dom_snap_map select_snapshot_None)
     (auto simp: snap_map_def)

text \<open>Collations that tell all texts apart compare like the binary one.\<close>

lemma inj_collation:
  assumes "inj c"
  shows "sql_select_doc c = sql_select_doc binary" "sql_insert_doc c = sql_insert_doc binary"
    "sql_ensure_doc c = sql_ensure_doc binary" "sql_insert_op c = sql_insert_op binary"
    "sql_update_doc c = sql_update_doc binary" "sql_delete_doc c = sql_delete_doc binary"
    "sql_select_ops c = sql_select_ops binary" "sql_upsert_snapshot c = sql_upsert_snapshot binary"
    "sql_select_snapshot c = sql_select_snapshot binary"
proof -
  have c: "c x = c y \<longleftrightarrow> x = y" for x y using assms by (simp add: inj_eq)
  show sel: "sql_select_doc c = sql_select_doc binary"
    by (simp add: sql_select_doc_def fun_eq_iff c)
  show "sql_insert_doc c = sql_insert_doc binary" "sql_ensure_doc c = sql_ensure_doc binary"
    "sql_insert_op c = sql_insert_op binary"
    "sql_update_doc c = sql_update_doc binary" "sql_delete_doc c = sql_delete_doc binary"
    "sql_select_ops c = sql_select_ops binary" "sql_select_snapshot c = sql_select_snapshot binary"
    by (simp_all add: fun_eq_iff c sel sql_insert_doc_def sql_ensure_doc_def sql_insert_op_def
        sql_update_doc_def sql_delete_doc_def sql_select_ops_def sql_select_snapshot_def)
  show "sql_upsert_snapshot c = sql_upsert_snapshot binary"
    unfolding sql_upsert_snapshot_def c sel by (rule refl)
qed

section \<open>SQL backends keep the contract\<close>

text \<open>
  What the methods of a backend amount to over the database: the reads send the same
  statements, a write commits or leaves the database as it was. A backend of this kind
  is a \<open>store\<close>.
\<close>

locale sql_backend =
  fixes S :: "db store_ops"
  assumes sql_append: "db_inv b \<Longrightarrow> int (length (ops_of b d)) < max_i64 \<Longrightarrow> AppendOp S e d p u b = (r, b') \<Longrightarrow>
        append_post d p u (now e AtInsertOp) b r b'"
    and sql_append_live: "db_inv b \<Longrightarrow> int (length (ops_of b d)) < max_i64 \<Longrightarrow> fault_free e \<Longrightarrow>
      AppendOp S e d p u b = (Inr (next_seq b d), appended d p u (now e AtInsertOp) b)"
    and sql_since: "GetOpsSince S e d k b =
      bindE (query e AtQueryOps ''query ops: '' (sql_select_ops binary (\<lambda>q. k < q) d b))
        (\<lambda>rs. query e AtScanOps [] (scanOpRows rs))"
    and sql_range: "GetOpsInRange S e d k l b =
      bindE (query e AtQueryOps ''query ops: '' (sql_select_ops binary (\<lambda>q. k \<le> q \<and> q \<le> l) d b))
        (\<lambda>rs. query e AtScanOps [] (scanOpRows rs))"
    and sql_latest: "GetLatestSeq S e d b =
      bindE (query e AtGetLatest ''get latest seq: '' (sql_select_doc binary d b))
        (\<lambda>row. case row of None \<Rightarrow> Inr 0 | Some r \<Rightarrow> Inr (dr_latest_seq r))"
    and sql_snapshot: "GetSnapshot S e d b =
      bindE (query e AtGetSnapshot ''get snapshot: '' (sql_select_snapshot binary d b))
        (\<lambda>row. case row of None \<Rightarrow> Inl ErrNoSnapshot | Some r \<Rightarrow> Inr (sr_state r, sr_seq r))"
    and sql_get: "GetDocument S e d b =
      bindE (query e AtGetDoc ''scan document: '' (sql_select_doc binary d b)) scanDocument"
    and sql_list: "ListDocuments S e f b =
      bindE (query e AtListDocs ''list documents: '' (sql_list_docs (tie e) (f_UpdatedSince f)
          (if 0 < f_Limit f then Some (f_Limit f) else None)
          (if 0 < f_Limit f \<and> 0 < f_Offset f then Some (f_Offset f) else None) b))
        (\<lambda>rows. bindE (scanDocuments rows) (\<lambda>docs. query e AtListScan [] docs))"
    and sql_save: "db_inv b \<Longrightarrow> SaveSnapshot S e d st k b = (w, b') \<Longrightarrow> save_post d st k b w b'"
    and sql_save_live: "db_inv b \<Longrightarrow> fault_free e \<Longrightarrow> d \<in> doc_ids b \<Longrightarrow> \<exists>b'. SaveSnapshot S e d st k b = (Inr (), b')"
    and sql_create: "db_inv b \<Longrightarrow> CreateDocument S e d m b = (w, b') \<Longrightarrow> create_post d b w b'"
    and sql_delete: "db_inv b \<Longrightarrow> DeleteDocument S e d b = (w, b') \<Longrightarrow> delete_post d b w b'"

sublocale sql_backend \<subseteq> store S db_inv db_view
proof
  fix s d e p u q s' y assume s: "db_inv s"
  show "numbered op_Seq (log_of (db_view s) d)" using s by (rule db_log_numbered)
  show "AppendOp S e d p u s = (Inr q, s') \<Longrightarrow> int (length (log_of (db_view s) d)) < max_i64 \<Longrightarrow>
      db_inv s' \<and> q = int (length (log_of (db_view s) d)) + 1 \<and> (\<exists>t. db_view s' = spec_append d p u t (db_view s))"
    using sql_append [of s d e p u _ s'] s appended_ok [OF s] by (auto simp: append_post_def next_seq_def)
  show "AppendOp S e d p u s = (Inl y, s') \<Longrightarrow> int (length (log_of (db_view s) d)) < max_i64 \<Longrightarrow>
      db_inv s' \<and> (db_view s' = db_view s \<or> (\<exists>t. db_view s' = spec_append d p u t (db_view s)))"
    using sql_append [of s d e p u _ s'] s appended_ok [OF s] by (auto simp: append_post_def)
  show "fault_free e \<Longrightarrow> int (length (log_of (db_view s) d)) < max_i64 \<Longrightarrow> \<exists>q s'. AppendOp S e d p u s = (Inr q, s')"
    using sql_append_live [OF s] s by auto
next
  fix s e d k l ops assume s: "db_inv s"
  show "GetOpsSince S e d k s = Inr ops \<Longrightarrow> ops = filter (\<lambda>x. k < op_Seq x) (log_of (db_view s) d)"
    by (auto simp: sql_since bindE_Inr_iff scan_select_ops [OF s])
  show "fault_free e \<Longrightarrow> \<exists>ops. GetOpsSince S e d k s = Inr ops"
    by (simp add: sql_since)
  show "GetOpsInRange S e d k l s = Inr ops \<Longrightarrow>
      ops = filter (\<lambda>x. k \<le> op_Seq x \<and> op_Seq x \<le> l) (log_of (db_view s) d)"
    by (auto simp: sql_range bindE_Inr_iff scan_select_ops [OF s])
next
  fix s e d st k s' y assume s: "db_inv s"
  show "SaveSnapshot S e d st k s = (Inr (), s') \<Longrightarrow>
      db_inv s' \<and> d \<in> dom (db_view s) \<and> db_view s' = spec_save_snapshot d st k (db_view s)"
    using sql_save [OF s] by (auto simp: save_post_def)
  show "SaveSnapshot S e d st k s = (Inl y, s') \<Longrightarrow> db_inv s' \<and> (db_view s' = db_view s
      \<or> d \<in> dom (db_view s) \<and> db_view s' = spec_save_snapshot d st k (db_view s))"
    using sql_save [OF s] by (auto simp: save_post_def)
  show "fault_free e \<Longrightarrow> d \<in> dom (db_view s) \<Longrightarrow> \<exists>s'. SaveSnapshot S e d st k s = (Inr (), s')"
    using sql_save_live [OF s] by simp
next
  fix s e d st k assume s: "db_inv s"
  show "GetSnapshot S e d s = Inr (st, k) \<Longrightarrow> snaps_of (db_view s) d k = Some st
      \<and> (\<forall>k' \<in> dom (snaps_of (db_view s) d). k' \<le> k)"
    using select_snapshot_view(1) [OF s]
    by (auto simp: sql_snapshot bindE_Inr_iff split: option.splits)
  show "GetSnapshot S e d s = Inl ErrNoSnapshot \<Longrightarrow> snaps_of (db_view s) d = Map.empty"
    using select_snapshot_view(2) [OF s]
    by (auto simp: sql_snapshot bindE_def split: option.splits sum.splits)
  show "fault_free e \<Longrightarrow> (\<exists>st k. GetSnapshot S e d s = Inr (st, k)) \<or> GetSnapshot S e d s = Inl ErrNoSnapshot"
    by (auto simp: sql_snapshot split: option.splits)
next
  fix s e d q assume s: "db_inv s"
  show "GetLatestSeq S e d s = Inr q \<Longrightarrow> q = int (length (log_of (db_view s) d))"
    using s select_doc_None [of d s] select_doc_latest [OF s, of d] ops_of_missing [OF s, of d]
    by (auto simp: sql_latest bindE_Inr_iff split: option.splits)
  show "fault_free e \<Longrightarrow> \<exists>q. GetLatestSeq S e d s = Inr q"
    by (auto simp: sql_latest split: option.splits)
next
  fix s e d m s' y assume s: "db_inv s"
  show "CreateDocument S e d m s = (Inr (), s') \<Longrightarrow>
      db_inv s' \<and> db_view s d = None \<and> db_view s' = (db_view s)(d \<mapsto> empty_adoc)"
    using sql_create [OF s] by (auto simp: create_post_def)
  show "CreateDocument S e d m s = (Inl y, s') \<Longrightarrow> db_inv s' \<and> (db_view s' = db_view s
      \<or> db_view s d = None \<and> db_view s' = (db_view s)(d \<mapsto> empty_adoc))"
    using sql_create [OF s] unfolding create_post_def by blast
  show "CreateDocument S e d m s = (Inl ErrDocumentExists, s') \<Longrightarrow> d \<in> dom (db_view s) \<and> db_view s' = db_view s"
    using sql_create [OF s, of e d m "Inl ErrDocumentExists" s'] by (simp add: create_post_def)
next
  fix s e d doc assume s: "db_inv s"
  show "GetDocument S e d s = Inr doc \<Longrightarrow> d \<in> dom (db_view s) \<and> doc_ID doc = d
      \<and> doc_LatestSeq doc = int (length (log_of (db_view s) d))"
    using scanDocument_inv(1) [OF s] s by (auto simp: sql_get bindE_Inr_iff)
  show "GetDocument S e d s = Inl ErrDocumentNotFound \<Longrightarrow> db_view s d = None"
    using scanDocument_inv(2) [OF s] by (auto simp: sql_get bindE_def db_view_def split: sum.splits)
  show "fault_free e \<Longrightarrow> d \<in> dom (db_view s) \<Longrightarrow> \<exists>doc. GetDocument S e d s = Inr doc"
    using scanDocument_inv(3) [OF s] by (simp add: sql_get)
next
  fix s e d s' y assume s: "db_inv s"
  show "DeleteDocument S e d s = (Inr (), s') \<Longrightarrow> db_inv s' \<and> d \<in> dom (db_view s) \<and> db_view s' = (db_view s)(d := None)"
    using sql_delete [OF s] by (auto simp: delete_post_def)
  show "DeleteDocument S e d s = (Inl y, s') \<Longrightarrow>
      db_inv s' \<and> (db_view s' = db_view s \<or> db_view s' = (db_view s)(d := None))"
    using sql_delete [OF s] unfolding delete_post_def by blast
  show "DeleteDocument S e d s = (Inl ErrDocumentNotFound, s') \<Longrightarrow> db_view s d = None \<and> db_view s' = db_view s"
    using sql_delete [OF s] by (auto simp: delete_post_def db_view_def)
qed

end
