(* ===== verification/Sqlite.thy ===== *)
theory Sqlite
  imports Sql
begin

text \<open>
  \<^verbatim>\<open>internal/storage/sqlite.go\<close>: the default backend, one definition per method. Text
  columns compare binary. The interpretation \<open>sqlite\<close> shows that the methods keep the
  contract of the \<^verbatim>\<open>Store\<close> interface.
\<close>

section \<open>Operations\<close>

text \<open>
  What \<^verbatim>\<open>sqlite3.Error\<close> carries for a violated constraint: \<^verbatim>\<open>ErrConstraint\<close> is 19, the
  extended codes are \<^verbatim>\<open>SQLITE_CONSTRAINT_PRIMARYKEY\<close> and \<^verbatim>\<open>..._FOREIGNKEY\<close>.
\<close>

fun sqlite_code :: "violation \<Rightarrow> drverr" where
  "sqlite_code PrimaryKey = SqliteError 19 1555 ''UNIQUE constraint failed''"
| "sqlite_code ForeignKey = SqliteError 19 787 ''FOREIGN KEY constraint failed''"

definition isUniqueViolation :: "goerr \<Rightarrow> bool" where
  "isUniqueViolation err =
     (case errors_As_driver err of
        Some (SqliteError code ext _) \<Rightarrow> code = 19 \<and> ext = 1555
      | _ \<Rightarrow> False)"

definition sqlite_CreateDocument :: "env \<Rightarrow> string \<Rightarrow> strmap \<Rightarrow> db \<Rightarrow> unit res \<times> db" where
  "sqlite_CreateDocument e d m b =
     (let meta = marshalMetadata m;
          t = now e AtCreateDoc;
          (err, b') = exec e AtCreateDoc sqlite_code (sql_insert_doc binary (new_doc d meta t) b) b
      in case err of
           Some x \<Rightarrow> if isUniqueViolation x then (Inl ErrDocumentExists, b')
                     else (Inl (Wrap ''create document: '' x []), b')
         | None \<Rightarrow> (Inr (), b'))"

definition sqlite_GetDocument :: "env \<Rightarrow> string \<Rightarrow> db \<Rightarrow> Document res" where
  "sqlite_GetDocument e d b =
     bindE (query e AtGetDoc ''scan document: '' (sql_select_doc binary d b)) scanDocument"

definition sqlite_ListDocuments :: "env \<Rightarrow> DocumentFilter \<Rightarrow> db \<Rightarrow> Document list res" where
  "sqlite_ListDocuments e f b =
     (let limit = (if 0 < f_Limit f then Some (f_Limit f) else None);
          offset = (if 0 < f_Limit f \<and> 0 < f_Offset f then Some (f_Offset f) else None)
      in bindE (query e AtListDocs ''list documents: '' (sql_list_docs (tie e) (f_UpdatedSince f) limit offset b))
           (\<lambda>rows. bindE (scanDocuments rows) (\<lambda>docs. query e AtListScan [] docs)))"

definition sqlite_DeleteDocument :: "env \<Rightarrow> string \<Rightarrow> db \<Rightarrow> unit res \<times> db" where
  "sqlite_DeleteDocument e d b =
     (let (n, b1) = sql_delete_doc binary d b;
          (err, b') = exec e AtDeleteDoc sqlite_code (Inr b1) b
      in case err of
           Some x \<Rightarrow> (Inl (Wrap ''delete document: '' x []), b')
         | None \<Rightarrow>
             (bindE (query e AtRowsAffected ''delete document rows affected: '' n)
                (\<lambda>n. if n = 0 then Inl ErrDocumentNotFound else Inr ()), b'))"

definition sqlite_append_body :: "env \<Rightarrow> string \<Rightarrow> bytes \<Rightarrow> string \<Rightarrow> db \<Rightarrow> (int \<times> db) res" where
  "sqlite_append_body e d change u b =
     (let t = now e AtInsertOp in
      bindE (query e AtSelectLatest ''read latest seq: '' (sql_select_doc binary d b)) (\<lambda>row.
      bindE (case row of
               None \<Rightarrow>
                 bindE (tx_exec e AtInsertDoc ''create document on first write: '' sqlite_code
                          (sql_insert_doc binary (new_doc d ''{}'' t) b)) (\<lambda>b1. Inr (0, b1))
             | Some r \<Rightarrow> Inr (dr_latest_seq r, b)) (\<lambda>(latest, b1).
      let q = i64 (latest + 1) in
      bindE (tx_exec e AtInsertOp ''insert operation: '' sqlite_code
               (sql_insert_op binary (append_row d q u change t) b1)) (\<lambda>b2.
      bindE (tx_exec e AtUpdateDoc ''advance latest seq: '' sqlite_code
               (Inr (sql_update_doc binary d q t b2))) (\<lambda>b3. Inr (q, b3))))))"

definition sqlite_AppendOp :: "env \<Rightarrow> string \<Rightarrow> bytes \<Rightarrow> string \<Rightarrow> db \<Rightarrow> int res \<times> db" where
  "sqlite_AppendOp e d change u b = transaction e (sqlite_append_body e d change u) b"

definition sqlite_queryOps :: "env \<Rightarrow> op_row list \<Rightarrow> StoredOp list res" where
  "sqlite_queryOps e rows =
     bindE (query e AtQueryOps ''query ops: '' rows) (\<lambda>rs. query e AtScanOps [] (scanOpRows rs))"

definition sqlite_GetOpsSince :: "env \<Rightarrow> string \<Rightarrow> int \<Rightarrow> db \<Rightarrow> StoredOp list res" where
  "sqlite_GetOpsSince e d afterSeq b = sqlite_queryOps e (sql_select_ops binary (\<lambda>q. afterSeq < q) d b)"

definition sqlite_GetOpsInRange :: "env \<Rightarrow> string \<Rightarrow> int \<Rightarrow> int \<Rightarrow> db \<Rightarrow> StoredOp list res" where
  "sqlite_GetOpsInRange e d fromSeq toSeq b =
     sqlite_queryOps e (sql_select_ops binary (\<lambda>q. fromSeq \<le> q \<and> q \<le> toSeq) d b)"

definition sqlite_GetLatestSeq :: "env \<Rightarrow> string \<Rightarrow> db \<Rightarrow> int res" where
  "sqlite_GetLatestSeq e d b =
     bindE (query e AtGetLatest ''get latest seq: '' (sql_select_doc binary d b))
       (\<lambda>row. case row of None \<Rightarrow> Inr 0 | Some r \<Rightarrow> Inr (dr_latest_seq r))"

definition sqlite_SaveSnapshot :: "env \<Rightarrow> string \<Rightarrow> bytes \<Rightarrow> int \<Rightarrow> db \<Rightarrow> unit res \<times> db" where
  "sqlite_SaveSnapshot e d state atSeq b =
     (let row = \<lparr>sr_doc_id = d, sr_seq = atSeq, sr_state = state, sr_created_at = now e AtSaveSnapshot\<rparr>;
          (err, b') = exec e AtSaveSnapshot sqlite_code (sql_upsert_snapshot binary row b) b
      in case err of
           Some x \<Rightarrow> (Inl (Wrap ''save snapshot: '' x []), b')
         | None \<Rightarrow> (Inr (), b'))"

definition sqlite_GetSnapshot :: "env \<Rightarrow> string \<Rightarrow> db \<Rightarrow> (bytes \<times> int) res" where
  "sqlite_GetSnapshot e d b =
     bindE (query e AtGetSnapshot ''get snapshot: '' (sql_select_snapshot binary d b))
       (\<lambda>row. case row of None \<Rightarrow> Inl ErrNoSnapshot | Some r \<Rightarrow> Inr (sr_state r, sr_seq r))"

definition sqlite_HealthCheck :: "env \<Rightarrow> db \<Rightarrow> unit res" where
  "sqlite_HealthCheck e b =
     (case at e AtPing of Succeeds \<Rightarrow> Inr () | Fails m \<Rightarrow> Inl (drv m) | Lost m \<Rightarrow> Inl (drv m))"

definition sqlite_store :: "db store_ops" where
  "sqlite_store =
     \<lparr>AppendOp = sqlite_AppendOp, GetOpsSince = sqlite_GetOpsSince, GetOpsInRange = sqlite_GetOpsInRange,
      SaveSnapshot = sqlite_SaveSnapshot, GetSnapshot = sqlite_GetSnapshot, GetLatestSeq = sqlite_GetLatestSeq,
      CreateDocument = sqlite_CreateDocument, GetDocument = sqlite_GetDocument,
      ListDocuments = sqlite_ListDocuments, DeleteDocument = sqlite_DeleteDocument,
      HealthCheck = sqlite_HealthCheck\<rparr>"

section \<open>The contract\<close>

lemma sqlite_sel [simp]:
  "AppendOp sqlite_store = sqlite_AppendOp" "GetOpsSince sqlite_store = sqlite_GetOpsSince"
  "GetOpsInRange sqlite_store = sqlite_GetOpsInRange" "SaveSnapshot sqlite_store = sqlite_SaveSnapshot"
  "GetSnapshot sqlite_store = sqlite_GetSnapshot" "GetLatestSeq sqlite_store = sqlite_GetLatestSeq"
  "CreateDocument sqlite_store = sqlite_CreateDocument" "GetDocument sqlite_store = sqlite_GetDocument"
  "ListDocuments sqlite_store = sqlite_ListDocuments" "DeleteDocument sqlite_store = sqlite_DeleteDocument"
  "HealthCheck sqlite_store = sqlite_HealthCheck"
  by (simp_all add: sqlite_store_def)

lemma sqlite_body:
  assumes "db_inv b" "int (length (ops_of b d)) < max_i64"
  shows "sqlite_append_body e d p u b = Inr (q, b') \<longleftrightarrow>
     (\<forall>k \<in> {AtSelectLatest, AtInsertOp, AtUpdateDoc}. at e k = Succeeds)
     \<and> (d \<notin> doc_ids b \<longrightarrow> at e AtInsertDoc = Succeeds)
     \<and> q = next_seq b d \<and> b' = appended d p u (now e AtInsertOp) b"
proof -
  let ?t = "now e AtInsertOp"
  note ins = append_insert_op [OF assms(1), of d u p ?t]
  show ?thesis
  proof (cases "d \<in> doc_ids b")
    case True
    then obtain r where r: "sql_select_doc binary d b = Some r" using select_doc_None by blast
    have w: "with_doc d ?t b = b" using True by (simp add: with_doc_def)
    show ?thesis
      using True ins by (auto simp: sqlite_append_body_def Let_def bindE_Inr_iff r appended_def w
          select_doc_latest [OF assms(1) r] next_seq_i64 [OF assms(2)])
  next
    case False
    then have r: "sql_select_doc binary d b = None" using select_doc_None by blast
    have w: "with_doc d ?t b = add_doc (new_doc d ''{}'' ?t) b" using False by (simp add: with_doc_def)
    have q: "i64 (0 + 1) = next_seq b d"
      using ops_of_missing [OF assms(1) False] by (simp add: next_seq_def i64_def)
    show ?thesis
      using False ins by (auto simp: sqlite_append_body_def Let_def bindE_Inr_iff r appended_def w
          insert_doc_eq q simp del: add_0)
  qed
qed

lemma sqlite_append_live:
  "db_inv b \<Longrightarrow> int (length (ops_of b d)) < max_i64 \<Longrightarrow> fault_free e \<Longrightarrow>
   sqlite_AppendOp e d p u b = (Inr (next_seq b d), appended d p u (now e AtInsertOp) b)"
  by (simp add: sqlite_AppendOp_def transaction_Inr sqlite_body)

lemma sqlite_unique: "isUniqueViolation (DriverErr (sqlite_code PrimaryKey))" "\<not> isUniqueViolation (drv m)"
  by (simp_all add: isUniqueViolation_def drv_def)

lemma sqlite_save_live:
  "db_inv b \<Longrightarrow> fault_free e \<Longrightarrow> d \<in> doc_ids b \<Longrightarrow> \<exists>b'. sqlite_SaveSnapshot e d st k b = (Inr (), b')"
  by (simp add: sqlite_SaveSnapshot_def upsert_eq)

interpretation sqlite: sql_backend sqlite_store
proof (unfold_locales, unfold sqlite_sel)
  fix b b' d e p u m w st k and r :: "int res" assume b: "db_inv b"
  show "append_post d p u (now e AtInsertOp) b r b'"
    if "sqlite_AppendOp e d p u b = (r, b')" "int (length (ops_of b d)) < max_i64"
    using that(1) unfolding sqlite_AppendOp_def
    by (rule transaction_post) (simp add: sqlite_body [OF b that(2)])
  show "create_post d b w b'" if "sqlite_CreateDocument e d m b = (w, b')"
    using that unfolding sqlite_CreateDocument_def Let_def
    by (rule create_result [where U = isUniqueViolation and f = sqlite_code, OF b sqlite_unique])
  show "save_post d st k b w b'" if "sqlite_SaveSnapshot e d st k b = (w, b')"
    using that unfolding sqlite_SaveSnapshot_def Let_def by (rule save_result [OF b])
  show "delete_post d b w b'" if "sqlite_DeleteDocument e d b = (w, b')"
    using that unfolding sqlite_DeleteDocument_def Let_def case_prod_beta [of _ "sql_delete_doc binary d b"]
    by (rule delete_result [OF b]) simp_all
qed (simp_all add: sqlite_append_live sqlite_save_live sqlite_GetOpsSince_def sqlite_GetOpsInRange_def
    sqlite_queryOps_def sqlite_GetLatestSeq_def sqlite_GetSnapshot_def sqlite_GetDocument_def sqlite_ListDocuments_def)

end
