(* ===== verification/Postgres.thy ===== *)
theory Postgres
  imports Sql
begin

text \<open>
  \<^verbatim>\<open>internal/storage/postgres.go\<close>: the PostgreSQL backend. An append ensures the row of
  the document and locks it before it reads the number. The interpretation \<open>pg\<close>
  shows that the methods keep the contract of the \<^verbatim>\<open>Store\<close> interface.
\<close>

section \<open>Operations\<close>

text \<open>The SQLSTATE codes of PostgreSQL: unique\_violation and foreign\_key\_violation.\<close>

fun pg_code :: "violation \<Rightarrow> drverr" where
  "pg_code PrimaryKey = PgError ''23505'' ''duplicate key value violates unique constraint''"
| "pg_code ForeignKey = PgError ''23503'' ''violates foreign key constraint''"

definition isPGUniqueViolation :: "goerr \<Rightarrow> bool" where
  "isPGUniqueViolation err =
     (case errors_As_driver err of Some (PgError code _) \<Rightarrow> code = ''23505'' | _ \<Rightarrow> False)"

definition pgScanDocument :: "doc_row option \<Rightarrow> Document res" where
  "pgScanDocument row =
     (case row of
        None \<Rightarrow> Inl ErrDocumentNotFound
      | Some r \<Rightarrow>
          bindE (unmarshalMetadata (dr_metadata r)) (\<lambda>m.
            Inr \<lparr>doc_ID = dr_id r, doc_Metadata = m, doc_LatestSeq = dr_latest_seq r,
                 doc_CreatedAt = dr_created_at r, doc_UpdatedAt = dr_updated_at r\<rparr>))"

fun pgScanDocuments :: "doc_row list \<Rightarrow> Document list res" where
  "pgScanDocuments [] = Inr []"
| "pgScanDocuments (r # rs) =
     bindE (pgScanDocument (Some r)) (\<lambda>doc. bindE (pgScanDocuments rs) (\<lambda>docs. Inr (doc # docs)))"

definition pg_CreateDocument :: "env \<Rightarrow> string \<Rightarrow> strmap \<Rightarrow> db \<Rightarrow> unit res \<times> db" where
  "pg_CreateDocument e d m b =
     (let meta = marshalMetadata m;
          t = now e AtCreateDoc;
          (err, b') = exec e AtCreateDoc pg_code (sql_insert_doc binary (new_doc d meta t) b) b
      in case err of
           Some x \<Rightarrow> if isPGUniqueViolation x then (Inl ErrDocumentExists, b')
                     else (Inl (Wrap ''create document: '' x []), b')
         | None \<Rightarrow> (Inr (), b'))"

definition pg_GetDocument :: "env \<Rightarrow> string \<Rightarrow> db \<Rightarrow> Document res" where
  "pg_GetDocument e d b =
     bindE (query e AtGetDoc ''scan document: '' (sql_select_doc binary d b)) pgScanDocument"

definition pg_ListDocuments :: "env \<Rightarrow> DocumentFilter \<Rightarrow> db \<Rightarrow> Document list res" where
  "pg_ListDocuments e f b =
     (let limit = (if 0 < f_Limit f then Some (f_Limit f) else None);
          offset = (if 0 < f_Limit f \<and> 0 < f_Offset f then Some (f_Offset f) else None)
      in bindE (query e AtListDocs ''list documents: '' (sql_list_docs (tie e) (f_UpdatedSince f) limit offset b))
           (\<lambda>rows. bindE (pgScanDocuments rows) (\<lambda>docs. query e AtListScan [] docs)))"

definition pg_DeleteDocument :: "env \<Rightarrow> string \<Rightarrow> db \<Rightarrow> unit res \<times> db" where
  "pg_DeleteDocument e d b =
     (let (n, b1) = sql_delete_doc binary d b;
          (err, b') = exec e AtDeleteDoc pg_code (Inr b1) b
      in case err of
           Some x \<Rightarrow> (Inl (Wrap ''delete document: '' x []), b')
         | None \<Rightarrow>
             (if n = 0 then Inl ErrDocumentNotFound else Inr (), b'))"

definition pg_append_body :: "env \<Rightarrow> string \<Rightarrow> bytes \<Rightarrow> string \<Rightarrow> db \<Rightarrow> (int \<times> db) res" where
  "pg_append_body e d change u b =
     (let t = now e AtInsertOp in
      bindE (tx_exec e AtEnsureDoc ''ensure document on first write: '' pg_code
               (Inr (sql_ensure_doc binary (new_doc d ''{}'' t) b))) (\<lambda>b1.
      bindE (query e AtSelectLatest ''read latest seq: '' (sql_select_doc binary d b1)) (\<lambda>row.
      bindE (case row of
               None \<Rightarrow> Inl (Wrap ''read latest seq: '' ErrNoRows [])
             | Some r \<Rightarrow> Inr (dr_latest_seq r)) (\<lambda>latest.
      let q = i64 (latest + 1) in
      bindE (tx_exec e AtInsertOp ''insert operation: '' pg_code
               (sql_insert_op binary (append_row d q u change t) b1)) (\<lambda>b2.
      bindE (tx_exec e AtUpdateDoc ''advance latest seq: '' pg_code
               (Inr (sql_update_doc binary d q t b2))) (\<lambda>b3. Inr (q, b3)))))))"

definition pg_AppendOp :: "env \<Rightarrow> string \<Rightarrow> bytes \<Rightarrow> string \<Rightarrow> db \<Rightarrow> int res \<times> db" where
  "pg_AppendOp e d change u b = transaction e (pg_append_body e d change u) b"

definition pg_queryOps :: "env \<Rightarrow> op_row list \<Rightarrow> StoredOp list res" where
  "pg_queryOps e rows =
     bindE (query e AtQueryOps ''query ops: '' rows) (\<lambda>rs. query e AtScanOps [] (scanOpRows rs))"

definition pg_GetOpsSince :: "env \<Rightarrow> string \<Rightarrow> int \<Rightarrow> db \<Rightarrow> StoredOp list res" where
  "pg_GetOpsSince e d afterSeq b = pg_queryOps e (sql_select_ops binary (\<lambda>q. afterSeq < q) d b)"

definition pg_GetOpsInRange :: "env \<Rightarrow> string \<Rightarrow> int \<Rightarrow> int \<Rightarrow> db \<Rightarrow> StoredOp list res" where
  "pg_GetOpsInRange e d fromSeq toSeq b =
     pg_queryOps e (sql_select_ops binary (\<lambda>q. fromSeq \<le> q \<and> q \<le> toSeq) d b)"

definition pg_GetLatestSeq :: "env \<Rightarrow> string \<Rightarrow> db \<Rightarrow> int res" where
  "pg_GetLatestSeq e d b =
     bindE (query e AtGetLatest ''get latest seq: '' (sql_select_doc binary d b))
       (\<lambda>row. case row of None \<Rightarrow> Inr 0 | Some r \<Rightarrow> Inr (dr_latest_seq r))"

definition pg_SaveSnapshot :: "env \<Rightarrow> string \<Rightarrow> bytes \<Rightarrow> int \<Rightarrow> db \<Rightarrow> unit res \<times> db" where
  "pg_SaveSnapshot e d state atSeq b =
     (let row = \<lparr>sr_doc_id = d, sr_seq = atSeq, sr_state = state, sr_created_at = now e AtSaveSnapshot\<rparr>;
          (err, b') = exec e AtSaveSnapshot pg_code (sql_upsert_snapshot binary row b) b
      in case err of
           Some x \<Rightarrow> (Inl (Wrap ''save snapshot: '' x []), b')
         | None \<Rightarrow> (Inr (), b'))"

definition pg_GetSnapshot :: "env \<Rightarrow> string \<Rightarrow> db \<Rightarrow> (bytes \<times> int) res" where
  "pg_GetSnapshot e d b =
     bindE (query e AtGetSnapshot ''get snapshot: '' (sql_select_snapshot binary d b))
       (\<lambda>row. case row of None \<Rightarrow> Inl ErrNoSnapshot | Some r \<Rightarrow> Inr (sr_state r, sr_seq r))"

definition pg_HealthCheck :: "env \<Rightarrow> db \<Rightarrow> unit res" where
  "pg_HealthCheck e b =
     (case at e AtPing of Succeeds \<Rightarrow> Inr () | Fails m \<Rightarrow> Inl (drv m) | Lost m \<Rightarrow> Inl (drv m))"

definition pg_store :: "db store_ops" where
  "pg_store =
     \<lparr>AppendOp = pg_AppendOp, GetOpsSince = pg_GetOpsSince, GetOpsInRange = pg_GetOpsInRange,
      SaveSnapshot = pg_SaveSnapshot, GetSnapshot = pg_GetSnapshot, GetLatestSeq = pg_GetLatestSeq,
      CreateDocument = pg_CreateDocument, GetDocument = pg_GetDocument,
      ListDocuments = pg_ListDocuments, DeleteDocument = pg_DeleteDocument,
      HealthCheck = pg_HealthCheck\<rparr>"

section \<open>The contract\<close>

lemma pg_sel [simp]:
  "AppendOp pg_store = pg_AppendOp" "GetOpsSince pg_store = pg_GetOpsSince"
  "GetOpsInRange pg_store = pg_GetOpsInRange" "SaveSnapshot pg_store = pg_SaveSnapshot"
  "GetSnapshot pg_store = pg_GetSnapshot" "GetLatestSeq pg_store = pg_GetLatestSeq"
  "CreateDocument pg_store = pg_CreateDocument" "GetDocument pg_store = pg_GetDocument"
  "ListDocuments pg_store = pg_ListDocuments" "DeleteDocument pg_store = pg_DeleteDocument"
  "HealthCheck pg_store = pg_HealthCheck"
  by (simp_all add: pg_store_def)

lemma pg_body:
  assumes "db_inv b" "int (length (ops_of b d)) < max_i64"
  shows "pg_append_body e d p u b = Inr (q, b') \<longleftrightarrow>
     (\<forall>k \<in> {AtEnsureDoc, AtSelectLatest, AtInsertOp, AtUpdateDoc}. at e k = Succeeds)
     \<and> q = next_seq b d \<and> b' = appended d p u (now e AtInsertOp) b"
  unfolding pg_append_body_def Let_def by (rule ensure_body [OF assms])

lemma pg_append_live:
  "db_inv b \<Longrightarrow> int (length (ops_of b d)) < max_i64 \<Longrightarrow> fault_free e \<Longrightarrow>
   pg_AppendOp e d p u b = (Inr (next_seq b d), appended d p u (now e AtInsertOp) b)"
  by (simp add: pg_AppendOp_def transaction_Inr pg_body)

lemma pg_unique: "isPGUniqueViolation (DriverErr (pg_code PrimaryKey))" "\<not> isPGUniqueViolation (drv m)"
  by (simp_all add: isPGUniqueViolation_def drv_def)

lemma pgScanDocument_eq [simp]: "pgScanDocument = scanDocument"
  by (simp add: fun_eq_iff pgScanDocument_def scanDocument_def)

lemma pgScanDocuments_eq [simp]: "pgScanDocuments rs = scanDocuments rs"
  by (induction rs) simp_all

lemma pg_save_live:
  "db_inv b \<Longrightarrow> fault_free e \<Longrightarrow> d \<in> doc_ids b \<Longrightarrow> \<exists>b'. pg_SaveSnapshot e d st k b = (Inr (), b')"
  by (simp add: pg_SaveSnapshot_def upsert_eq)

interpretation pg: sql_backend pg_store
proof (unfold_locales, unfold pg_sel)
  fix b b' d e p u m w st k and r :: "int res" assume b: "db_inv b"
  show "append_post d p u (now e AtInsertOp) b r b'"
    if "pg_AppendOp e d p u b = (r, b')" "int (length (ops_of b d)) < max_i64"
    using that(1) unfolding pg_AppendOp_def
    by (rule transaction_post) (simp add: pg_body [OF b that(2)])
  show "create_post d b w b'" if "pg_CreateDocument e d m b = (w, b')"
    using that unfolding pg_CreateDocument_def Let_def
    by (rule create_result [where U = isPGUniqueViolation and f = pg_code, OF b pg_unique])
  show "save_post d st k b w b'" if "pg_SaveSnapshot e d st k b = (w, b')"
    using that unfolding pg_SaveSnapshot_def Let_def by (rule save_result [OF b])
  show "delete_post d b w b'" if "pg_DeleteDocument e d b = (w, b')"
    using that unfolding pg_DeleteDocument_def Let_def case_prod_beta [of _ "sql_delete_doc binary d b"]
    by (rule delete_result [where Q = Inr, OF b, unfolded bindE_simps]) simp_all
qed (simp_all add: pg_append_live pg_save_live pg_GetOpsSince_def pg_GetOpsInRange_def
    pg_queryOps_def pg_GetLatestSeq_def pg_GetSnapshot_def pg_GetDocument_def pg_ListDocuments_def)

end
