(* ===== verification/Mysql.thy ===== *)
theory Mysql
  imports Sql
begin

text \<open>
  \<^verbatim>\<open>internal/storage/mysql.go\<close>: the MySQL backend. Its tables are declared with a character
  set and no collation, so text keys compare under the collation of the server: it is
  a parameter \<open>c\<close> of every method. Under a collation that tells all texts apart the
  methods keep the contract of the \<^verbatim>\<open>Store\<close> interface (locale \<open>mysql_collation\<close>,
  interpreted at the c collation). The columns bound their values (\<^verbatim>\<open>VARCHAR(255)\<close> for ids and
  session ids, \<^verbatim>\<open>TEXT\<close> for metadata); the server refuses a longer one, which is a failing
  outcome of the statement (\<open>AtCreateDoc\<close>, \<open>AtEnsureDoc\<close>, \<open>AtInsertOp\<close>, \<open>AtSaveSnapshot\<close>), so a
  call in an environment without faults is one whose values fit. \<open>Backends\<close> states which
  values fit all three schemas.
\<close>

section \<open>Operations\<close>

text \<open>The error numbers of MySQL: ER\_DUP\_ENTRY and ER\_NO\_REFERENCED\_ROW\_2.\<close>

fun mysql_code :: "violation \<Rightarrow> drverr" where
  "mysql_code PrimaryKey = MySQLError 1062 ''Duplicate entry''"
| "mysql_code ForeignKey = MySQLError 1452 ''Cannot add or update a child row''"

definition isMySQLDuplicate :: "goerr \<Rightarrow> bool" where
  "isMySQLDuplicate err =
     (case errors_As_driver err of Some (MySQLError number _) \<Rightarrow> number = 1062 | _ \<Rightarrow> False)"

definition mysql_CreateDocument :: "collation \<Rightarrow> env \<Rightarrow> string \<Rightarrow> strmap \<Rightarrow> db \<Rightarrow> unit res \<times> db" where
  "mysql_CreateDocument c e d m b =
     (let meta = marshalMetadata m;
          t = now e AtCreateDoc;
          (err, b') = exec e AtCreateDoc mysql_code (sql_insert_doc c (new_doc d meta t) b) b
      in case err of
           Some x \<Rightarrow> if isMySQLDuplicate x then (Inl ErrDocumentExists, b')
                     else (Inl (Wrap ''create document: '' x []), b')
         | None \<Rightarrow> (Inr (), b'))"

definition mysql_GetDocument :: "collation \<Rightarrow> env \<Rightarrow> string \<Rightarrow> db \<Rightarrow> Document res" where
  "mysql_GetDocument c e d b =
     bindE (query e AtGetDoc ''scan document: '' (sql_select_doc c d b)) scanDocument"

definition mysql_ListDocuments :: "env \<Rightarrow> DocumentFilter \<Rightarrow> db \<Rightarrow> Document list res" where
  "mysql_ListDocuments e f b =
     (let limit = (if 0 < f_Limit f then Some (f_Limit f) else None);
          offset = (if 0 < f_Limit f \<and> 0 < f_Offset f then Some (f_Offset f) else None)
      in bindE (query e AtListDocs ''list documents: '' (sql_list_docs (tie e) (f_UpdatedSince f) limit offset b))
           (\<lambda>rows. bindE (scanDocuments rows) (\<lambda>docs. query e AtListScan [] docs)))"

definition mysql_DeleteDocument :: "collation \<Rightarrow> env \<Rightarrow> string \<Rightarrow> db \<Rightarrow> unit res \<times> db" where
  "mysql_DeleteDocument c e d b =
     (let (n, b1) = sql_delete_doc c d b;
          (err, b') = exec e AtDeleteDoc mysql_code (Inr b1) b
      in case err of
           Some x \<Rightarrow> (Inl (Wrap ''delete document: '' x []), b')
         | None \<Rightarrow>
             (bindE (query e AtRowsAffected ''delete document rows affected: '' n)
                (\<lambda>n. if n = 0 then Inl ErrDocumentNotFound else Inr ()), b'))"

definition mysql_append_body :: "collation \<Rightarrow> env \<Rightarrow> string \<Rightarrow> bytes \<Rightarrow> string \<Rightarrow> db \<Rightarrow> (int \<times> db) res" where
  "mysql_append_body c e d change u b =
     (let t = now e AtInsertOp in
      bindE (tx_exec e AtEnsureDoc ''ensure document on first write: '' mysql_code
               (Inr (sql_ensure_doc c (new_doc d ''{}'' t) b))) (\<lambda>b1.
      bindE (query e AtSelectLatest ''read latest seq: '' (sql_select_doc c d b1)) (\<lambda>row.
      bindE (case row of
               None \<Rightarrow> Inl (Wrap ''read latest seq: '' ErrNoRows [])
             | Some r \<Rightarrow> Inr (dr_latest_seq r)) (\<lambda>latest.
      let q = i64 (latest + 1) in
      bindE (tx_exec e AtInsertOp ''insert operation: '' mysql_code
               (sql_insert_op c (append_row d q u change t) b1)) (\<lambda>b2.
      bindE (tx_exec e AtUpdateDoc ''advance latest seq: '' mysql_code
               (Inr (sql_update_doc c d q t b2))) (\<lambda>b3. Inr (q, b3)))))))"

definition mysql_AppendOp :: "collation \<Rightarrow> env \<Rightarrow> string \<Rightarrow> bytes \<Rightarrow> string \<Rightarrow> db \<Rightarrow> int res \<times> db" where
  "mysql_AppendOp c e d change u b = transaction e (mysql_append_body c e d change u) b"

definition mysql_queryOps :: "env \<Rightarrow> op_row list \<Rightarrow> StoredOp list res" where
  "mysql_queryOps e rows =
     bindE (query e AtQueryOps ''query ops: '' rows) (\<lambda>rs. query e AtScanOps [] (scanOpRows rs))"

definition mysql_GetOpsSince :: "collation \<Rightarrow> env \<Rightarrow> string \<Rightarrow> int \<Rightarrow> db \<Rightarrow> StoredOp list res" where
  "mysql_GetOpsSince c e d afterSeq b = mysql_queryOps e (sql_select_ops c (\<lambda>q. afterSeq < q) d b)"

definition mysql_GetOpsInRange :: "collation \<Rightarrow> env \<Rightarrow> string \<Rightarrow> int \<Rightarrow> int \<Rightarrow> db \<Rightarrow> StoredOp list res" where
  "mysql_GetOpsInRange c e d fromSeq toSeq b =
     mysql_queryOps e (sql_select_ops c (\<lambda>q. fromSeq \<le> q \<and> q \<le> toSeq) d b)"

definition mysql_GetLatestSeq :: "collation \<Rightarrow> env \<Rightarrow> string \<Rightarrow> db \<Rightarrow> int res" where
  "mysql_GetLatestSeq c e d b =
     bindE (query e AtGetLatest ''get latest seq: '' (sql_select_doc c d b))
       (\<lambda>row. case row of None \<Rightarrow> Inr 0 | Some r \<Rightarrow> Inr (dr_latest_seq r))"

definition mysql_SaveSnapshot :: "collation \<Rightarrow> env \<Rightarrow> string \<Rightarrow> bytes \<Rightarrow> int \<Rightarrow> db \<Rightarrow> unit res \<times> db" where
  "mysql_SaveSnapshot c e d state atSeq b =
     (let row = \<lparr>sr_doc_id = d, sr_seq = atSeq, sr_state = state, sr_created_at = now e AtSaveSnapshot\<rparr>;
          (err, b') = exec e AtSaveSnapshot mysql_code (sql_upsert_snapshot c row b) b
      in case err of
           Some x \<Rightarrow> (Inl (Wrap ''save snapshot: '' x []), b')
         | None \<Rightarrow> (Inr (), b'))"

definition mysql_GetSnapshot :: "collation \<Rightarrow> env \<Rightarrow> string \<Rightarrow> db \<Rightarrow> (bytes \<times> int) res" where
  "mysql_GetSnapshot c e d b =
     bindE (query e AtGetSnapshot ''get snapshot: '' (sql_select_snapshot c d b))
       (\<lambda>row. case row of None \<Rightarrow> Inl ErrNoSnapshot | Some r \<Rightarrow> Inr (sr_state r, sr_seq r))"

definition mysql_HealthCheck :: "env \<Rightarrow> db \<Rightarrow> unit res" where
  "mysql_HealthCheck e b =
     (case at e AtPing of Succeeds \<Rightarrow> Inr () | Fails m \<Rightarrow> Inl (drv m) | Lost m \<Rightarrow> Inl (drv m))"

definition mysql_store :: "collation \<Rightarrow> db store_ops" where
  "mysql_store c =
     \<lparr>AppendOp = mysql_AppendOp c, GetOpsSince = mysql_GetOpsSince c, GetOpsInRange = mysql_GetOpsInRange c,
      SaveSnapshot = mysql_SaveSnapshot c, GetSnapshot = mysql_GetSnapshot c, GetLatestSeq = mysql_GetLatestSeq c,
      CreateDocument = mysql_CreateDocument c, GetDocument = mysql_GetDocument c,
      ListDocuments = mysql_ListDocuments, DeleteDocument = mysql_DeleteDocument c,
      HealthCheck = mysql_HealthCheck\<rparr>"

section \<open>The contract\<close>

lemma mysql_sel [simp]:
  "AppendOp (mysql_store c) = mysql_AppendOp c" "GetOpsSince (mysql_store c) = mysql_GetOpsSince c"
  "GetOpsInRange (mysql_store c) = mysql_GetOpsInRange c" "SaveSnapshot (mysql_store c) = mysql_SaveSnapshot c"
  "GetSnapshot (mysql_store c) = mysql_GetSnapshot c" "GetLatestSeq (mysql_store c) = mysql_GetLatestSeq c"
  "CreateDocument (mysql_store c) = mysql_CreateDocument c" "GetDocument (mysql_store c) = mysql_GetDocument c"
  "ListDocuments (mysql_store c) = mysql_ListDocuments" "DeleteDocument (mysql_store c) = mysql_DeleteDocument c"
  "HealthCheck (mysql_store c) = mysql_HealthCheck"
  by (simp_all add: mysql_store_def)

lemma mysql_body:
  assumes "db_inv b" "int (length (ops_of b d)) < max_i64"
  shows "mysql_append_body binary e d p u b = Inr (q, b') \<longleftrightarrow>
     (\<forall>k \<in> {AtEnsureDoc, AtSelectLatest, AtInsertOp, AtUpdateDoc}. at e k = Succeeds)
     \<and> q = next_seq b d \<and> b' = appended d p u (now e AtInsertOp) b"
  unfolding mysql_append_body_def Let_def by (rule ensure_body [OF assms])

lemma mysql_append_live:
  "db_inv b \<Longrightarrow> int (length (ops_of b d)) < max_i64 \<Longrightarrow> fault_free e \<Longrightarrow>
   mysql_AppendOp binary e d p u b = (Inr (next_seq b d), appended d p u (now e AtInsertOp) b)"
  by (simp add: mysql_AppendOp_def transaction_Inr mysql_body)

lemma mysql_unique: "isMySQLDuplicate (DriverErr (mysql_code PrimaryKey))" "\<not> isMySQLDuplicate (drv m)"
  by (simp_all add: isMySQLDuplicate_def drv_def)

lemma mysql_save_live:
  "db_inv b \<Longrightarrow> fault_free e \<Longrightarrow> d \<in> doc_ids b \<Longrightarrow> \<exists>b'. mysql_SaveSnapshot binary e d st k b = (Inr (), b')"
  by (simp add: mysql_SaveSnapshot_def upsert_eq)

lemma mysql_binary: "sql_backend (mysql_store binary)"
proof (unfold_locales, unfold mysql_sel)
  fix b b' d e p u m w st k and r :: "int res" assume b: "db_inv b"
  show "append_post d p u (now e AtInsertOp) b r b'"
    if "mysql_AppendOp binary e d p u b = (r, b')" "int (length (ops_of b d)) < max_i64"
    using that(1) unfolding mysql_AppendOp_def
    by (rule transaction_post) (simp add: mysql_body [OF b that(2)])
  show "create_post d b w b'" if "mysql_CreateDocument binary e d m b = (w, b')"
    using that unfolding mysql_CreateDocument_def Let_def
    by (rule create_result [where U = isMySQLDuplicate and f = mysql_code, OF b mysql_unique])
  show "save_post d st k b w b'" if "mysql_SaveSnapshot binary e d st k b = (w, b')"
    using that unfolding mysql_SaveSnapshot_def Let_def by (rule save_result [OF b])
  show "delete_post d b w b'" if "mysql_DeleteDocument binary e d b = (w, b')"
    using that unfolding mysql_DeleteDocument_def Let_def case_prod_beta [of _ "sql_delete_doc binary d b"]
    by (rule delete_result [OF b]) simp_all
qed (simp_all add: mysql_append_live mysql_save_live mysql_GetOpsSince_def mysql_GetOpsInRange_def
    mysql_queryOps_def mysql_GetLatestSeq_def mysql_GetSnapshot_def mysql_GetDocument_def mysql_ListDocuments_def)

text \<open>A collation under which different document ids are different keys.\<close>

locale mysql_collation =
  fixes c :: collation
  assumes inj_c: "inj c"
begin

lemma mysql_store_eq: "mysql_store c = mysql_store binary"
proof -
  have body: "mysql_append_body c e d p u = mysql_append_body binary e d p u" for e d p u
    by (simp add: mysql_append_body_def inj_collation [OF inj_c] fun_eq_iff)
  have append: "mysql_AppendOp c e d p u b = mysql_AppendOp binary e d p u b" for e d p u b
    by (simp add: mysql_AppendOp_def body)
  show ?thesis
    by (simp add: mysql_store_def fun_eq_iff append mysql_GetOpsSince_def
      mysql_GetOpsInRange_def mysql_SaveSnapshot_def mysql_GetSnapshot_def mysql_GetLatestSeq_def
      mysql_CreateDocument_def mysql_GetDocument_def mysql_DeleteDocument_def inj_collation [OF inj_c])
qed

end

sublocale mysql_collation \<subseteq> sql_backend "mysql_store c"
  unfolding mysql_store_eq by (rule mysql_binary)

interpretation mysql: mysql_collation binary
  by unfold_locales simp

end
