(* ===== verification/Backends.thy ===== *)
theory Backends
  imports Sqlite Postgres Mysql
begin

text \<open>
  The three backends side by side (\<^verbatim>\<open>internal/storage\<close>): sequences of
  calls on the \<^verbatim>\<open>Store\<close> interface, the properties every backend has, and where the
  backends differ.
\<close>

section \<open>Choosing a backend\<close>

datatype backend = SQLite | Postgres | MySQL collation

definition store_of :: "backend \<Rightarrow> db store_ops" where
  "store_of k = (case k of SQLite \<Rightarrow> sqlite_store | Postgres \<Rightarrow> pg_store | MySQL c \<Rightarrow> mysql_store c)"

text \<open>The backends whose keys distinguish all document ids.\<close>

definition backend_ok :: "backend \<Rightarrow> bool" where
  "backend_ok k = (case k of MySQL c \<Rightarrow> inj c | _ \<Rightarrow> True)"

lemma backend_sql: "backend_ok k \<Longrightarrow> sql_backend (store_of k)"
proof (cases k)
  case (MySQL c)
  assume "backend_ok k"
  then have "inj c" by (simp add: MySQL backend_ok_def)
  then have "mysql_store c = mysql_store binary"
    by (intro mysql_collation.mysql_store_eq mysql_collation.intro)
  then show ?thesis by (simp add: MySQL store_of_def mysql_binary)
qed (simp_all add: store_of_def sqlite.sql_backend_axioms pg.sql_backend_axioms)

context sql_backend
begin

lemma is_store: "store S db_inv db_view"
  by (rule store_axioms)

end

lemmas backend_store = sql_backend.is_store [OF backend_sql]

section \<open>Sequences of calls\<close>

datatype store_call =
    CAppend string bytes string
  | CSince string int
  | CRange string int int
  | CSave string bytes int
  | CSnapshot string
  | CLatest string
  | CCreate string strmap
  | CGet string
  | CList DocumentFilter
  | CDelete string
  | CHealth

datatype store_ret =
    RSeq "int res"
  | ROps "StoredOp list res"
  | RUnit "unit res"
  | RSnap "(bytes \<times> int) res"
  | RDoc "Document res"
  | RDocs "Document list res"

fun run_call :: "'s store_ops \<Rightarrow> env \<Rightarrow> store_call \<Rightarrow> 's \<Rightarrow> store_ret \<times> 's" where
  "run_call S e (CAppend d p u) s = (case AppendOp S e d p u s of (r, s') \<Rightarrow> (RSeq r, s'))"
| "run_call S e (CSince d k) s = (ROps (GetOpsSince S e d k s), s)"
| "run_call S e (CRange d k l) s = (ROps (GetOpsInRange S e d k l s), s)"
| "run_call S e (CSave d st k) s = (case SaveSnapshot S e d st k s of (r, s') \<Rightarrow> (RUnit r, s'))"
| "run_call S e (CSnapshot d) s = (RSnap (GetSnapshot S e d s), s)"
| "run_call S e (CLatest d) s = (RSeq (GetLatestSeq S e d s), s)"
| "run_call S e (CCreate d m) s = (case CreateDocument S e d m s of (r, s') \<Rightarrow> (RUnit r, s'))"
| "run_call S e (CGet d) s = (RDoc (GetDocument S e d s), s)"
| "run_call S e (CList f) s = (RDocs (ListDocuments S e f s), s)"
| "run_call S e (CDelete d) s = (case DeleteDocument S e d s of (r, s') \<Rightarrow> (RUnit r, s'))"
| "run_call S e CHealth s = (RUnit (HealthCheck S e s), s)"

fun run_calls :: "'s store_ops \<Rightarrow> (env \<times> store_call) list \<Rightarrow> 's \<Rightarrow> store_ret list \<times> 's" where
  "run_calls S [] s = ([], s)"
| "run_calls S ((e, c) # cs) s =
     (case run_call S e c s of (r, s') \<Rightarrow> case run_calls S cs s' of (rs, s'') \<Rightarrow> (r # rs, s''))"

text \<open>Results up to the text and number of the driver's own error.\<close>

fun erase :: "goerr \<Rightarrow> goerr" where
  "erase (DriverErr _) = DriverErr (OtherError [])"
| "erase (Wrap pre e post) = Wrap pre (erase e) post"
| "erase e = e"

fun erase_ret :: "store_ret \<Rightarrow> store_ret" where
  "erase_ret (RSeq r) = RSeq (map_sum erase id r)"
| "erase_ret (ROps r) = ROps (map_sum erase id r)"
| "erase_ret (RUnit r) = RUnit (map_sum erase id r)"
| "erase_ret (RSnap r) = RSnap (map_sum erase id r)"
| "erase_ret (RDoc r) = RDoc (map_sum erase id r)"
| "erase_ret (RDocs r) = RDocs (map_sum erase id r)"

section \<open>Listings\<close>

text \<open>
  What \<^verbatim>\<open>DocumentFilter\<close> asks of the full listing: with a positive limit the slice after the
  offset, without one everything. \<open>selected\<close> is the condition on the time.
\<close>

definition listing :: "DocumentFilter \<Rightarrow> 'a list \<Rightarrow> 'a list" where
  "listing f xs = (if 0 < f_Limit f then take (nat (f_Limit f)) (drop (nat (f_Offset f)) xs) else xs)"

definition newest_first :: "Document list \<Rightarrow> bool" where
  "newest_first docs \<longleftrightarrow> sorted_wrt (\<lambda>x y. doc_UpdatedAt y \<le> doc_UpdatedAt x) docs"

definition selected :: "DocumentFilter \<Rightarrow> Document \<Rightarrow> bool" where
  "selected f doc = (case f_UpdatedSince f of None \<Rightarrow> True | Some u \<Rightarrow> u \<le> doc_UpdatedAt doc)"

definition doc_of_row :: "doc_row \<Rightarrow> Document" where
  "doc_of_row r = projr (scanDocument (Some r))"

lemma listing_map: "listing f (map g xs) = map g (listing f xs)"
  by (simp add: listing_def take_map drop_map)

lemma set_listing: "set (listing f xs) \<subseteq> set xs"
  by (auto simp: listing_def dest: in_set_takeD in_set_dropD)

lemma scanDocument_row:
  "unmarshalMetadata (dr_metadata r) = Inr m \<Longrightarrow> scanDocument (Some r) = Inr (doc_of_row r)
     \<and> doc_ID (doc_of_row r) = dr_id r \<and> doc_UpdatedAt (doc_of_row r) = dr_updated_at r"
  by (simp add: doc_of_row_def scanDocument_def)

lemma scanDocuments_rows:
  "\<forall>r \<in> set rs. \<exists>m. unmarshalMetadata (dr_metadata r) = Inr m \<Longrightarrow> scanDocuments rs = Inr (map doc_of_row rs)"
proof (induction rs)
  case (Cons r rs)
  then obtain m where m: "unmarshalMetadata (dr_metadata r) = Inr m" by auto
  have "scanDocuments rs = Inr (map doc_of_row rs)" using Cons by simp
  then show ?case using scanDocument_row [OF m] by simp
qed simp

definition full_rows :: "env \<Rightarrow> DocumentFilter \<Rightarrow> db \<Rightarrow> doc_row list" where
  "full_rows e f b = sql_order_docs (tie e) (matching (f_UpdatedSince f) b)"

lemma full_rows_props:
  assumes "db_inv b"
  shows "mset (full_rows e f b) = mset (matching (f_UpdatedSince f) b)"
    and "\<forall>r \<in> set (full_rows e f b). r \<in> set (documents b) \<and> (\<exists>m. unmarshalMetadata (dr_metadata r) = Inr m)"
    and "distinct (map dr_id (full_rows e f b))"
    and "sorted_wrt (\<lambda>x y. dr_updated_at y \<le> dr_updated_at x) (full_rows e f b)"
proof -
  show mset: "mset (full_rows e f b) = mset (matching (f_UpdatedSince f) b)"
    by (simp add: full_rows_def order_docs(1))
  then have "set (full_rows e f b) \<subseteq> set (documents b)"
    by (metis filter_is_subset matching_def set_mset_mset)
  then show "\<forall>r \<in> set (full_rows e f b). r \<in> set (documents b) \<and> (\<exists>m. unmarshalMetadata (dr_metadata r) = Inr m)"
    using assms unfolding db_inv_def by blast
  have "distinct (map dr_id (matching (f_UpdatedSince f) b))"
    using assms by (simp add: db_inv_def matching_def distinct_map_filter)
  then show "distinct (map dr_id (full_rows e f b))"
    using mset by (metis mset_map mset_eq_imp_distinct_iff)
  show "sorted_wrt (\<lambda>x y. dr_updated_at y \<le> dr_updated_at x) (full_rows e f b)"
    by (simp add: full_rows_def order_docs(2))
qed

lemma full_newest_first:
  assumes "db_inv b"
  shows "newest_first (map doc_of_row (full_rows e f b))"
proof -
  note full = full_rows_props [OF assms, of e f]
  have "doc_UpdatedAt (doc_of_row r) = dr_updated_at r" if "r \<in> set (full_rows e f b)" for r
    using full(2) that scanDocument_row by blast
  then have "map doc_UpdatedAt (map doc_of_row (full_rows e f b)) = map dr_updated_at (full_rows e f b)" by simp
  moreover have "sorted_wrt (\<lambda>x y. y \<le> x) (map dr_updated_at (full_rows e f b))"
    using full(4) by (simp add: sorted_wrt_map)
  ultimately have "sorted_wrt (\<lambda>x y. y \<le> x) (map doc_UpdatedAt (map doc_of_row (full_rows e f b)))" by (simp only:)
  then show ?thesis unfolding newest_first_def by (simp only: sorted_wrt_map)
qed

context sql_backend
begin

lemma list_full:
  assumes "db_inv b"
  shows "ListDocuments S e f b = Inr docs \<longleftrightarrow> at e AtListDocs = Succeeds \<and> at e AtListScan = Succeeds
     \<and> docs = listing f (map doc_of_row (full_rows e f b))"
proof -
  have "sql_list_docs (tie e) (f_UpdatedSince f) (if 0 < f_Limit f then Some (f_Limit f) else None)
      (if 0 < f_Limit f \<and> 0 < f_Offset f then Some (f_Offset f) else None) b = listing f (full_rows e f b)"
    by (simp add: list_docs_rows(1) page_def listing_def full_rows_def)
  moreover have "scanDocuments (listing f (full_rows e f b)) = Inr (map doc_of_row (listing f (full_rows e f b)))"
    using full_rows_props(2) [OF assms, of e f] set_listing [of f "full_rows e f b"]
    by (intro scanDocuments_rows) blast
  ultimately show ?thesis by (auto simp: sql_list listing_map bindE_Inr_iff)
qed

lemma list_absent:
  assumes "db_inv b" "d \<notin> doc_ids b" "ListDocuments S e f b = Inr docs"
  shows "d \<notin> doc_ID ` set docs"
proof -
  have "docs = listing f (map doc_of_row (full_rows e f b))" using assms(3) list_full [OF assms(1)] by blast
  then have "set docs \<subseteq> doc_of_row ` set (full_rows e f b)" using set_listing by fastforce
  moreover have "doc_ID (doc_of_row r) \<noteq> d" if "r \<in> set (full_rows e f b)" for r
    using full_rows_props(2) [OF assms(1)] that assms(2) scanDocument_row unfolding doc_ids_def by blast
  ultimately show ?thesis by blast
qed

lemma get_row:
  assumes "db_inv b" "fault_free e"
  shows "GetDocument S e d b = Inr doc \<longleftrightarrow> (\<exists>r \<in> set (documents b). dr_id r = d \<and> doc = doc_of_row r)"
proof -
  have get: "GetDocument S e d b = scanDocument (sql_select_doc binary d b)" using assms(2) by (simp add: sql_get)
  have d: "distinct (map dr_id (documents b))" using assms(1) by (simp add: db_inv_def)
  show ?thesis
  proof (cases "sql_select_doc binary d b")
    case None
    then have "d \<notin> doc_ids b" by (simp add: select_doc_None)
    then show ?thesis by (auto simp: get None scanDocument_def doc_ids_def)
  next
    case (Some r)
    note r = select_doc_Some [OF Some]
    obtain m where "unmarshalMetadata (dr_metadata r) = Inr m" using select_doc_meta [OF assms(1) Some] by blast
    then have "GetDocument S e d b = Inr (doc_of_row r)" using scanDocument_row by (simp add: get Some)
    moreover have "r' = r" if "r' \<in> set (documents b)" "dr_id r' = d" for r'
      using that r d by (metis distinct_map inj_onD)
    ultimately show ?thesis using r by auto
  qed
qed

end

section \<open>The backends agree\<close>

definition logs_below :: "int \<Rightarrow> db \<Rightarrow> bool" where
  "logs_below n b \<longleftrightarrow> (\<forall>d. int (length (ops_of b d)) < n)"

definition agree :: "db store_ops \<Rightarrow> db store_ops \<Rightarrow> bool" where
  "agree S S' \<longleftrightarrow> (\<forall>e c b. fault_free e \<longrightarrow> db_inv b \<longrightarrow> logs_below max_i64 b \<longrightarrow>
     snd (run_call S' e c b) = snd (run_call S e c b)
   \<and> erase_ret (fst (run_call S' e c b)) = erase_ret (fst (run_call S e c b)))"

lemmas backend_defs =
  sqlite_CreateDocument_def pg_CreateDocument_def mysql_CreateDocument_def
  sqlite_DeleteDocument_def pg_DeleteDocument_def mysql_DeleteDocument_def
  sqlite_SaveSnapshot_def pg_SaveSnapshot_def mysql_SaveSnapshot_def
  sqlite_GetDocument_def pg_GetDocument_def mysql_GetDocument_def
  sqlite_ListDocuments_def pg_ListDocuments_def mysql_ListDocuments_def
  sqlite_GetOpsSince_def pg_GetOpsSince_def mysql_GetOpsSince_def
  sqlite_GetOpsInRange_def pg_GetOpsInRange_def mysql_GetOpsInRange_def
  sqlite_queryOps_def pg_queryOps_def mysql_queryOps_def
  sqlite_GetLatestSeq_def pg_GetLatestSeq_def mysql_GetLatestSeq_def
  sqlite_GetSnapshot_def pg_GetSnapshot_def mysql_GetSnapshot_def
  sqlite_HealthCheck_def pg_HealthCheck_def mysql_HealthCheck_def

lemma sqlite_pg: "agree sqlite_store pg_store"
  unfolding agree_def
proof (intro allI impI)
  fix e c b assume a: "fault_free e" "db_inv b" "logs_below max_i64 b"
  then show "snd (run_call pg_store e c b) = snd (run_call sqlite_store e c b)
      \<and> erase_ret (fst (run_call pg_store e c b)) = erase_ret (fst (run_call sqlite_store e c b))"
    by (cases c) (auto simp: logs_below_def sqlite_append_live pg_append_live backend_defs Let_def exec_def
        insert_doc_eq upsert_eq isUniqueViolation_def isPGUniqueViolation_def case_prod_beta split: option.splits)
qed

lemma sqlite_mysql: "agree sqlite_store (mysql_store binary)"
  unfolding agree_def
proof (intro allI impI)
  fix e c b assume a: "fault_free e" "db_inv b" "logs_below max_i64 b"
  then show "snd (run_call (mysql_store binary) e c b) = snd (run_call sqlite_store e c b)
      \<and> erase_ret (fst (run_call (mysql_store binary) e c b)) = erase_ret (fst (run_call sqlite_store e c b))"
    by (cases c) (auto simp: logs_below_def sqlite_append_live mysql_append_live backend_defs Let_def exec_def
        insert_doc_eq upsert_eq isUniqueViolation_def isMySQLDuplicate_def case_prod_beta split: option.splits)
qed

context store
begin

lemma run_call_inv:
  assumes "inv s" "\<And>d. int (length (log_of (view s) d)) < max_i64"
  shows "inv (snd (run_call S e c s))"
    and "int (length (log_of (view (snd (run_call S e c s))) d)) \<le> int (length (log_of (view s) d)) + 1"
proof -
  have "inv (snd (run_call S e c s))
    \<and> int (length (log_of (view (snd (run_call S e c s))) d)) \<le> int (length (log_of (view s) d)) + 1"
  proof (cases c)
    case (CAppend x p u)
    obtain r s' where r: "AppendOp S e x p u s = (r, s')" by fastforce
    from append_cases [OF assms(1) assms(2) r] show ?thesis
      by (auto simp: CAppend r)
  next
    case (CSave x st k)
    obtain r s' where r: "SaveSnapshot S e x st k s = (r, s')" by fastforce
    from save_cases [OF assms(1) r] show ?thesis by (auto simp: CSave r)
  next
    case (CCreate x m)
    obtain r s' where r: "CreateDocument S e x m s = (r, s')" by fastforce
    from create_cases [OF assms(1) r] show ?thesis
      by (auto simp: CCreate r adoc_of_def empty_adoc_def)
  next
    case (CDelete x)
    obtain r s' where r: "DeleteDocument S e x s = (r, s')" by fastforce
    from delete_cases [OF assms(1) r] show ?thesis
      by (auto simp: CDelete r adoc_of_def empty_adoc_def)
  qed (use assms in auto)
  then show "inv (snd (run_call S e c s))"
    "int (length (log_of (view (snd (run_call S e c s))) d)) \<le> int (length (log_of (view s) d)) + 1" by simp_all
qed

end

text \<open>
  The values of a call fit the columns of all three schemas: ids and session ids are
  \<^verbatim>\<open>VARCHAR(255)\<close> and metadata is \<^verbatim>\<open>TEXT\<close> in MySQL, PostgreSQL refuses NUL bytes and invalid
  UTF-8 in text, and values of up to half a gigabyte are below the limits of all engines.
  A database that is up refuses only what does not fit.
\<close>

definition rune_count :: "string \<Rightarrow> nat" where
  "rune_count s = length (filter (\<lambda>ch. \<not> (128 \<le> (of_char ch :: nat) \<and> (of_char ch :: nat) < 192)) s)"

definition text_fits :: "string \<Rightarrow> bool" where
  "text_fits s \<longleftrightarrow> valid_utf8 s \<and> CHR 0x00 \<notin> set s"

definition id_fits :: "string \<Rightarrow> bool" where
  "id_fits s \<longleftrightarrow> text_fits s \<and> rune_count s \<le> 255"

fun fits :: "store_call \<Rightarrow> bool" where
  "fits (CAppend d p u) \<longleftrightarrow> id_fits d \<and> id_fits u \<and> length p \<le> 2 ^ 29"
| "fits (CSave d st k) \<longleftrightarrow> id_fits d \<and> length st \<le> 2 ^ 29"
| "fits (CCreate d m) \<longleftrightarrow> id_fits d \<and> text_fits (marshalMetadata m) \<and> length (marshalMetadata m) \<le> 65535"
| "fits (CSince d k) \<longleftrightarrow> text_fits d"
| "fits (CRange d k l) \<longleftrightarrow> text_fits d"
| "fits (CSnapshot d) \<longleftrightarrow> text_fits d"
| "fits (CLatest d) \<longleftrightarrow> text_fits d"
| "fits (CGet d) \<longleftrightarrow> text_fits d"
| "fits (CDelete d) \<longleftrightarrow> text_fits d"
| "fits (CList f) \<longleftrightarrow> True"
| "fits CHealth \<longleftrightarrow> True"

definition healthy :: "env \<times> store_call \<Rightarrow> bool" where
  "healthy x \<longleftrightarrow> (fits (snd x) \<longrightarrow> fault_free (fst x))"

text \<open>
  Two engines need not break ties in a listing in the same way: the order of documents with the
  same time is each engine's own. \<open>same_ret\<close> compares the results of one call on two
  backends: equal up to the driver's own errors, and for a listing the same slice of two
  newest-first orders of the same documents.
\<close>

definition same_ret :: "store_call \<Rightarrow> store_ret \<Rightarrow> store_ret \<Rightarrow> bool" where
  "same_ret c r r' \<longleftrightarrow>
     (case c of
        CList f \<Rightarrow> (\<exists>full full'. r = RDocs (Inr (listing f full)) \<and> r' = RDocs (Inr (listing f full'))
          \<and> mset full' = mset full \<and> newest_first full \<and> newest_first full')
      | _ \<Rightarrow> erase_ret r' = erase_ret r)"

definition same_call :: "env \<times> store_call \<Rightarrow> env \<times> store_call \<Rightarrow> bool" where
  "same_call x x' \<longleftrightarrow> snd x' = snd x \<and> now (fst x') = now (fst x)"

lemma tie_irrelevant:
  assumes "fault_free e" "db_inv b" "logs_below max_i64 b" "\<forall>f. c \<noteq> CList f"
  shows "run_call sqlite_store (e\<lparr>tie := t\<rparr>) c b = run_call sqlite_store e c b"
proof -
  have "fault_free (e\<lparr>tie := t\<rparr>)" using assms(1) by (simp add: fault_free_def)
  moreover have "exec (e\<lparr>tie := t\<rparr>) = exec e" by (intro ext) (simp add: exec_def split: sum.split)
  ultimately show ?thesis
    using assms by (cases c) (simp_all add: logs_below_def sqlite_append_live backend_defs Let_def)
qed

lemma fault_free_env:
  assumes "fault_free e" "fault_free e'" "now e' = now e"
  shows "e' = e\<lparr>tie := tie e'\<rparr>"
proof -
  have "at e' = at e" using assms(1,2) by (simp add: fault_free_def fun_eq_iff)
  then show ?thesis using assms(3) by (cases e; cases e') simp
qed

lemma backend_agrees: "backend_ok k \<Longrightarrow> agree sqlite_store (store_of k)"
proof (cases k)
  case (MySQL c)
  assume "backend_ok k"
  then have "inj c" by (simp add: MySQL backend_ok_def)
  then have "mysql_store c = mysql_store binary"
    by (intro mysql_collation.mysql_store_eq mysql_collation.intro)
  then show ?thesis by (simp add: MySQL store_of_def sqlite_mysql)
qed (simp_all add: store_of_def sqlite_pg, simp add: agree_def)

lemma agree_call:
  assumes ok: "backend_ok k" "backend_ok k'" and b: "db_inv b" "logs_below max_i64 b"
    and e: "fault_free e" "fault_free e'" "now e' = now e"
  shows "snd (run_call (store_of k') e' c b) = snd (run_call (store_of k) e c b)
     \<and> same_ret c (fst (run_call (store_of k) e c b)) (fst (run_call (store_of k') e' c b))"
proof (cases "\<exists>f. c = CList f")
  case True
  then obtain f where c: "c = CList f" by blast
  note full = full_rows_props [OF b(1), of _ f]
  have sorted: "newest_first (map doc_of_row (full_rows e f b))" for e by (rule full_newest_first [OF b(1)])
  have mset: "mset (map doc_of_row (full_rows e' f b)) = mset (map doc_of_row (full_rows e f b))"
    using full(1) [of e] full(1) [of e'] by simp
  have "same_ret c (RDocs (Inr (listing f (map doc_of_row (full_rows e f b)))))
      (RDocs (Inr (listing f (map doc_of_row (full_rows e' f b)))))"
    unfolding same_ret_def c store_call.case using sorted mset by blast
  moreover have "ListDocuments (store_of k) e f b = Inr (listing f (map doc_of_row (full_rows e f b)))"
    "ListDocuments (store_of k') e' f b = Inr (listing f (map doc_of_row (full_rows e' f b)))"
    using e by (simp_all add: sql_backend.list_full [OF backend_sql [OF ok(1)] b(1)]
      sql_backend.list_full [OF backend_sql [OF ok(2)] b(1)])
  ultimately show ?thesis by (simp add: c)
next
  case False
  have "run_call sqlite_store e' c b = run_call sqlite_store e c b"
    using tie_irrelevant [OF e(1) b, of c "tie e'"] fault_free_env [OF e] False by simp
  moreover note backend_agrees [OF ok(1), unfolded agree_def, rule_format, OF e(1) b, of c]
    backend_agrees [OF ok(2), unfolded agree_def, rule_format, OF e(2) b, of c]
  ultimately have *: "snd (run_call (store_of k') e' c b) = snd (run_call (store_of k) e c b)"
    "erase_ret (fst (run_call (store_of k') e' c b)) = erase_ret (fst (run_call (store_of k) e c b))" by simp_all
  then show ?thesis using False by (cases c) (simp_all only: same_ret_def store_call.case, simp_all)
qed

lemma agree_calls:
  assumes "backend_ok k" "backend_ok k'" "list_all2 same_call cs cs'"
    and "db_inv b" "logs_below n b" "n + int (length cs) \<le> max_i64"
    and "\<forall>x \<in> set cs \<union> set cs'. fault_free (fst x)"
  shows "snd (run_calls (store_of k') cs' b) = snd (run_calls (store_of k) cs b)
      \<and> list_all2 (\<lambda>x (r, r'). same_ret (snd x) r r') cs
          (zip (fst (run_calls (store_of k) cs b)) (fst (run_calls (store_of k') cs' b)))"
  using assms(3-7)
proof (induction cs cs' arbitrary: b n rule: list_all2_induct)
  case (Cons x cs x' cs')
  obtain e e' c where x: "x = (e, c)" "x' = (e', c)" "now e' = now e"
    using Cons.hyps(1) by (cases x; cases x') (simp add: same_call_def)
  have "n \<le> max_i64" using Cons.prems(3) by simp
  then have below: "logs_below max_i64 b"
    using Cons.prems(2) by (meson logs_below_def order_less_le_trans)
  have ff: "fault_free e" "fault_free e'" using Cons.prems(4) by (simp_all add: x)
  obtain r b1 where r: "run_call (store_of k) e c b = (r, b1)" by fastforce
  obtain r' where r': "run_call (store_of k') e' c b = (r', b1)" "same_ret c r r'"
    using agree_call [OF assms(1,2) Cons.prems(1) below ff x(3), of c] r by (metis fst_conv snd_conv prod.collapse)
  have lens: "int (length (log_of (db_view b) d)) < max_i64" for d
    using below Cons.prems(1) by (simp add: logs_below_def)
  note step = store.run_call_inv [OF backend_store [OF assms(1)] Cons.prems(1) lens, of e c, unfolded r snd_conv]
  have "logs_below (n + 1) b1"
    using step Cons.prems(1,2) unfolding logs_below_def
    by (metis add_strict_right_mono length_scanOpRows log_db_view order_le_less_trans)
  then have "snd (run_calls (store_of k') cs' b1) = snd (run_calls (store_of k) cs b1)
      \<and> list_all2 (\<lambda>x (r, r'). same_ret (snd x) r r') cs
          (zip (fst (run_calls (store_of k) cs b1)) (fst (run_calls (store_of k') cs' b1)))"
    using Cons.prems(3,4) step(1) by (intro Cons.IH) auto
  moreover obtain rs s where "run_calls (store_of k) cs b1 = (rs, s)" by fastforce
  moreover obtain rs' s' where "run_calls (store_of k') cs' b1 = (rs', s')" by fastforce
  ultimately show ?case using r'(2) by (simp add: x r r'(1))
qed simp

context store
begin

lemma run_calls_inv:
  assumes "inv s" "\<And>d. int (length (log_of (view s) d)) + int (length cs) \<le> max_i64"
  shows "inv (snd (run_calls S cs s))"
  using assms
proof (induction cs arbitrary: s)
  case (Cons ec cs)
  obtain e c where ec: "ec = (e, c)" by fastforce
  obtain r s1 where r: "run_call S e c s = (r, s1)" by fastforce
  have lens: "int (length (log_of (view s) d)) < max_i64" for d
    using Cons.prems(2) [of d] by simp
  note step = run_call_inv [OF Cons.prems(1) lens, of e c, unfolded r snd_conv]
  have "inv (snd (run_calls S cs s1))"
  proof (rule Cons.IH [OF step(1)])
    show "int (length (log_of (view s1) d)) + int (length cs) \<le> max_i64" for d
      using step(2) [of d] Cons.prems(2) [of d] by simp
  qed
  then show ?case by (simp add: ec r case_prod_beta)
qed simp

lemma delete_fresh:
  assumes "inv s" "DeleteDocument S e d s = (Inr (), s')"
  shows "inv s' \<and> (\<forall>e' k ops. GetOpsSince S e' d k s' = Inr ops \<longrightarrow> ops = [])
     \<and> (\<forall>e' k l ops. GetOpsInRange S e' d k l s' = Inr ops \<longrightarrow> ops = [])
     \<and> (\<forall>e' q. GetLatestSeq S e' d s' = Inr q \<longrightarrow> q = 0)
     \<and> (\<forall>e' st k. GetSnapshot S e' d s' \<noteq> Inr (st, k))
     \<and> (\<forall>e' doc. GetDocument S e' d s' \<noteq> Inr doc)
     \<and> (\<forall>e' p u q s''. AppendOp S e' d p u s' = (Inr q, s'') \<longrightarrow> q = 1)"
proof -
  from delete_ok [OF assms] have s': "inv s'" "view s' d = None" by auto
  then have e: "log_of (view s') d = []" "snaps_of (view s') d = Map.empty" by simp_all
  have "ops = []" if "GetOpsSince S e' d k s' = Inr ops" for e' k ops
    using since [OF s'(1) that] e(1) by simp
  moreover have "ops = []" if "GetOpsInRange S e' d k l s' = Inr ops" for e' k l ops
    using in_range [OF s'(1) that] e(1) by simp
  moreover have "q = 0" if "GetLatestSeq S e' d s' = Inr q" for e' q
    using latest [OF s'(1) that] e(1) by simp
  moreover have "GetSnapshot S e' d s' \<noteq> Inr (st, k)" for e' st k
    using snapshot_ok [OF s'(1), of e' d st k] e(2) by auto
  moreover have "GetDocument S e' d s' \<noteq> Inr doc" for e' doc
    using get_ok [OF s'(1), of e' d doc] s'(2) by auto
  moreover have "q = 1" if "AppendOp S e' d p u s' = (Inr q, s'')" for e' p u q s''
    using append_ok [OF s'(1) _ that] e(1) by (simp add: max_i64_def)
  ultimately show ?thesis using s'(1) by blast
qed

end

lemma create_live:
  assumes "backend_ok k" "fault_free e" "d \<notin> doc_ids b"
  shows "CreateDocument (store_of k) e d m b =
     (Inr (), add_doc (new_doc d (marshalMetadata m) (now e AtCreateDoc)) b)"
proof (cases k)
  case (MySQL c)
  with assms(1) have "inj c" by (simp add: backend_ok_def)
  from inj_collation(2) [OF this] assms(2,3) show ?thesis
    by (simp add: MySQL store_of_def mysql_CreateDocument_def insert_doc_eq)
qed (use assms in \<open>simp_all add: store_of_def sqlite_CreateDocument_def pg_CreateDocument_def insert_doc_eq\<close>)

lemma find_append: "find P (xs @ ys) = (case find P xs of None \<Rightarrow> find P ys | Some x \<Rightarrow> Some x)"
  by (induction xs) simp_all

text \<open>A database with one document and two operations, for the concrete instances below.\<close>

definition db2 :: db where
  "db2 = snd (run_calls sqlite_store [(calm 1, CAppend ''doc'' [1] ''a''), (calm 2, CAppend ''doc'' [2] ''b'')] empty_db)"

lemma db2_inv: "db_inv db2"
  unfolding db2_def by (rule sqlite.run_calls_inv)
    (simp_all add: db_inv_empty, simp add: ops_of_def empty_db_def max_i64_def)

lemma db2_eval:
  "documents db2 = [\<lparr>dr_id = ''doc'', dr_metadata = ''{}'', dr_latest_seq = 2, dr_created_at = 1, dr_updated_at = 2\<rparr>]"
  "map or_seq (operations db2) = [1, 2]" "map or_doc_id (operations db2) = [''doc'', ''doc'']"
  by code_simp+

lemma db2_ops: "ops_of db2 d = (if d = ''doc'' then operations db2 else [])" "doc_ids db2 = {''doc''}"
  using db2_eval(1,3) by (auto simp: ops_of_def doc_ids_def map_eq_Cons_conv Cons_eq_map_conv)

lemma db2_len: "length (operations db2) = 2"
  using arg_cong [OF db2_eval(2), of length] by simp

text \<open>What the statements do under a collation that identifies \<open>d2\<close> with the stored \<open>d1\<close>.\<close>

lemma collation_row:
  assumes "db_inv b" "d1 \<in> doc_ids b" "c d2 = c d1" "\<forall>x \<in> doc_ids b. c x = c d2 \<longrightarrow> x = d1"
  shows "\<exists>r. sql_select_doc c d2 b = Some r \<and> dr_latest_seq r = int (length (ops_of b d1))"
proof -
  have "sql_select_doc c d2 b \<noteq> None" using assms(2,3) by (auto simp: sql_select_doc_def find_None_iff doc_ids_def)
  then obtain r where r: "sql_select_doc c d2 b = Some r" by blast
  then have "r \<in> set (documents b)" "dr_id r = d1"
    using assms(4) by (auto simp: sql_select_doc_def find_Some_iff doc_ids_def)
  then show ?thesis using r assms(1) by (auto simp: db_inv_def)
qed

lemma collation_ops:
  assumes "db_inv b" "c d2 = c d1" "\<forall>x \<in> doc_ids b. c x = c d2 \<longrightarrow> x = d1"
  shows "filter (\<lambda>x. c (or_doc_id x) = c d2) (operations b) = ops_of b d1"
proof -
  have "or_doc_id x \<in> doc_ids b" if "x \<in> set (operations b)" for x using that assms(1) by (auto simp: db_inv_def)
  then show ?thesis unfolding ops_of_def using assms(2,3) by (intro filter_cong refl) auto
qed

definition collided :: "collation \<Rightarrow> string \<Rightarrow> int \<Rightarrow> string \<Rightarrow> bytes \<Rightarrow> int \<Rightarrow> db \<Rightarrow> db" where
  "collided c d q u p t b = sql_update_doc c d q t (b\<lparr>operations := operations b @ [append_row d q u p t]\<rparr>)"

lemma collation_append:
  assumes "db_inv b" "d1 \<in> doc_ids b" "c d2 = c d1" "\<forall>x \<in> doc_ids b. c x = c d2 \<longrightarrow> x = d1"
    and "n = int (length (ops_of b d1))" "n < max_i64" "fault_free e"
  shows "AppendOp (mysql_store c) e d2 p u b = (Inr (n + 1), collided c d2 (n + 1) u p (now e AtInsertOp) b)"
proof -
  obtain r where r: "sql_select_doc c d2 b = Some r" "dr_latest_seq r = n"
    using collation_row [OF assms(1-4)] assms(5) by auto
  have "0 \<le> n" using assms(5) by simp
  then have i: "i64 (n + 1) = n + 1" using assms(6) by (simp add: i64_id)
  have "or_seq x \<le> n" if "x \<in> set (operations b)" "c (or_doc_id x) = c d2" for x
  proof -
    have "x \<in> set (filter (\<lambda>x. c (or_doc_id x) = c d2) (operations b))" using that by simp
    then have "x \<in> set (ops_of b d1)" by (simp only: collation_ops [OF assms(1,3,4)])
    then show ?thesis using assms(1,5) numbered_bounds [of or_seq "ops_of b d1" x] by (simp add: db_inv_def)
  qed
  then have fresh: "\<not> (\<exists>x \<in> set (operations b). c (or_doc_id x) = c d2 \<and> or_seq x = n + 1)" by fastforce
  have "mysql_append_body c e d2 p u b = Inr (n + 1, collided c d2 (n + 1) u p (now e AtInsertOp) b)"
    using assms(7) r fresh
    by (simp add: mysql_append_body_def sql_ensure_doc_def Let_def i tx_exec_def sql_insert_op_def collided_def)
  then show ?thesis using assms(7) by (simp add: mysql_AppendOp_def transaction_def)
qed

lemma collation_read:
  assumes "db_inv b" "d1 \<in> doc_ids b" "c d2 = c d1" "\<forall>x \<in> doc_ids b. c x = c d2 \<longrightarrow> x = d1"
    and "n = int (length (ops_of b d1))"
  shows "fault_free e \<Longrightarrow> GetOpsSince (mysql_store c) e d1 0 (collided c d2 (n + 1) u p t b) =
     Inr (scanOpRows (ops_of b d1) @ [scanOpRow (append_row d2 (n + 1) u p t)])"
proof -
  have num: "numbered or_seq (ops_of b d1)" using assms(1) by (simp add: db_inv_def)
  have pos: "0 < or_seq x \<and> or_seq x \<le> n" if "x \<in> set (ops_of b d1)" for x
    using numbered_bounds [OF num that] assms(5) by simp
  have "operations (collided c d2 (n + 1) u p t b) = operations b @ [append_row d2 (n + 1) u p t]"
    by (simp add: collided_def sql_update_doc_def)
  then have "filter (\<lambda>x. c (or_doc_id x) = c d1 \<and> 0 < or_seq x) (operations (collided c d2 (n + 1) u p t b)) =
      filter (\<lambda>x. 0 < or_seq x) (ops_of b d1) @ [append_row d2 (n + 1) u p t]"
    using assms(3,5) by (simp flip: collation_ops [OF assms(1,3,4)] add: conj_commute)
  also have "\<dots> = ops_of b d1 @ [append_row d2 (n + 1) u p t]" using pos by (simp add: filter_id_conv)
  finally have "sql_select_ops c (\<lambda>q. 0 < q) d1 (collided c d2 (n + 1) u p t b) =
      sort_key or_seq (ops_of b d1 @ [append_row d2 (n + 1) u p t])" by (simp add: sql_select_ops_def)
  also have "\<dots> = ops_of b d1 @ [append_row d2 (n + 1) u p t]"
  proof (rule sort_key_id_if_sorted)
    have "\<forall>x \<in> set (ops_of b d1). or_seq x \<le> n + 1" using pos by force
    then show "sorted (map or_seq (ops_of b d1 @ [append_row d2 (n + 1) u p t]))"
      using numbered_sorted [OF num] by (simp add: sorted_append)
  qed
  finally show "fault_free e \<Longrightarrow> GetOpsSince (mysql_store c) e d1 0 (collided c d2 (n + 1) u p t b) =
     Inr (scanOpRows (ops_of b d1) @ [scanOpRow (append_row d2 (n + 1) u p t)])"
    by (simp add: mysql_GetOpsSince_def mysql_queryOps_def scanOpRows_def)
qed

lemma sqlite_other_log:
  assumes "db_inv b" "d2 \<notin> doc_ids b" "d1 \<noteq> d2" "fault_free e"
  shows "GetOpsSince sqlite_store e d1 0 (appended d2 p u t b) = Inr (log_of (db_view b) d1)"
proof -
  have inv: "db_inv (appended d2 p u t b)" and v: "db_view (appended d2 p u t b) = spec_append d2 p u t (db_view b)"
    using appended_ok [OF assms(1)] by auto
  obtain ops where ops: "GetOpsSince sqlite_store e d1 0 (appended d2 p u t b) = Inr ops"
    using sqlite.since_live [OF inv assms(4)] by blast
  have "ops = log_of (db_view (appended d2 p u t b)) d1" using sqlite.since_drop [OF inv ops] by simp
  then show ?thesis using ops v assms(3) by simp
qed

section \<open>Properties\<close>

text \<open>
  C6: Sequence numbers are gap-free whatever fails. Starting from an empty database, any
  sequence of calls, with any calls on the database failing or losing their reply,
  leaves a database in which every document's log is numbered 1, 2, 3, ..., its
  \<^verbatim>\<open>latest_seq\<close> is the length of the log, no operation or snapshot lacks its document, and
  ids and keys are unique.
\<close>

theorem store_invariant:
  assumes "backend_ok k" "int (length cs) \<le> max_i64"
  shows "db_inv (snd (run_calls (store_of k) cs empty_db))"
proof -
  have "log_of (db_view empty_db) d = []" for d
    by (simp add: db_inv_empty) (simp add: ops_of_def empty_db_def scanOpRows_def)
  then show ?thesis
    using assms(2) by (intro store.run_calls_inv [OF backend_store [OF assms(1)]]) (simp_all add: db_inv_empty)
qed

theorem store_invariant_witness:
  "db_inv (snd (run_calls (store_of Postgres)
     [(calm 1, CAppend ''doc'' [1] ''a''), (calm 2\<lparr>at := (\<lambda>_. Lost ''broken pipe'')\<rparr>, CAppend ''doc'' [2] ''b'')] empty_db))"
  by (rule store_invariant) (simp_all add: backend_ok_def max_i64_def)

text \<open>
  C7: An append is all or nothing. Whatever statement of the transaction fails, and even if
  the reply to the commit is lost, the database afterwards is the one before or the one
  with the whole append; when the call returns a number, it is the next one and the append
  is there; and when nothing fails the call does return it.
\<close>

theorem append_atomic:
  assumes "backend_ok k" "db_inv b" "int (length (ops_of b d)) < max_i64"
    and "AppendOp (store_of k) e d p u b = (r, b')"
  shows "(b' = b \<or> b' = appended d p u (now e AtInsertOp) b)
     \<and> (\<forall>q. r = Inr q \<longrightarrow> q = next_seq b d \<and> b' = appended d p u (now e AtInsertOp) b)
     \<and> (fault_free e \<longrightarrow> r = Inr (next_seq b d))"
proof -
  note S = backend_sql [OF assms(1)]
  have "r = Inr (next_seq b d)" if "fault_free e"
    using sql_backend.sql_append_live [OF S assms(2,3) that, of p u] assms(4) by simp
  then show ?thesis
    using sql_backend.sql_append [OF S assms(2-4)] unfolding append_post_def by blast
qed

theorem append_atomic_witness:
  "snd (AppendOp (store_of SQLite) (calm 5) ''doc'' [3] ''c'' db2) = appended ''doc'' [3] ''c'' 5 db2
   \<and> fst (AppendOp (store_of SQLite) (calm 5) ''doc'' [3] ''c'' db2) = Inr 3"
proof -
  obtain r b' where r: "AppendOp (store_of SQLite) (calm 5) ''doc'' [3] ''c'' db2 = (r, b')" by fastforce
  have "backend_ok SQLite" "int (length (ops_of db2 ''doc'')) < max_i64"
    by (simp_all add: backend_ok_def db2_ops db2_len max_i64_def)
  note a = append_atomic [OF this(1) db2_inv this(2) r]
  have n: "next_seq db2 ''doc'' = 3" "now (calm 5) AtInsertOp = 5"
    by (simp_all add: next_seq_def db2_ops db2_len calm_def)
  have q: "r = Inr 3" using a [THEN conjunct2, THEN conjunct2] by (simp only: n fault_free_calm simp_thms)
  moreover have "b' = appended ''doc'' [3] ''c'' 5 db2"
    using a [THEN conjunct2, THEN conjunct1, rule_format, OF q] by (simp only: n)
  ultimately show ?thesis by (simp only: r fst_conv snd_conv simp_thms)
qed

text \<open>
  C17: A deleted document leaves nothing behind: afterwards it is not found and in no listing,
  every read of its log (from a number on or in a range) is empty, its latest number is 0,
  it has no snapshot, and the next append to the id gets number 1.
\<close>

theorem delete_clean:
  assumes "backend_ok k" "db_inv b" "DeleteDocument (store_of k) e d b = (Inr (), b')"
  shows "db_inv b' \<and> (\<forall>e' q ops. GetOpsSince (store_of k) e' d q b' = Inr ops \<longrightarrow> ops = [])
     \<and> (\<forall>e' q q' ops. GetOpsInRange (store_of k) e' d q q' b' = Inr ops \<longrightarrow> ops = [])
     \<and> (\<forall>e' q. GetLatestSeq (store_of k) e' d b' = Inr q \<longrightarrow> q = 0)
     \<and> (\<forall>e' st q. GetSnapshot (store_of k) e' d b' \<noteq> Inr (st, q))
     \<and> (\<forall>e' doc. GetDocument (store_of k) e' d b' \<noteq> Inr doc)
     \<and> (\<forall>e'. fault_free e' \<longrightarrow> GetDocument (store_of k) e' d b' = Inl ErrDocumentNotFound)
     \<and> (\<forall>e' f docs. ListDocuments (store_of k) e' f b' = Inr docs \<longrightarrow> d \<notin> doc_ID ` set docs)
     \<and> (\<forall>e' p u q b''. AppendOp (store_of k) e' d p u b' = (Inr q, b'') \<longrightarrow> q = 1)"
proof -
  note S = backend_sql [OF assms(1)]
  note fresh = store.delete_fresh [OF backend_store [OF assms(1)] assms(2,3)]
  from store.delete_ok [OF backend_store [OF assms(1)] assms(2,3)]
  have b': "db_inv b'" "d \<notin> doc_ids b'" unfolding dom_db_view [symmetric] by auto
  have "\<forall>e'. fault_free e' \<longrightarrow> GetDocument (store_of k) e' d b' = Inl ErrDocumentNotFound"
    using scanDocument_inv(2) [OF b'(1), of d] b'(2) by (simp add: sql_backend.sql_get [OF S])
  moreover have "\<forall>e' f docs. ListDocuments (store_of k) e' f b' = Inr docs \<longrightarrow> d \<notin> doc_ID ` set docs"
    using sql_backend.list_absent [OF S b'] by blast
  ultimately show ?thesis using fresh by blast
qed

theorem delete_clean_witness:
  "\<exists>b'. DeleteDocument (store_of SQLite) (calm 3) ''doc'' db2 = (Inr (), b')
     \<and> (\<forall>e p u q b''. AppendOp (store_of SQLite) e ''doc'' p u b' = (Inr q, b'') \<longrightarrow> q = 1)"
proof -
  have ok: "backend_ok SQLite" by (simp add: backend_ok_def)
  have "fst (DeleteDocument (store_of SQLite) (calm 3) ''doc'' db2) = Inr ()" by code_simp
  then obtain b' where b': "DeleteDocument (store_of SQLite) (calm 3) ''doc'' db2 = (Inr (), b')"
    by (metis prod.collapse)
  show ?thesis
    using delete_clean [OF ok db2_inv b'] by (intro exI [of _ b'] conjI b') (elim conjE, assumption)
qed

text \<open>
  C10: The backends are interchangeable. The same sequence of \<^verbatim>\<open>Store\<close> calls, made at the same
  times on the same database, leaves the same database on any two of SQLite, PostgreSQL
  and MySQL (with a collation that distinguishes all ids) and returns the same results,
  up to the driver's wording of its own errors; two listings are the same slice of two
  newest-first orders of the same documents, since each engine breaks ties in its own way.
  The values must fit the columns of the three schemas (\<open>fits\<close>: ids and session ids of at
  most 255 characters, metadata of at most 65535 bytes, valid UTF-8 without NUL bytes),
  and each database must be up: it refuses only values that do not fit. The bound keeps
  the sequence numbers inside 64 bits.
\<close>

theorem backends_agree:
  assumes "backend_ok k" "backend_ok k'" "db_inv b" "logs_below n b" "n + int (length cs) \<le> max_i64"
    and "list_all2 same_call cs cs'" "\<forall>x \<in> set cs. fits (snd x)" "\<forall>x \<in> set cs \<union> set cs'. healthy x"
  shows "snd (run_calls (store_of k') cs' b) = snd (run_calls (store_of k) cs b)
      \<and> list_all2 (\<lambda>x (r, r'). same_ret (snd x) r r') cs
          (zip (fst (run_calls (store_of k) cs b)) (fst (run_calls (store_of k') cs' b)))"
proof (rule agree_calls [OF assms(1,2,6,3,4,5)])
  have "fits (snd x)" if "x \<in> set cs'" for x
    using that assms(6,7) by (auto simp: list_all2_conv_all_nth in_set_conv_nth same_call_def) (metis nth_mem)
  then show "\<forall>x \<in> set cs \<union> set cs'. fault_free (fst x)" using assms(7,8) by (auto simp: healthy_def)
qed

theorem backends_agree_witness:
  "snd (run_calls (store_of (MySQL binary)) [((calm 4)\<lparr>tie := length\<rparr>, CAppend ''doc'' [7] ''a''),
       ((calm 5)\<lparr>tie := length\<rparr>, CDelete ''doc'')] db2)
   = snd (run_calls (store_of Postgres) [(calm 4, CAppend ''doc'' [7] ''a''), (calm 5, CDelete ''doc'')] db2)"
proof -
  let ?cs = "[(calm 4, CAppend ''doc'' [7] ''a''), (calm 5, CDelete ''doc'')]"
  let ?cs' = "[((calm 4)\<lparr>tie := length\<rparr>, CAppend ''doc'' [7] ''a''), ((calm 5)\<lparr>tie := length\<rparr>, CDelete ''doc'')]"
  have "logs_below 3 db2" by (simp add: logs_below_def db2_ops db2_len)
  moreover have "list_all2 same_call ?cs ?cs'" by (simp add: same_call_def)
  moreover have "\<forall>x \<in> set ?cs. fits (snd x)" by (simp add: id_fits_def text_fits_def rune_count_def)
  moreover have "\<forall>x \<in> set ?cs \<union> set ?cs'. healthy x" by (simp add: healthy_def fault_free_def calm_def)
  ultimately show ?thesis
    using backends_agree [of Postgres "MySQL binary" db2 3 ?cs ?cs'] db2_inv by (simp add: backend_ok_def max_i64_def)
qed

text \<open>
  C23: Metadata survives. A document created with a map of valid UTF-8 texts is read back
  with the same map, latest number 0 and its creation time, on every backend.
\<close>

theorem create_get_metadata:
  assumes "backend_ok k" "db_inv b" "fault_free e" "fault_free e'" "d \<notin> doc_ids b"
    and "distinct (map fst m)" "\<forall>(x, y) \<in> set m. valid_utf8 x \<and> valid_utf8 y"
  shows "\<exists>b' doc. CreateDocument (store_of k) e d m b = (Inr (), b') \<and> GetDocument (store_of k) e' d b' = Inr doc
     \<and> doc_ID doc = d \<and> map_of (doc_Metadata doc) = map_of m \<and> doc_LatestSeq doc = 0
     \<and> doc_CreatedAt doc = now e AtCreateDoc \<and> doc_UpdatedAt doc = now e AtCreateDoc"
proof -
  obtain m' where m': "unmarshalMetadata (marshalMetadata m) = Inr m'" "map_of m' = map_of m"
    using metadata_roundtrip [OF assms(6,7)] by blast
  let ?b = "add_doc (new_doc d (marshalMetadata m) (now e AtCreateDoc)) b"
  have create: "CreateDocument (store_of k) e d m b = (Inr (), ?b)"
    by (rule create_live [OF assms(1,3,5)])
  have "sql_select_doc binary d b = None" using assms(5) by (simp add: select_doc_None)
  then have "sql_select_doc binary d ?b = Some (new_doc d (marshalMetadata m) (now e AtCreateDoc))"
    by (simp add: sql_select_doc_def add_doc_def find_append)
  then have "GetDocument (store_of k) e' d ?b = Inr \<lparr>doc_ID = d, doc_Metadata = m', doc_LatestSeq = 0,
      doc_CreatedAt = now e AtCreateDoc, doc_UpdatedAt = now e AtCreateDoc\<rparr>"
    using assms(4) m' by (simp add: sql_backend.sql_get [OF backend_sql [OF assms(1)]] scanDocument_def) (simp add: new_doc_def)
  with create m' show ?thesis by simp
qed

theorem create_get_metadata_witness:
  "\<exists>b' doc. CreateDocument (store_of Postgres) (calm 3) ''n'' [(''k'', ''v'')] db2 = (Inr (), b')
     \<and> GetDocument (store_of Postgres) (calm 4) ''n'' b' = Inr doc \<and> map_of (doc_Metadata doc) = [''k'' \<mapsto> ''v'']"
  using create_get_metadata [of Postgres db2 "calm 3" "calm 4" "''n''" "[(''k'', ''v'')]"] db2_inv
  by (auto simp: backend_ok_def db2_ops)

text \<open>
  C24: Under a collation that identifies two ids (the default of a MySQL server ignores case)
  the MySQL backend mixes up the documents. Whenever the database has \<open>d1\<close> and no other id
  the collation identifies with \<open>d2\<close>, an append to \<open>d2\<close> gets the number after the last of
  \<open>d1\<close>, and reading the log of \<open>d1\<close> returns the operation of \<open>d2\<close> at its end; creating \<open>d2\<close>
  is refused as existing. On SQLite the append gets number 1 and the log of \<open>d1\<close> stays.
\<close>

theorem mysql_case_collision:
  assumes "db_inv b" "d1 \<in> doc_ids b" "d1 \<noteq> d2" "c d2 = c d1" "\<forall>x \<in> doc_ids b. c x = c d2 \<longrightarrow> x = d1"
    and "n = int (length (log_of (db_view b) d1))" "n < max_i64" "fault_free e" "fault_free e'"
  shows "(\<exists>b'. AppendOp (mysql_store c) e d2 p u b = (Inr (n + 1), b')
       \<and> GetOpsSince (mysql_store c) e' d1 0 b' = Inr (log_of (db_view b) d1 @
           [\<lparr>op_Seq = n + 1, op_DocID = d2, op_SessionID = u, op_Payload = p, op_CreatedAt = now e AtInsertOp\<rparr>]))
     \<and> CreateDocument (mysql_store c) e d2 m b = (Inl ErrDocumentExists, b)
     \<and> (\<exists>b'. AppendOp sqlite_store e d2 p u b = (Inr 1, b')
       \<and> GetOpsSince sqlite_store e' d1 0 b' = Inr (log_of (db_view b) d1))"
proof (intro conjI)
  note r = collation_row [OF assms(1,2,4,5)]
  have n: "n = int (length (ops_of b d1))" using assms(1,6) by simp
  show "\<exists>b'. AppendOp (mysql_store c) e d2 p u b = (Inr (n + 1), b')
       \<and> GetOpsSince (mysql_store c) e' d1 0 b' = Inr (log_of (db_view b) d1 @
           [\<lparr>op_Seq = n + 1, op_DocID = d2, op_SessionID = u, op_Payload = p, op_CreatedAt = now e AtInsertOp\<rparr>])"
    using collation_append [OF assms(1,2,4,5) n assms(7,8), of p u] collation_read [OF assms(1,2,4,5) n, of e' u p]
      assms(1,9) by auto
  show "CreateDocument (mysql_store c) e d2 m b = (Inl ErrDocumentExists, b)"
    using r assms(8) by (auto simp: mysql_CreateDocument_def sql_insert_doc_def exec_def isMySQLDuplicate_def)
  have d2: "d2 \<notin> doc_ids b" using assms(3,5) by auto
  have "AppendOp sqlite_store e d2 p u b = (Inr 1, appended d2 p u (now e AtInsertOp) b)"
    using sqlite_append_live [OF assms(1) _ assms(8), of d2 p u] ops_of_missing [OF assms(1) d2]
    by (simp add: next_seq_def max_i64_def)
  moreover have "GetOpsSince sqlite_store e' d1 0 (appended d2 p u (now e AtInsertOp) b) = Inr (log_of (db_view b) d1)"
    using sqlite_other_log [OF assms(1) d2 assms(3,9)] .
  ultimately show "\<exists>b'. AppendOp sqlite_store e d2 p u b = (Inr 1, b')
       \<and> GetOpsSince sqlite_store e' d1 0 b' = Inr (log_of (db_view b) d1)" by blast
qed

theorem mysql_case_collision_witness:
  "\<exists>b' ops. AppendOp (mysql_store ToLower) (calm 8) ''DOC'' [2] ''b'' db2 = (Inr 3, b')
     \<and> GetOpsSince (mysql_store ToLower) (calm 9) ''doc'' 0 b' = Inr ops \<and> map op_DocID ops = [''doc'', ''doc'', ''DOC'']"
proof -
  have log: "length (log_of (db_view db2) ''doc'') = 2" "map op_DocID (log_of (db_view db2) ''doc'') = [''doc'', ''doc'']"
    by code_simp+
  have c: "ToLower ''DOC'' = ToLower ''doc''" by code_simp
  have "''doc'' \<in> doc_ids db2" "\<forall>x \<in> doc_ids db2. ToLower x = ToLower ''DOC'' \<longrightarrow> x = ''doc''" by (simp_all add: db2_ops)
  from mysql_case_collision [OF db2_inv this(1) _ c this(2) _ _ fault_free_calm fault_free_calm, of 2 8 "[2]" "''b''" 9 "[]"]
  obtain b' where b': "AppendOp (mysql_store ToLower) (calm 8) ''DOC'' [2] ''b'' db2 = (Inr 3, b')"
    "GetOpsSince (mysql_store ToLower) (calm 9) ''doc'' 0 b' = Inr (log_of (db_view db2) ''doc'' @
       [\<lparr>op_Seq = 3, op_DocID = ''DOC'', op_SessionID = ''b'', op_Payload = [2], op_CreatedAt = now (calm 8) AtInsertOp\<rparr>])"
    using log(1) by (auto simp: max_i64_def)
  show ?thesis by (intro exI conjI) (rule b'(1), rule b'(2), simp add: log(2))
qed

text \<open>
  C22: A listing is complete, in order and sliced after ordering. There is an order of the
  documents \<^verbatim>\<open>GetDocument\<close> returns that were updated at or after the given time, newest
  first and each once, of which the result is the slice after the offset with a positive
  limit, and the whole without one (the offset is then ignored).
\<close>

theorem list_documents:
  assumes "backend_ok k" "db_inv b" "fault_free e"
  shows "\<exists>full. newest_first full \<and> distinct (map doc_ID full)
     \<and> set full = {doc. (\<exists>d. GetDocument (store_of k) e d b = Inr doc) \<and> selected f doc}
     \<and> ListDocuments (store_of k) e f b = Inr
         (if 0 < f_Limit f then take (nat (f_Limit f)) (drop (nat (f_Offset f)) full) else full)"
proof (intro exI [of _ "map doc_of_row (full_rows e f b)"] conjI)
  note S = backend_sql [OF assms(1)]
  note full = full_rows_props [OF assms(2), of e f]
  have row: "doc_ID (doc_of_row r) = dr_id r \<and> doc_UpdatedAt (doc_of_row r) = dr_updated_at r"
    if "r \<in> set (documents b)" for r
    using that assms(2) scanDocument_row unfolding db_inv_def by blast
  show "newest_first (map doc_of_row (full_rows e f b))" by (rule full_newest_first [OF assms(2)])
  have "map doc_ID (map doc_of_row (full_rows e f b)) = map dr_id (full_rows e f b)"
    using full(2) row by simp
  then show "distinct (map doc_ID (map doc_of_row (full_rows e f b)))" using full(3) by (simp only:)
  have "set (full_rows e f b) = {r \<in> set (documents b). selected f (doc_of_row r)}"
    using row unfolding mset_eq_setD [OF full(1)] by (auto simp: matching_def selected_def split: option.splits)
  then show "set (map doc_of_row (full_rows e f b)) =
      {doc. (\<exists>d. GetDocument (store_of k) e d b = Inr doc) \<and> selected f doc}"
    using sql_backend.get_row [OF S assms(2,3)] by auto
  show "ListDocuments (store_of k) e f b = Inr (if 0 < f_Limit f
      then take (nat (f_Limit f)) (drop (nat (f_Offset f)) (map doc_of_row (full_rows e f b)))
      else map doc_of_row (full_rows e f b))"
    using sql_backend.list_full [OF S assms(2), of e f] assms(3) by (simp add: listing_def)
qed

theorem list_documents_witness:
  "\<exists>full. newest_first full
     \<and> set full = {doc. (\<exists>d. GetDocument (store_of SQLite) (calm 3) d db2 = Inr doc) \<and> selected \<lparr>f_UpdatedSince = None, f_Limit = 1, f_Offset = 0\<rparr> doc}
     \<and> ListDocuments (store_of SQLite) (calm 3) \<lparr>f_UpdatedSince = None, f_Limit = 1, f_Offset = 0\<rparr> db2 = Inr (take 1 full)"
proof -
  have "backend_ok SQLite" by (simp add: backend_ok_def)
  from list_documents [OF this db2_inv fault_free_calm, of 3 "\<lparr>f_UpdatedSince = None, f_Limit = 1, f_Offset = 0\<rparr>"]
  show ?thesis by (elim exE conjE) (intro exI conjI; (assumption | simp))
qed

end
