(* ===== verification/Engine_Laws.thy ===== *)
theory Engine_Laws
  imports Sync_Engine Backends
begin

text \<open>
  What the engine keeps: the relation between the committed logs, the snapshots and the
  cached documents, over any store that keeps the contract and any Automerge library that
  behaves as documented. The relation comes in two strengths: the cache and the
  snapshots hold at least the committed changes (whatever fails), or exactly those.
\<close>

section \<open>Changes of a log\<close>

definition log_changes :: "(bytes \<Rightarrow> 'c set) \<Rightarrow> view \<Rightarrow> string \<Rightarrow> 'c set" where
  "log_changes changes v d = (\<Union>x \<in> set (log_of v d). changes (op_Payload x))"

definition prefix_changes :: "(bytes \<Rightarrow> 'c set) \<Rightarrow> view \<Rightarrow> string \<Rightarrow> int \<Rightarrow> 'c set" where
  "prefix_changes changes v d k = (\<Union>x \<in> {x \<in> set (log_of v d). op_Seq x \<le> k}. changes (op_Payload x))"

definition covers :: "bool \<Rightarrow> 'c set \<Rightarrow> 'c set \<Rightarrow> bool" where
  "covers ex X Y \<longleftrightarrow> X \<subseteq> Y \<and> (ex \<longrightarrow> Y \<subseteq> X)"

definition snaps_ok :: "bool \<Rightarrow> 'd automerge \<Rightarrow> ('d \<Rightarrow> 'c set) \<Rightarrow> (bytes \<Rightarrow> 'c set) \<Rightarrow> view \<Rightarrow> bool" where
  "snaps_ok ex A content changes v \<longleftrightarrow>
     (\<forall>d k b. snaps_of v d k = Some b \<longrightarrow> k \<le> int (length (log_of v d)) \<and> b \<noteq> []
        \<and> (\<exists>x. crdt_Load A b = Inr x \<and> covers ex (prefix_changes changes v d k) (content x)))"

definition docs_ok :: "bool \<Rightarrow> ('d \<Rightarrow> 'c set) \<Rightarrow> (bytes \<Rightarrow> 'c set) \<Rightarrow> view \<Rightarrow> (string \<rightharpoonup> 'd) \<Rightarrow> bool" where
  "docs_ok ex content changes v docs \<longleftrightarrow>
     (\<forall>d x. docs d = Some x \<longrightarrow> covers ex (log_changes changes v d) (content x))"

lemma log_changes_append [simp]:
  "log_changes changes (spec_append d p u t v) d' =
     (if d' = d then log_changes changes v d \<union> changes p else log_changes changes v d')"
  by (auto simp: log_changes_def)

lemma log_changes_save [simp]: "log_changes changes (spec_save_snapshot d b k v) d' = log_changes changes v d'"
  by (simp add: log_changes_def)

lemma prefix_changes_append:
  assumes "k \<le> int (length (log_of v d))"
  shows "prefix_changes changes (spec_append d p u t v) d' k = prefix_changes changes v d' k"
  using assms by (auto simp: prefix_changes_def)

lemma prefix_changes_save [simp]:
  "prefix_changes changes (spec_save_snapshot d b k v) d' k' = prefix_changes changes v d' k'"
  by (simp add: prefix_changes_def)

lemma prefix_changes_all:
  assumes "numbered op_Seq (log_of v d)" "int (length (log_of v d)) \<le> k"
  shows "prefix_changes changes v d k = log_changes changes v d"
  using numbered_bounds [OF assms(1)] assms(2) by (fastforce simp: prefix_changes_def log_changes_def)

lemma prefix_changes_tail:
  "log_changes changes v d = prefix_changes changes v d k \<union>
     (\<Union>p \<in> set (map op_Payload (filter (\<lambda>x. k < op_Seq x) (log_of v d))). changes p)"
  by (force simp: prefix_changes_def log_changes_def)

lemma covers_union: "covers ex X Y \<Longrightarrow> covers ex (X \<union> Z) (Y \<union> Z)"
  by (auto simp: covers_def)

lemma snaps_okD:
  "snaps_ok ex A content changes v \<Longrightarrow> snaps_of v d k = Some b \<Longrightarrow> k \<le> int (length (log_of v d)) \<and> b \<noteq> []
     \<and> (\<exists>x. crdt_Load A b = Inr x \<and> covers ex (prefix_changes changes v d k) (content x))"
  by (simp add: snaps_ok_def)

lemma snaps_ok_append:
  assumes "snaps_ok ex A content changes v"
  shows "snaps_ok ex A content changes (spec_append d p u t v)"
  unfolding snaps_ok_def
proof (intro allI impI)
  fix d' k b assume "snaps_of (spec_append d p u t v) d' k = Some b"
  then have old: "snaps_of v d' k = Some b" by simp
  then have b: "k \<le> int (length (log_of v d'))" "b \<noteq> []"
    "\<exists>x. crdt_Load A b = Inr x \<and> covers ex (prefix_changes changes v d' k) (content x)"
    using assms by (auto simp: snaps_ok_def)
  moreover have "prefix_changes changes (spec_append d p u t v) d' k = prefix_changes changes v d' k"
    using b(1) by (cases "d' = d") (simp_all add: prefix_changes_append, simp add: prefix_changes_def)
  ultimately show "k \<le> int (length (log_of (spec_append d p u t v) d')) \<and> b \<noteq> [] \<and> (\<exists>x. crdt_Load A b = Inr x
      \<and> covers ex (prefix_changes changes (spec_append d p u t v) d' k) (content x))"
    by auto
qed

lemma snaps_ok_save:
  assumes "snaps_ok ex A content changes v" "numbered op_Seq (log_of v d)"
    and "crdt_Load A b = Inr x" "b \<noteq> []" "covers ex (log_changes changes v d) (content x)"
  shows "snaps_ok ex A content changes (spec_save_snapshot d b (int (length (log_of v d))) v)"
  using assms prefix_changes_all [OF assms(2) order_refl, of changes]
  by (auto simp: snaps_ok_def split: if_splits)

lemma snaps_ok_delete: "snaps_ok ex A content changes v \<Longrightarrow> snaps_ok ex A content changes (v(d := None))"
  by (auto simp: snaps_ok_def adoc_of_def empty_adoc_def prefix_changes_def split: if_splits)

lemma docs_ok_append:
  "docs_ok ex content changes v docs \<Longrightarrow> covers ex (log_changes changes v d \<union> changes p) (content x) \<Longrightarrow>
   docs_ok ex content changes (spec_append d p u t v) (docs(d \<mapsto> x))"
  by (auto simp: docs_ok_def split: if_splits)

lemma docs_ok_save: "docs_ok ex content changes (spec_save_snapshot d b k v) docs \<longleftrightarrow> docs_ok ex content changes v docs"
  by (simp add: docs_ok_def)

lemma docs_ok_put:
  "docs_ok ex content changes v docs \<Longrightarrow> covers ex (log_changes changes v d) (content x) \<Longrightarrow>
   docs_ok ex content changes v (docs(d \<mapsto> x))"
  by (auto simp: docs_ok_def split: if_splits)

lemma docs_ok_forget: "docs_ok ex content changes v docs \<Longrightarrow> docs_ok ex content changes v (docs(d := None))"
  by (auto simp: docs_ok_def split: if_splits)

lemma docs_ok_delete:
  "docs_ok ex content changes v docs \<Longrightarrow> docs_ok ex content changes (v(d := None)) (docs(d := None))"
  "docs_ok False content changes v docs \<Longrightarrow> docs_ok False content changes (v(d := None)) docs"
  by (auto simp: docs_ok_def log_changes_def adoc_of_def empty_adoc_def covers_def split: if_splits)

section \<open>Sequences of engine calls\<close>

text \<open>
  The calls the server and the management API make. Deleting is the API's sequence:
  the store's deletion and, when it succeeded, \<^verbatim>\<open>Forget\<close>. A restart keeps the store
  and drops the cache.
\<close>

datatype eop =
    OSubmit string string string bytes
  | OSnapshot string
  | OExport string
  | OCreate string strmap
  | ODelete string
  | ORestart

fun run_eop :: "'s store_ops \<Rightarrow> 'd automerge \<Rightarrow> Engine \<Rightarrow> eenv \<Rightarrow> eop \<Rightarrow> ('s, 'd) estate \<Rightarrow> ('s, 'd) estate" where
  "run_eop S A c e (OSubmit d u uid p) st = fst (snd (Submit S A c e d u uid p st))"
| "run_eop S A c e (OSnapshot d) st = snd (Snapshot S A e d st)"
| "run_eop S A c e (OExport d) st = snd (Export S A e d st)"
| "run_eop S A c e (OCreate d m) st = st\<lparr>e_store := snd (CreateDocument S (dbe e) d m (e_store st))\<rparr>"
| "run_eop S A c e (ODelete d) st =
     (case DeleteDocument S (dbe e) d (e_store st) of
        (Inl _, s) \<Rightarrow> st\<lparr>e_store := s\<rparr>
      | (Inr _, s) \<Rightarrow> Forget d (st\<lparr>e_store := s\<rparr>))"
| "run_eop S A c e ORestart st = new_estate (e_store st)"

fun run_eops ::
  "'s store_ops \<Rightarrow> 'd automerge \<Rightarrow> Engine \<Rightarrow> (eenv \<times> eop) list \<Rightarrow> ('s, 'd) estate \<Rightarrow> ('s, 'd) estate" where
  "run_eops S A c [] st = st"
| "run_eops S A c ((e, op) # ops) st = run_eops S A c ops (run_eop S A c e op st)"

text \<open>No submit and no deletion of the sequence reported an error.\<close>

fun no_failure :: "'s store_ops \<Rightarrow> 'd automerge \<Rightarrow> Engine \<Rightarrow> (eenv \<times> eop) list \<Rightarrow> ('s, 'd) estate \<Rightarrow> bool" where
  "no_failure S A c [] st \<longleftrightarrow> True"
| "no_failure S A c ((e, op) # ops) st \<longleftrightarrow>
     (case op of
        OSubmit d u uid p \<Rightarrow> \<not> isl (fst (Submit S A c e d u uid p st))
      | ODelete d \<Rightarrow> \<not> isl (fst (DeleteDocument S (dbe e) d (e_store st)))
      | _ \<Rightarrow> True)
   \<and> no_failure S A c ops (run_eop S A c e op st)"

section \<open>The engine over a store\<close>

context store
begin

definition eng_ok :: "bool \<Rightarrow> 'd automerge \<Rightarrow> ('d \<Rightarrow> 'c set) \<Rightarrow> (bytes \<Rightarrow> 'c set) \<Rightarrow> ('s, 'd) estate \<Rightarrow> bool" where
  "eng_ok ex A content changes st \<longleftrightarrow> inv (e_store st) \<and> snaps_ok ex A content changes (view (e_store st))
     \<and> docs_ok ex content changes (view (e_store st)) (e_docs st)"

lemma load_covers:
  assumes "automerge_laws A content changes" "inv s" "snaps_ok ex A content changes (view s)"
    and "loadDoc S A e d s = Inr x"
  shows "covers ex (log_changes changes (view s) d) (content x)"
proof (cases "GetSnapshot S (dbe e) d s")
  case (Inl err)
  with assms(4) have "err = ErrNoSnapshot" by (auto simp: loadDoc_def split: if_splits)
  with Inl assms(4) obtain ops where ops: "GetOpsSince S (dbe e) d 0 s = Inr ops"
    "replay_ops A 0 (map op_Payload ops) (am_New A) = Inr x"
    by (auto simp: loadDoc_def Rehydrate_def crdt_New_def split: sum.splits)
  have "ops = log_of (view s) d" using since_drop [OF assms(2) ops(1)] by simp
  then have "content x = log_changes changes (view s) d"
    using replay_ops_content [OF assms(1) ops(2)] laws_New [OF assms(1)] by (simp add: log_changes_def)
  then show ?thesis by (simp add: covers_def)
next
  case (Inr bk)
  obtain b k where bk: "bk = (b, k)" by fastforce
  have "snaps_of (view s) d k = Some b" using snapshot_ok [OF assms(2) Inr [unfolded bk]] by simp
  from snaps_okD [OF assms(3) this] obtain x0 where
    x0: "b \<noteq> []" "crdt_Load A b = Inr x0" "covers ex (prefix_changes changes (view s) d k) (content x0)"
    by blast
  with Inr bk assms(4) obtain ops where ops: "GetOpsSince S (dbe e) d k s = Inr ops"
    "replay_ops A 0 (map op_Payload ops) x0 = Inr x"
    by (auto simp: loadDoc_def Rehydrate_def split: sum.splits)
  have "content x = content x0 \<union> (\<Union>p \<in> set (map op_Payload (filter (\<lambda>x. k < op_Seq x) (log_of (view s) d))). changes p)"
    using replay_ops_content [OF assms(1) ops(2)] since [OF assms(2) ops(1)] by simp
  then show ?thesis
    using covers_union [OF x0(3)] prefix_changes_tail [of changes "view s" d k] by simp
qed

lemma state_ok:
  assumes "automerge_laws A content changes" "eng_ok ex A content changes st" "state S A e d st = (r, st1)"
  shows "eng_ok ex A content changes st1 \<and> e_store st1 = e_store st
     \<and> (\<forall>x. r = Inr x \<longrightarrow> e_docs st1 d = Some x \<and> covers ex (log_changes changes (view (e_store st)) d) (content x))"
proof (cases "e_docs st d")
  case (Some x)
  with assms(2,3) show ?thesis by (auto simp: state_def eng_ok_def docs_ok_def)
next
  case None
  show ?thesis
  proof (cases "loadDoc S A e d (e_store st)")
    case (Inl err)
    with None assms(2,3) show ?thesis by (auto simp: state_def)
  next
    case (Inr x)
    have "covers ex (log_changes changes (view (e_store st)) d) (content x)"
      using load_covers [OF assms(1) _ _ Inr] assms(2) by (simp add: eng_ok_def)
    with None Inr assms(2,3) show ?thesis by (auto simp: state_def eng_ok_def intro: docs_ok_put)
  qed
qed

lemma save_eng_ok:
  assumes "automerge_laws A content changes" "inv s" "snaps_ok ex A content changes (view s)"
    and "docs_ok ex content changes (view s) docs" "docs d = Some x"
    and "k = int (length (log_of (view s) d))"
  shows "eng_ok ex A content changes \<lparr>e_store = snd (SaveSnapshot S e d (crdt_Save A x) k s), e_docs = docs\<rparr>"
    and "log_of (view (snd (SaveSnapshot S e d (crdt_Save A x) k s))) d' = log_of (view s) d'"
proof -
  obtain r s' where r: "SaveSnapshot S e d (crdt_Save A x) k s = (r, s')" by fastforce
  obtain y where y: "am_Save A x \<noteq> []" "crdt_Load A (am_Save A x) = Inr y" "content y = content x"
    by (rule laws_Load_Save [OF assms(1)])
  have "covers ex (log_changes changes (view s) d) (content y)"
    using assms(4,5) y(3) by (simp add: docs_ok_def)
  note saved = snaps_ok_save [OF assms(3) log_numbered [OF assms(2)] y(2,1) this, folded assms(6)]
  from save_cases [OF assms(2) r] saved assms(3,4)
  show "eng_ok ex A content changes \<lparr>e_store = snd (SaveSnapshot S e d (crdt_Save A x) k s), e_docs = docs\<rparr>"
    by (auto simp: eng_ok_def r docs_ok_save) (simp add: crdt_Save_def)
  show "log_of (view (snd (SaveSnapshot S e d (crdt_Save A x) k s))) d' = log_of (view s) d'"
    using save_log [OF assms(2) r] by (simp add: r)
qed

text \<open>
  A submit keeps the relation: the weak one always, the exact one when it succeeded.
  Its result says what happened to the log.
\<close>

definition submitted :: "string \<Rightarrow> bytes \<Rightarrow> string \<Rightarrow> int res \<Rightarrow> 's \<Rightarrow> 's \<Rightarrow> bool" where
  "submitted d p u r s s' \<longleftrightarrow>
     (let n = int (length (log_of (view s) d));
          new = (\<lambda>t. \<lparr>op_Seq = n + 1, op_DocID = d, op_SessionID = u, op_Payload = p, op_CreatedAt = t\<rparr>)
      in (\<forall>d'. d' \<noteq> d \<longrightarrow> log_of (view s') d' = log_of (view s) d')
       \<and> (case r of
            Inr q \<Rightarrow> q = n + 1 \<and> (\<exists>t. log_of (view s') d = log_of (view s) d @ [new t])
          | Inl _ \<Rightarrow> log_of (view s') d = log_of (view s) d \<or> (\<exists>t. log_of (view s') d = log_of (view s) d @ [new t])))"

lemma append_eng_ok:
  assumes "automerge_laws A content changes" "eng_ok ex A content changes st"
    and "e_docs st d = Some x" "content y = content x \<union> changes p \<or> \<not> ex \<and> content x \<union> changes p \<subseteq> content y"
    and "view s' = spec_append d p u t (view (e_store st))" "inv s'"
  shows "eng_ok ex A content changes \<lparr>e_store = s', e_docs = (e_docs st)(d \<mapsto> y)\<rparr>"
proof -
  have "covers ex (log_changes changes (view (e_store st)) d) (content x)"
    using assms(2,3) by (simp add: eng_ok_def docs_ok_def)
  then have "covers ex (log_changes changes (view (e_store st)) d \<union> changes p) (content y)"
    using assms(4) unfolding covers_def by blast
  then show ?thesis
    using assms(2,5,6) by (auto simp: eng_ok_def intro: snaps_ok_append docs_ok_append)
qed

lemma grown_eng_ok:
  assumes "eng_ok False A content changes st" "e_docs st d = Some x" "content x \<subseteq> content y"
  shows "eng_ok False A content changes (set_doc d y st)"
  using assms by (auto simp: eng_ok_def set_doc_def docs_ok_def covers_def split: if_splits)

lemma commit_err:
  assumes laws: "automerge_laws A content changes" and ok: "eng_ok False A content changes st" "e_docs st d = Some x"
    and grow: "content y = content x \<union> changes p" and n: "int (length (log_of (view (e_store st)) d)) < max_i64"
    and s: "AppendOp S e d p u (e_store st) = (Inl err, s)"
  shows "eng_ok False A content changes \<lparr>e_store = s, e_docs = (e_docs st)(d \<mapsto> y)\<rparr>
     \<and> submitted d p u (Inl err') (e_store st) s"
proof -
  have "inv (e_store st)" using ok by (simp add: eng_ok_def)
  from append_err [OF this n s] have cases: "inv s"
    "view s = view (e_store st) \<or> (\<exists>t. view s = spec_append d p u t (view (e_store st)))" by auto
  have "eng_ok False A content changes (set_doc d y st)"
    using grown_eng_ok [of A content changes st d x y] ok grow by simp
  then have "eng_ok False A content changes \<lparr>e_store = s, e_docs = (e_docs st)(d \<mapsto> y)\<rparr>"
    if "view s = view (e_store st)"
    using that cases(1) by (simp add: eng_ok_def set_doc_def)
  moreover have "eng_ok False A content changes \<lparr>e_store = s, e_docs = (e_docs st)(d \<mapsto> y)\<rparr>"
    if "view s = spec_append d p u t (view (e_store st))" for t
    using append_eng_ok [OF laws ok _ _ cases(1), of y p u t] grow that by simp
  moreover have "submitted d p u (Inl err') (e_store st) s"
    using cases(2) by (auto simp: submitted_def Let_def)
  ultimately show ?thesis using cases(2) by auto
qed

lemma commit_ok:
  assumes laws: "automerge_laws A content changes" and ok: "eng_ok ex A content changes st" "e_docs st d = Some x"
    and grow: "content y = content x \<union> changes p" and n: "int (length (log_of (view (e_store st)) d)) < max_i64"
    and s: "AppendOp S e d p u (e_store st) = (Inr q, s)"
    and s': "s' = s \<or> s' = snd (SaveSnapshot S e d (crdt_Save A y) q s)"
  shows "eng_ok ex A content changes \<lparr>e_store = s', e_docs = (e_docs st)(d \<mapsto> y)\<rparr>
     \<and> submitted d p u (Inr q) (e_store st) s'"
proof -
  let ?docs = "(e_docs st)(d \<mapsto> y)"
  have "inv (e_store st)" using ok by (simp add: eng_ok_def)
  from append_ok [OF this n s] obtain t where t: "inv s" "q = int (length (log_of (view (e_store st)) d)) + 1"
    "view s = spec_append d p u t (view (e_store st))" by auto
  have e: "eng_ok ex A content changes \<lparr>e_store = s, e_docs = ?docs\<rparr>"
    using append_eng_ok [OF laws ok _ _ t(1), of y p u t] grow t(3) by simp
  have q: "q = int (length (log_of (view s) d))" using t(2,3) by simp
  note sv = save_eng_ok [OF laws t(1) _ _ _ q, of ex ?docs y e]
  have "eng_ok ex A content changes \<lparr>e_store = snd (SaveSnapshot S e d (crdt_Save A y) q s), e_docs = ?docs\<rparr>"
    "log_of (view (snd (SaveSnapshot S e d (crdt_Save A y) q s))) d' = log_of (view s) d'" for d'
    using e by (intro sv; simp add: eng_ok_def)+
  then have "eng_ok ex A content changes \<lparr>e_store = s', e_docs = ?docs\<rparr>"
    "log_of (view s') d' = log_of (view s) d'" for d'
    using e s' by auto
  then show ?thesis using t(2,3) by (simp add: submitted_def Let_def)
qed

lemma submit_ok:
  assumes laws: "automerge_laws A content changes" and ok: "eng_ok ex A content changes st"
    and c: "e_resolver c = None" and n: "int (length (log_of (view (e_store st)) d)) < max_i64"
    and sub: "Submit S A c e d u uid p st = (r, st', fx)" and ex: "ex \<Longrightarrow> \<not> isl r \<or> d = [] \<or> p = []"
  shows "eng_ok ex A content changes st' \<and> submitted d p u r (e_store st) (e_store st')"
proof (cases "d = [] \<or> p = []")
  case True
  with sub have "st' = st" "isl r" by (auto simp: Submit_def split: if_splits)
  with ok show ?thesis by (cases r) (auto simp: submitted_def Let_def)
next
  case False
  obtain r1 st1 where st1: "state S A e d st = (r1, st1)" by fastforce
  note s1 = state_ok [OF laws ok st1]
  show ?thesis
  proof (cases r1)
    case (Inl err)
    with False sub st1 s1 show ?thesis by (auto simp: Submit_def submitted_def Let_def)
  next
    case (Inr x)
    obtain r2 y where y: "crdt_Apply A x p = (r2, y)" by fastforce
    have ap: "applyChange A c e d x p = (r2, y, [])" by (simp add: applyChange_def c y)
    from Inr s1 have x: "eng_ok ex A content changes st1" "e_store st1 = e_store st" "e_docs st1 d = Some x" by auto
    obtain r3 s3 where s3: "AppendOp S (dbe e) d p u (e_store st1) = (r3, s3)" by fastforce
    show ?thesis
    proof (cases r2)
      case (Some err)
      with False sub st1 Inr ap have r: "r = Inl err" "st' = set_doc d y st1" by (auto simp: Submit_def)
      then have "\<not> ex" using ex False by auto
      moreover have "content x \<subseteq> content y" using laws_Apply_grows [OF laws y] by simp
      ultimately show ?thesis
        using grown_eng_ok [of A content changes st1 d x y] x r by (simp add: submitted_def set_doc_def)
    next
      case None
      have grow: "content y = content x \<union> changes p" using laws_Apply_ok [OF laws] y None by simp
      show ?thesis
      proof (cases r3)
        case (Inl err)
        with False sub st1 Inr ap None s3 have r: "r = Inl (Wrap ''append op: '' err [])"
          "st' = \<lparr>e_store = s3, e_docs = (e_docs st1)(d \<mapsto> y)\<rparr>"
          using \<open>r1 = Inr x\<close> by (auto simp: Submit_def set_doc_def Let_def)
        then have "\<not> ex" using ex False by auto
        with commit_err [OF laws _ x(3) grow, of "dbe e" u err s3] x(1,2) n s3 Inl r show ?thesis by simp
      next
        case (Inr q)
        let ?s = "if 0 < e_snapshotEvery c \<and> go_rem q (e_snapshotEvery c) = 0
            then snd (SaveSnapshot S (dbe e) d (crdt_Save A y) q s3) else s3"
        from False sub st1 \<open>r1 = Inr x\<close> ap None s3 Inr
        have r: "r = Inr q" "st' = \<lparr>e_store = ?s, e_docs = (e_docs st1)(d \<mapsto> y)\<rparr>"
          by (auto simp: Submit_def set_doc_def Let_def)
        with commit_ok [OF laws x(1,3) grow, of "dbe e" u q s3 ?s] x(2) n s3 Inr show ?thesis by simp
      qed
    qed
  qed
qed

definition extends :: "'s \<Rightarrow> 's \<Rightarrow> string \<Rightarrow> bool" where
  "extends s s' d \<longleftrightarrow> (\<exists>xs. log_of (view s') d = log_of (view s) d @ xs \<and> length xs \<le> 1)"

lemma submitted_extends: "submitted d p u r s s' \<Longrightarrow> extends s s' d'"
  by (cases "d' = d") (auto simp: submitted_def extends_def Let_def split: sum.splits)

lemma snapshot_call_ok:
  assumes laws: "automerge_laws A content changes" and ok: "eng_ok ex A content changes st"
  shows "eng_ok ex A content changes (snd (Snapshot S A e d st)) 
     \<and> log_of (view (e_store (snd (Snapshot S A e d st)))) d' = log_of (view (e_store st)) d'"
proof -
  obtain r1 st1 where st1: "state S A e d st = (r1, st1)" by fastforce
  note s1 = state_ok [OF laws ok st1]
  show ?thesis
  proof (cases r1)
    case (Inl err)
    with st1 s1 show ?thesis by (simp add: Snapshot_def)
  next
    case (Inr x)
    with s1 have x: "eng_ok ex A content changes st1" "e_store st1 = e_store st" "e_docs st1 d = Some x" by auto
    show ?thesis
    proof (cases "GetLatestSeq S (dbe e) d (e_store st1)")
      case (Inl err)
      with Inr st1 x show ?thesis by (simp add: Snapshot_def)
    next
      case (Inr q)
      have inv: "inv (e_store st1)" "snaps_ok ex A content changes (view (e_store st1))"
        "docs_ok ex content changes (view (e_store st1)) (e_docs st1)"
        using x(1) by (simp_all add: eng_ok_def)
      note sv = save_eng_ok [where docs = "e_docs st1" and d = d and e = "dbe e", OF laws inv x(3) latest [OF inv(1) Inr]]
      have st': "snd (Snapshot S A e d st) = \<lparr>e_store = snd (SaveSnapshot S (dbe e) d (crdt_Save A x) q (e_store st1)), e_docs = e_docs st1\<rparr>"
        using \<open>r1 = Inr x\<close> st1 Inr by (simp add: Snapshot_def split: prod.splits sum.splits)
      have "eng_ok ex A content changes (snd (Snapshot S A e d st))"
        unfolding st' by (rule sv(1))
      moreover have "log_of (view (e_store (snd (Snapshot S A e d st)))) d' = log_of (view (e_store st)) d'"
        unfolding st' using x(2) sv(2) [of d'] by simp
      ultimately show ?thesis by simp
    qed
  qed
qed

lemma export_call_ok:
  assumes laws: "automerge_laws A content changes" and ok: "eng_ok ex A content changes st"
    and ex: "Export S A e d st = (r, st')"
  shows "eng_ok ex A content changes st' \<and> e_store st' = e_store st
     \<and> (\<forall>b. r = Inr b \<longrightarrow> (\<exists>x. crdt_Load A b = Inr x \<and> covers ex (log_changes changes (view (e_store st)) d) (content x)))"
proof -
  obtain r1 st1 where st1: "state S A e d st = (r1, st1)" by fastforce
  note s1 = state_ok [OF laws ok st1]
  show ?thesis
  proof (cases r1)
    case (Inl err)
    with st1 s1 ex show ?thesis by (auto simp: Export_def)
  next
    case (Inr x)
    obtain y where y: "am_Save A x \<noteq> []" "crdt_Load A (am_Save A x) = Inr y" "content y = content x"
      by (rule laws_Load_Save [OF laws])
    with Inr st1 s1 ex show ?thesis by (auto simp: Export_def crdt_Save_def)
  qed
qed

lemma run_eop_ok:
  assumes laws: "automerge_laws A content changes" and ok: "eng_ok ex A content changes st"
    and c: "e_resolver c = None" and n: "\<And>d. int (length (log_of (view (e_store st)) d)) < max_i64"
    and clean: "ex \<Longrightarrow> no_failure S A c [(e, op)] st"
  shows "eng_ok ex A content changes (run_eop S A c e op st)
     \<and> (op \<noteq> ODelete d \<longrightarrow> extends (e_store st) (e_store (run_eop S A c e op st)) d)
     \<and> int (length (log_of (view (e_store (run_eop S A c e op st))) d)) \<le> int (length (log_of (view (e_store st)) d)) + 1"
proof (cases op)
  case (OSubmit d1 u uid p)
  obtain r st' fx where r: "Submit S A c e d1 u uid p st = (r, st', fx)" by (metis prod_cases3)
  have "ex \<Longrightarrow> \<not> isl r" using clean r OSubmit by simp
  with submit_ok [OF laws ok c n r] have "eng_ok ex A content changes st'" "submitted d1 p u r (e_store st) (e_store st')" by auto
  with submitted_extends [OF this(2), of d] show ?thesis by (auto simp: OSubmit r extends_def)
next
  case (OSnapshot d1)
  with snapshot_call_ok [OF laws ok, of e d1 d] show ?thesis by (auto simp: extends_def)
next
  case (OExport d1)
  obtain r st' where "Export S A e d1 st = (r, st')" by fastforce
  with export_call_ok [OF laws ok this] OExport show ?thesis by (auto simp: extends_def)
next
  case (OCreate d1 m)
  have inv: "inv (e_store st)" using ok by (simp add: eng_ok_def)
  obtain r s where r: "CreateDocument S (dbe e) d1 m (e_store st) = (r, s)" by fastforce
  from create_cases [OF inv r] have "inv s" and v: "adoc_of (view s) = adoc_of (view (e_store st))"
    by (auto simp: fun_eq_iff adoc_of_def)
  then show ?thesis using ok
    by (simp add: OCreate r eng_ok_def snaps_ok_def docs_ok_def log_changes_def prefix_changes_def extends_def)
next
  case (ODelete d1)
  have inv: "inv (e_store st)" using ok by (simp add: eng_ok_def)
  obtain r s where r: "DeleteDocument S (dbe e) d1 (e_store st) = (r, s)" by fastforce
  from delete_cases [OF inv r] delete_ok [OF inv, of "dbe e" d1 s] have v: "inv s"
    "view s = view (e_store st) \<or> view s = (view (e_store st))(d1 := None)"
    "\<And>y. r = Inr y \<Longrightarrow> view s = (view (e_store st))(d1 := None)" by (auto simp: r)
  have "\<not> ex" if "isl r" using that clean r ODelete by auto
  with v ok have "eng_ok ex A content changes (run_eop S A c e op st)"
    by (cases r) (auto simp: ODelete r eng_ok_def Forget_def intro: snaps_ok_delete docs_ok_delete)
  moreover have "e_store (run_eop S A c e op st) = s" by (cases r) (simp_all add: ODelete r Forget_def)
  ultimately show ?thesis using v(2) ODelete by (auto simp: adoc_of_def empty_adoc_def extends_def)
next
  case ORestart
  then show ?thesis using ok by (simp add: eng_ok_def new_estate_def docs_ok_def extends_def)
qed

lemma no_failure_hd: "no_failure S A c ((e, op) # ops) st \<Longrightarrow> no_failure S A c [(e, op)] st"
  by simp

lemma run_eops_ok:
  assumes laws: "automerge_laws A content changes" and c: "e_resolver c = None"
  shows "eng_ok ex A content changes st \<Longrightarrow> (ex \<Longrightarrow> no_failure S A c ops st) \<Longrightarrow>
    (\<And>d. int (length (log_of (view (e_store st)) d)) + int (length ops) \<le> max_i64) \<Longrightarrow>
    eng_ok ex A content changes (run_eops S A c ops st)
    \<and> (ODelete d \<notin> snd ` set ops \<longrightarrow> (\<exists>xs. log_of (view (e_store (run_eops S A c ops st))) d = log_of (view (e_store st)) d @ xs))
    \<and> int (length (log_of (view (e_store (run_eops S A c ops st))) d)) \<le> int (length (log_of (view (e_store st)) d)) + int (length ops)"
proof (induction ops arbitrary: st)
  case (Cons eo ops)
  obtain e op where eo: "eo = (e, op)" by fastforce
  let ?st = "run_eop S A c e op st"
  have n: "int (length (log_of (view (e_store st)) d)) < max_i64" for d using Cons.prems(3) [of d] by simp
  have cl: "ex \<Longrightarrow> no_failure S A c [(e, op)] st" using Cons.prems(2) by (simp add: eo)
  note step = run_eop_ok [OF laws Cons.prems(1) c n cl]
  have IH: "eng_ok ex A content changes (run_eops S A c ops ?st)
    \<and> (ODelete d \<notin> snd ` set ops \<longrightarrow> (\<exists>xs. log_of (view (e_store (run_eops S A c ops ?st))) d = log_of (view (e_store ?st)) d @ xs))
    \<and> int (length (log_of (view (e_store (run_eops S A c ops ?st))) d)) \<le> int (length (log_of (view (e_store ?st)) d)) + int (length ops)"
  proof (rule Cons.IH)
    show "eng_ok ex A content changes ?st" using step by simp
    show "ex \<Longrightarrow> no_failure S A c ops ?st" using Cons.prems(2) by (simp add: eo)
    show "int (length (log_of (view (e_store ?st)) d)) + int (length ops) \<le> max_i64" for d
      using step [of d] Cons.prems(3) [of d] by simp
  qed
  then show ?case using step [of d] by (auto simp: eo extends_def)
qed simp

text \<open>
  A snapshot that is the newest and covers the whole log is what an engine exports that
  does not have the document in its cache.
\<close>

lemma restart_export:
  assumes laws: "automerge_laws A content changes" and inv: "inv s" and ff: "fault_free (dbe e)"
    and b: "snaps_of (view s) d q = Some (crdt_Save A y)" "\<forall>k \<in> dom (snaps_of (view s) d). k \<le> q"
    and log: "int (length (log_of (view s) d)) \<le> q" and est: "e_store est = s" "e_docs est d = None"
  shows "\<exists>b st' x. Export S A e d est = (Inr b, st') \<and> crdt_Load A b = Inr x \<and> content x = content y"
proof -
  obtain y' where y': "am_Save A y \<noteq> []" "crdt_Load A (am_Save A y) = Inr y'" "content y' = content y"
    by (rule laws_Load_Save [OF laws])
  obtain x where x: "am_Save A y' \<noteq> []" "crdt_Load A (am_Save A y') = Inr x" "content x = content y'"
    by (rule laws_Load_Save [OF laws])
  obtain st k where st: "GetSnapshot S (dbe e) d s = Inr (st, k)"
    using snapshot_live [OF inv ff, of d] snapshot_none [OF inv, of "dbe e" d] b(1) by auto
  then have "snaps_of (view s) d k = Some st" "q \<le> k" using snapshot_ok [OF inv st] b(1) by auto
  moreover from this have "k = q" using b(2) by force
  ultimately have k: "k = q" "st = am_Save A y" using b(1) by (simp_all add: crdt_Save_def)
  obtain ops where ops: "GetOpsSince S (dbe e) d q s = Inr ops" using since_live [OF inv ff] by blast
  have "ops = []" using since_drop [OF inv ops] log by simp
  then have "loadDoc S A e d s = Inr y'"
    using st k ops y' by (simp add: loadDoc_def Rehydrate_def)
  then have "Export S A e d est = (Inr (am_Save A y'), est\<lparr>e_docs := (e_docs est)(d \<mapsto> y')\<rparr>)"
    by (simp add: Export_def state_def est crdt_Save_def)
  with x y'(3) show ?thesis by (intro exI conjI) (assumption, assumption, simp)
qed

text \<open>Likewise for a snapshot just stored with the number of the last operation.\<close>

lemma saved_export:
  assumes laws: "automerge_laws A content changes" and inv: "inv s"
    and sn: "\<forall>k \<in> dom (snaps_of (view s) d). k \<le> int (length (log_of (view s) d))"
    and save: "SaveSnapshot S e d (crdt_Save A y) (int (length (log_of (view s) d))) s = (Inr (), s')"
    and ff: "fault_free (dbe e')" and est: "e_store est = s'" "e_docs est d = None"
  shows "\<exists>b st' x. Export S A e' d est = (Inr b, st') \<and> crdt_Load A b = Inr x \<and> content x = content y"
proof -
  from save_ok [OF inv save] have s': "inv s'"
    "view s' = spec_save_snapshot d (crdt_Save A y) (int (length (log_of (view s) d))) (view s)" by auto
  show ?thesis
  proof (rule restart_export [OF laws s'(1) ff])
    show "snaps_of (view s') d (int (length (log_of (view s) d))) = Some (crdt_Save A y)" by (simp add: s'(2))
    show "\<forall>k \<in> dom (snaps_of (view s') d). k \<le> int (length (log_of (view s) d))" using sn by (auto simp: s'(2))
    show "int (length (log_of (view s') d)) \<le> int (length (log_of (view s) d))" by (simp add: s'(2))
  qed (fact est)+
qed

lemma snaps_ok_le: "snaps_ok ex A content changes v \<Longrightarrow> k \<in> dom (snaps_of v d) \<Longrightarrow> k \<le> int (length (log_of v d))"
  by (auto simp: snaps_ok_def)

end

section \<open>The document a submit works on\<close>

text \<open>
  The payloads applied one after the other, the document that the latest snapshot and the
  log after it describe, and the document an engine works on: the cached one, or that one
  when the document is not cached.
\<close>

fun apply_all :: "'d automerge \<Rightarrow> bytes list \<Rightarrow> 'd \<Rightarrow> 'd option" where
  "apply_all A [] x = Some x"
| "apply_all A (p # ps) x = (case crdt_Apply A x p of (None, y) \<Rightarrow> apply_all A ps y | (Some _, _) \<Rightarrow> None)"

definition rebuilt :: "'d automerge \<Rightarrow> view \<Rightarrow> string \<Rightarrow> 'd \<Rightarrow> bool" where
  "rebuilt A v d x \<longleftrightarrow>
     (if snaps_of v d = Map.empty then apply_all A (map op_Payload (log_of v d)) (am_New A) = Some x
      else \<exists>k b y. snaps_of v d k = Some b \<and> (\<forall>k' \<in> dom (snaps_of v d). k' \<le> k) \<and> crdt_Load A b = Inr y
        \<and> apply_all A (map op_Payload (filter (\<lambda>o'. k < op_Seq o') (log_of v d))) y = Some x)"

definition works_on :: "'d automerge \<Rightarrow> view \<Rightarrow> (string \<rightharpoonup> 'd) \<Rightarrow> string \<Rightarrow> 'd \<Rightarrow> bool" where
  "works_on A v docs d x \<longleftrightarrow> (case docs d of Some y \<Rightarrow> x = y | None \<Rightarrow> rebuilt A v d x)"

text \<open>An operation with this number is due for a periodic snapshot.\<close>

definition due :: "Engine \<Rightarrow> int \<Rightarrow> bool" where
  "due c q \<longleftrightarrow> 0 < e_snapshotEvery c \<and> go_rem q (e_snapshotEvery c) = 0"

lemma replay_apply_all: "apply_all A ps x = Some y \<Longrightarrow> replay_ops A i ps x = Inr y"
  by (induction ps arbitrary: i x) (auto split: prod.splits option.splits)

context store
begin

lemma load_rebuilt:
  assumes inv: "inv s" and ff: "fault_free (dbe e)" and sn: "\<And>k b. snaps_of (view s) d k = Some b \<Longrightarrow> b \<noteq> []"
    and x: "rebuilt A (view s) d x"
  shows "loadDoc S A e d s = Inr x"
proof (cases "snaps_of (view s) d = Map.empty")
  case True
  then have "GetSnapshot S (dbe e) d s = Inl ErrNoSnapshot"
    using snapshot_live [OF inv ff, of d] snapshot_ok [OF inv, of "dbe e" d] by fastforce
  moreover obtain ops where ops: "GetOpsSince S (dbe e) d 0 s = Inr ops" using since_live [OF inv ff] by blast
  moreover have "ops = log_of (view s) d" using since_drop [OF inv ops] by simp
  ultimately show ?thesis
    using x True by (simp add: rebuilt_def loadDoc_def Rehydrate_def crdt_New_def replay_apply_all)
next
  case False
  with x obtain k b y where k: "snaps_of (view s) d k = Some b" "\<forall>k' \<in> dom (snaps_of (view s) d). k' \<le> k"
    "crdt_Load A b = Inr y" "apply_all A (map op_Payload (filter (\<lambda>o'. k < op_Seq o') (log_of (view s) d))) y = Some x"
    by (auto simp: rebuilt_def)
  obtain b' k' where b': "GetSnapshot S (dbe e) d s = Inr (b', k')"
    using snapshot_live [OF inv ff, of d] snapshot_none [OF inv, of "dbe e" d] False by auto
  from snapshot_ok [OF inv b'] have "snaps_of (view s) d k' = Some b'" "k \<le> k'" using k(1) by auto
  moreover from this have "k' = k" using k(2) by force
  ultimately have eq: "k' = k" "b' = b" using k(1) by simp_all
  obtain ops where ops: "GetOpsSince S (dbe e) d k s = Inr ops" using since_live [OF inv ff] by blast
  show ?thesis
    using b' eq ops since [OF inv ops] k sn [OF k(1)] by (simp add: loadDoc_def Rehydrate_def replay_apply_all)
qed

text \<open>Without faults a payload that the library accepts on that document is committed.\<close>

lemma submit_live:
  assumes ok: "eng_ok ex A content changes st" and c: "e_resolver c = None"
    and n: "int (length (log_of (view (e_store st)) d)) < max_i64" and ff: "fault_free (dbe e)"
    and d: "d \<noteq> []" and p: "p \<noteq> []" and x: "works_on A (view (e_store st)) (e_docs st) d x"
    and y: "fst (crdt_Apply A x p) = None"
  shows "\<exists>st' fx. Submit S A c e d u uid p st = (Inr (int (length (log_of (view (e_store st)) d)) + 1), st', fx)"
proof -
  have inv: "inv (e_store st)" using ok by (simp add: eng_ok_def)
  have "b \<noteq> []" if "snaps_of (view (e_store st)) d k = Some b" for k b
    using ok snaps_okD [OF _ that] by (auto simp: eng_ok_def)
  then have "\<exists>st1. state S A e d st = (Inr x, st1) \<and> e_store st1 = e_store st"
    using x load_rebuilt [OF inv ff, of d A x] by (auto simp: works_on_def state_def split: option.splits)
  then obtain st1 where st1: "state S A e d st = (Inr x, st1)" "e_store st1 = e_store st" by blast
  obtain y where y: "crdt_Apply A x p = (None, y)" using y by (metis prod.collapse)
  obtain q s where s: "AppendOp S (dbe e) d p u (e_store st) = (Inr q, s)" using append_live [OF inv ff n] by blast
  have "q = int (length (log_of (view (e_store st)) d)) + 1" using append_ok [OF inv n s] by simp
  then show ?thesis
    using d p st1 y s by (simp add: Submit_def applyChange_def c set_doc_def Let_def)
qed

text \<open>The one error of a submit that comes after the change was applied.\<close>

lemma submit_append_err:
  assumes c: "e_resolver c = None" and sub: "Submit S A c e d u uid p st = (Inl (Wrap ''append op: '' err []), st', fx)"
  shows "\<exists>x st1 y s. state S A e d st = (Inr x, st1) \<and> crdt_Apply A x p = (None, y)
     \<and> AppendOp S (dbe e) d p u (e_store st1) = (Inl err, s) \<and> st' = \<lparr>e_store = s, e_docs = (e_docs st1)(d \<mapsto> y)\<rparr>"
proof -
  have guard: "d \<noteq> []" "p \<noteq> []" using sub by (auto simp: Submit_def split: if_splits)
  have replay: "replay_ops A i ps x \<noteq> Inl (Wrap ''append op: '' err [])" for i ps x
    by (induction ps arbitrary: i x) (auto split: prod.splits option.splits)
  have "loadDoc S A e d s \<noteq> Inl (Wrap ''append op: '' err [])" for s
    using replay by (auto simp: loadDoc_def Rehydrate_def crdt_Load_def bindE_def split: sum.splits if_splits prod.splits)
  then have "fst (state S A e d st) \<noteq> Inl (Wrap ''append op: '' err [])"
    by (auto simp: state_def split: option.splits sum.splits)
  then obtain x st1 where x: "state S A e d st = (Inr x, st1)"
    using sub guard by (cases "state S A e d st") (auto simp: Submit_def split: sum.splits)
  obtain r y where y: "crdt_Apply A x p = (r, y)" by fastforce
  have "r \<noteq> Some (Wrap ''append op: '' err [])" using y by (auto simp: crdt_Apply_def split: prod.splits option.splits)
  then have r: "r = None" using sub guard x y by (cases r) (auto simp: Submit_def applyChange_def c)
  obtain r3 s where s: "AppendOp S (dbe e) d p u (e_store st1) = (r3, s)" by fastforce
  have "r3 = Inl err \<and> st' = \<lparr>e_store = s, e_docs = (e_docs st1)(d \<mapsto> y)\<rparr>"
    using sub guard x y r s by (cases r3) (auto simp: Submit_def applyChange_def c set_doc_def Let_def)
  with x y r s show ?thesis by blast
qed

text \<open>
  What a successful submit does to the store: the append, and a snapshot of the new document
  when its number is due. No assumption on the cache: it may lack changes of the log.
\<close>

lemma submit_success:
  assumes "Submit S A c e d u uid p st = (Inr q, st', fx)"
  shows "\<exists>s y. AppendOp S (dbe e) d p u (e_store st) = (Inr q, s) \<and> e_docs st' d = Some y
     \<and> e_store st' = (if due c q then snd (SaveSnapshot S (dbe e) d (crdt_Save A y) q s) else s)
     \<and> (e_resolver c = None \<longrightarrow> (\<forall>x. e_docs st d = Some x \<longrightarrow> crdt_Apply A x p = (None, y)))"
proof -
  have guard: "d \<noteq> []" "p \<noteq> []" using assms by (auto simp: Submit_def split: if_splits)
  obtain r1 st1 where s1: "state S A e d st = (r1, st1)" by fastforce
  then obtain x where x: "r1 = Inr x" using assms guard by (cases r1) (auto simp: Submit_def)
  have st1: "e_store st1 = e_store st" "\<And>z. e_docs st d = Some z \<Longrightarrow> x = z"
    using s1 x by (auto simp: state_def split: option.splits sum.splits)
  obtain r2 y fx2 where y: "applyChange A c e d x p = (r2, y, fx2)" by (metis prod_cases3)
  obtain r3 s where s: "AppendOp S (dbe e) d p u (e_store st) = (r3, s)" by fastforce
  have "r2 = None \<and> r3 = Inr q \<and> e_docs st' d = Some y
      \<and> e_store st' = (if due c q then snd (SaveSnapshot S (dbe e) d (crdt_Save A y) q s) else s)"
    using assms guard s1 x st1(1) y s by (cases r2; cases r3) (auto simp: Submit_def set_doc_def due_def Let_def)
  with s y st1(2) show ?thesis by (auto simp: applyChange_def split: prod.splits)
qed

lemma snaps_le_append:
  assumes "\<forall>k \<in> dom (snaps_of v d). k \<le> int (length (log_of v d))" "v' = spec_append d p u t v"
  shows "\<forall>k \<in> dom (snaps_of v' d). k \<le> int (length (log_of v' d))"
proof
  fix k assume "k \<in> dom (snaps_of v' d)"
  then have "k \<le> int (length (log_of v d))" using assms by (simp del: domIff)
  then show "k \<le> int (length (log_of v' d))" by (simp add: assms(2))
qed

lemma submit_snaps_le:
  assumes inv: "inv (e_store st)" and n: "int (length (log_of (view (e_store st)) d)) < max_i64"
    and le: "\<forall>k \<in> dom (snaps_of (view (e_store st)) d). k \<le> int (length (log_of (view (e_store st)) d))"
    and sub: "Submit S A c e d u uid p st = (Inr q, st', fx)"
  shows "inv (e_store st') \<and> q = int (length (log_of (view (e_store st)) d)) + 1
     \<and> (\<exists>t. log_of (view (e_store st')) d = log_of (view (e_store st)) d @
          [\<lparr>op_Seq = q, op_DocID = d, op_SessionID = u, op_Payload = p, op_CreatedAt = t\<rparr>])
     \<and> (\<forall>k \<in> dom (snaps_of (view (e_store st')) d). k \<le> int (length (log_of (view (e_store st')) d)))"
proof -
  obtain s y where s: "AppendOp S (dbe e) d p u (e_store st) = (Inr q, s)"
    "e_store st' = (if due c q then snd (SaveSnapshot S (dbe e) d (crdt_Save A y) q s) else s)"
    using submit_success [OF sub] by blast
  from append_ok [OF inv n s(1)] obtain t where t: "inv s" "q = int (length (log_of (view (e_store st)) d)) + 1"
    "view s = spec_append d p u t (view (e_store st))" by blast
  obtain r s2 where r: "SaveSnapshot S (dbe e) d (crdt_Save A y) q s = (r, s2)" by fastforce
  have "inv (e_store st') \<and> (view (e_store st') = view s \<or> view (e_store st') = spec_save_snapshot d (crdt_Save A y) q (view s))"
    using s(2) save_cases [OF t(1) r] t(1) by (auto simp: r)
  moreover have "q = int (length (log_of (view s) d))" using t(2,3) by simp
  ultimately show ?thesis
    using t snaps_le_append [OF le t(3)] by (auto simp del: domIff split: if_splits)
qed

text \<open>
  A submit whose snapshot is due replaces what a reload reads by the cached document and the
  change, whatever the log holds.
\<close>

lemma due_export:
  assumes laws: "automerge_laws A content changes" and c: "e_resolver c = None" and inv: "inv (e_store st)"
    and n: "int (length (log_of (view (e_store st)) d)) < max_i64"
    and le: "\<forall>k \<in> dom (snaps_of (view (e_store st)) d). k \<le> int (length (log_of (view (e_store st)) d))"
    and x: "e_docs st d = Some x" and sub: "Submit S A c e d u uid p st = (Inr q, st', fx)"
    and due: "due c q" and ff: "fault_free (dbe e)" "fault_free (dbe e')"
    and est: "e_store est = e_store st'" "e_docs est d = None"
  shows "\<exists>b st'' z. Export S A e' d est = (Inr b, st'') \<and> crdt_Load A b = Inr z \<and> content z = content x \<union> changes p"
proof -
  obtain s y where s: "AppendOp S (dbe e) d p u (e_store st) = (Inr q, s)"
    "e_store st' = snd (SaveSnapshot S (dbe e) d (crdt_Save A y) q s)" "crdt_Apply A x p = (None, y)"
    using submit_success [OF sub] due c x by auto
  from append_ok [OF inv n s(1)] obtain t where t: "inv s" "q = int (length (log_of (view (e_store st)) d)) + 1"
    "view s = spec_append d p u t (view (e_store st))" by blast
  have q: "q = int (length (log_of (view s) d))" "d \<in> dom (view s)" using t(2,3) by simp_all
  obtain s' where s': "SaveSnapshot S (dbe e) d (crdt_Save A y) q s = (Inr (), s')"
    using save_live [OF t(1) ff(1) q(2)] by blast
  from saved_export [OF laws t(1) snaps_le_append [OF le t(3)] s' [unfolded q(1)] ff(2) _ est(2)] s(2) s' est(1) show ?thesis
    using laws_Apply_ok [OF laws s(3)] by simp
qed

text \<open>Whatever the snapshot policy, a commit changes the stored log only by its own operation.\<close>

lemma snap_step:
  assumes "inv s" "s' = s \<or> s' = snd (SaveSnapshot S e d b q s)"
  shows "log_of (view s') d' = log_of (view s) d'"
    and "d' \<noteq> d \<or> q' \<noteq> q \<Longrightarrow> snaps_of (view s') d' q' = snaps_of (view s) d' q'"
proof -
  obtain r s1 where r: "SaveSnapshot S e d b q s = (r, s1)" by fastforce
  from save_cases [OF assms(1) r] assms(2)
  show "log_of (view s') d' = log_of (view s) d'"
    "d' \<noteq> d \<or> q' \<noteq> q \<Longrightarrow> snaps_of (view s') d' q' = snaps_of (view s) d' q'" by (auto simp: r)
qed

end

end
