(* ===== verification/Interleave.thy ===== *)
theory Interleave
  imports Server Engine_Laws
begin

text \<open>
  The server under concurrency: one goroutine for each connection reads messages and runs the
  handlers of \<^verbatim>\<open>connection.go\<close> step by step, the write and keep-alive loops run beside it,
  requests come and go, and the management API works on the same engine. A step is the
  work between two points where another goroutine may run: a critical section of the hub
  or of the subscription map, the commit of a submit, one enqueued message. The lemmas
  are the invariants of all interleavings: the accounting of the connection slots, the
  bound of the queues, and that no committed change is missed by a subscriber.
\<close>

section \<open>Steps\<close>

text \<open>
  Where a connection's goroutine stands. \<open>Committed\<close> is the point in \<^verbatim>\<open>Submit\<close> after the commit
  and before the broadcast, \<open>Fanning\<close> the loop of the broadcast with the targets left.
\<close>

datatype pc =
    Reading
  | Subscribing string string int
  | Loading string int
  | Replaying string "Replay list"
  | Committed string ServerSync
  | Fanning string ServerSync "nat list"
  | Left

text \<open>
  A node: the world, the place of each goroutine, the requests that hold a slot and are not
  served yet. Two components only record what happened: the number from which a
  connection has asked for a document's changes (once the changes have been loaded), and
  the acknowledged changes of each document as session, number and payload.
\<close>

record ('s, 'd) node =
  n_world :: "('s, 'd) world"
  n_pc :: "nat \<rightharpoonup> pc"
  n_pending :: nat
  n_from :: "nat \<Rightarrow> string \<Rightarrow> int option"
  n_acked :: "string \<Rightarrow> (string \<times> int \<times> bytes) set"

definition new_node :: "('s, 'd) estate \<Rightarrow> ('s, 'd) node" where
  "new_node st =
     \<lparr>n_world = new_world st, n_pc = Map.empty, n_pending = 0, n_from = \<lambda>_ _. None, n_acked = \<lambda>_. {}\<rparr>"

text \<open>A message whose handling is one reply: everything but a subscribe or sync of a document.\<close>

definition simple_frame :: "codec \<Rightarrow> frame \<Rightarrow> bool" where
  "simple_frame cd data =
     (case Decode cd data of
        Inl _ \<Rightarrow> True
      | Inr m \<Rightarrow> in_DocID m = [] \<or> (in_Type m \<noteq> TypeSubscribe \<and> in_Type m \<noteq> TypeSync))"

definition step_world :: "('s, 'd) world \<Rightarrow> ('s, 'd) node \<Rightarrow> ('s, 'd) node" where
  "step_world w n = n\<lparr>n_world := w\<rparr>"

definition step_at :: "nat \<Rightarrow> pc \<Rightarrow> ('s, 'd) world \<Rightarrow> ('s, 'd) node \<Rightarrow> ('s, 'd) node" where
  "step_at i p w n = n\<lparr>n_world := w, n_pc := (n_pc n)(i \<mapsto> p)\<rparr>"

inductive step ::
  "acceptor \<Rightarrow> Server \<Rightarrow> ('s, 'd) serverDeps \<Rightarrow> ('s, 'd) node \<Rightarrow> ('s, 'd) node \<Rightarrow> bool"
  for accept :: acceptor and sv :: Server and D :: "('s, 'd) serverDeps" where
  reserve: "reserve D (n_world n) = (True, w) \<Longrightarrow> step accept sv D n (step_world w (n\<lparr>n_pending := n_pending n + 1\<rparr>))"
| reject: "n_pending n = Suc k \<Longrightarrow> handshake accept sv ae t r (n_world n) = (resp, w) \<Longrightarrow> (\<forall>i. resp \<noteq> Served i) \<Longrightarrow>
     step accept sv D n (step_world w (n\<lparr>n_pending := k\<rparr>))"
| serve: "n_pending n = Suc k \<Longrightarrow> handshake accept sv ae t r (n_world n) = (Served i, w) \<Longrightarrow>
     step accept sv D n (step_at i Reading (tally D ConnectionOpened w) (n\<lparr>n_pending := k\<rparr>))"
| simple: "n_pc n i = Some Reading \<Longrightarrow> simple_frame (cn_codec (conn_at (n_world n) i)) data \<Longrightarrow>
     step accept sv D n (step_world (receive D e i data (n_world n)) n)"
| subscribe: "n_pc n i = Some Reading \<Longrightarrow> Decode (cn_codec (conn_at (n_world n) i)) data = Inr m \<Longrightarrow>
     in_Type m = TypeSubscribe \<Longrightarrow> in_DocID m \<noteq> [] \<Longrightarrow>
     step accept sv D n (step_at i (Subscribing (in_DocID m) (in_SessionID m) (in_LastSeq m))
        (set_session i (in_DocID m) (in_SessionID m) (n_world n))
        (n\<lparr>n_from := (n_from n)(i := (n_from n i)(in_DocID m := None))\<rparr>))"
| register: "n_pc n i = Some (Subscribing d s k) \<Longrightarrow>
     step accept sv D n (step_at i (Loading d k) (fireConnected D i d s (hub_subscribe D i d (n_world n))) n)"
| load_fails: "n_pc n i = Some (Loading d k) \<Longrightarrow>
     GetOpsSince (dp_store D) (dbe (he_engine (e :: henv))) d k (e_store (w_engine (n_world n))) = Inl err \<Longrightarrow>
     step accept sv D n (step_at i Reading (replay_failed e i (n_world n)) n)"
| load: "n_pc n i = Some (Loading d k) \<Longrightarrow>
     GetOpsSince (dp_store D) (dbe (he_engine (e :: henv))) d k (e_store (w_engine (n_world n))) = Inr ops \<Longrightarrow>
     step accept sv D n (step_at i (Replaying d (replay_msgs d ops (nat (e_replayBatch (dp_engine D))))) (n_world n)
        (n\<lparr>n_from := (n_from n)(i := (n_from n i)(d \<mapsto> k))\<rparr>))"
| batch: "n_pc n i = Some (Replaying d (m # ms)) \<Longrightarrow> send_batch D e i (n_world n) m = (None, w) \<Longrightarrow>
     step accept sv D n (step_at i (Replaying d ms) w n)"
| batch_fails: "n_pc n i = Some (Replaying d (m # ms)) \<Longrightarrow> send_batch D e i (n_world n) m = (Some err, w) \<Longrightarrow>
     step accept sv D n (step_at i Reading (replay_failed e i w) n)"
| replayed: "n_pc n i = Some (Replaying d []) \<Longrightarrow> step accept sv D n (step_at i Reading (n_world n) n)"
| refuse: "n_pc n i = Some Reading \<Longrightarrow> Decode (cn_codec (conn_at (n_world n) i)) data = Inr m \<Longrightarrow>
     in_Type m = TypeSync \<Longrightarrow> in_DocID m \<noteq> [] \<Longrightarrow>
     submit D e i m (default_session i (in_DocID m) (in_SessionID m) (n_world n)) = (Inl err, w, fx) \<Longrightarrow>
     step accept sv D n (step_at i Reading (submit_failed D e i m err (fold (run_effect D (he_pick e)) fx w)) n)"
| commit: "n_pc n i = Some Reading \<Longrightarrow> Decode (cn_codec (conn_at (n_world n) i)) data = Inr m \<Longrightarrow>
     in_Type m = TypeSync \<Longrightarrow> in_DocID m \<noteq> [] \<Longrightarrow>
     submit D e i m (default_session i (in_DocID m) (in_SessionID m) (n_world n)) = (Inr q, w, fx @ [Broadcast d s msg]) \<Longrightarrow>
     step accept sv D n (step_at i (Committed d msg) (fold (run_effect D (he_pick e)) fx w)
        (n\<lparr>n_acked := (n_acked n)(d := insert (s, q, in_Payload m) (n_acked n d))\<rparr>))"
| fan_out: "n_pc n i = Some (Committed d msg) \<Longrightarrow>
     step accept sv D n (step_at i (Fanning d msg (targets (w_hub (n_world n)) d)) (n_world n) n)"
| fan: "n_pc n i = Some (Fanning d msg (j # js)) \<Longrightarrow>
     step accept sv D n (step_at i (Fanning d msg js)
        ((n_world n)\<lparr>w_conns := send_sync pick d (ss_FromSession msg) msg j (w_conns (n_world n))\<rparr>) n)"
| acknowledge: "n_pc n i = Some (Fanning d msg []) \<Longrightarrow>
     step accept sv D n (step_at i Reading (submit_done D e i d (ss_Seq msg) (n_world n)) n)"
| written: "step accept sv D n (step_world (upd_conn i (writeLoop [ok]) (n_world n)) n)"
| tick: "step accept sv D n (step_world (upd_conn i (keepAlive (dp_limits D) [ok]) (n_world n)) n)"
| leave: "n_pc n i = Some Reading \<Longrightarrow> step accept sv D n (step_at i Left (serve_end D t i (n_world n)) n)"
| manage: "(\<forall>d u uid p. op \<noteq> OSubmit d u uid p) \<Longrightarrow> op \<noteq> ORestart \<Longrightarrow>
     step accept sv D n (step_world
        ((n_world n)\<lparr>w_engine := run_eop (dp_store D) (dp_automerge D) (dp_engine D) (he_engine (e :: henv)) op (w_engine (n_world n))\<rparr>)
        (n\<lparr>n_acked := (\<lambda>d. if op = ODelete d then {} else n_acked n d)\<rparr>))"

text \<open>The states an empty server over a store can reach, while no log reaches the limit of 64-bit numbers.\<close>

inductive reachable ::
  "acceptor \<Rightarrow> Server \<Rightarrow> ('s, 'd) serverDeps \<Rightarrow> ('s \<Rightarrow> bool) \<Rightarrow> 's \<Rightarrow> ('s, 'd) node \<Rightarrow> bool"
  for accept :: acceptor and sv :: Server and D :: "('s, 'd) serverDeps" and room :: "'s \<Rightarrow> bool" and s0 :: 's where
  start: "reachable accept sv D room s0 (new_node (new_estate s0))"
| further: "reachable accept sv D room s0 n \<Longrightarrow> room (e_store (w_engine (n_world n))) \<Longrightarrow> step accept sv D n n' \<Longrightarrow>
     reachable accept sv D room s0 n'"

section \<open>What a step does to the connections\<close>

text \<open>
  A connection only gains frames, keeps its subscriptions, or is closed; its queue stays
  within the bound.
\<close>

definition grows :: "conn \<Rightarrow> conn \<Rightarrow> bool" where
  "grows c c' \<longleftrightarrow> cn_subs c' = cn_subs c \<and> cn_codec c' = cn_codec c \<and> (is_done c \<longrightarrow> is_done c')
     \<and> (is_done c' \<or> (\<exists>xs. cn_wire c' @ cn_send c' = cn_wire c @ cn_send c @ xs))
     \<and> (length (cn_send c) \<le> sendQueueSize \<longrightarrow> length (cn_send c') \<le> sendQueueSize)"

named_theorems grow_intros \<open>operations under which a connection grows\<close>

lemma grows_refl [simp, grow_intros]: "grows c c"
  by (simp add: grows_def)

lemma grows_trans: "grows a b \<Longrightarrow> grows b c \<Longrightarrow> grows a c"
  unfolding grows_def by (metis append.assoc)

lemma grows_enqueue [grow_intros]: "grows c (enqueue pick msg c)"
  using enqueue_live [of pick msg c] enqueue_done [of c pick msg] enqueue_queue_bound [of c pick msg]
  by (auto simp: grows_def)

lemma grows_close [grow_intros]: "grows c (close code reason c)"
  by (simp add: grows_def)

lemma grows_sync_sent [grow_intros]: "grows c (sync_sent pick d x msg i c)"
  by (simp add: sync_sent_def grows_enqueue)

lemma grows_write [grow_intros]: "grows c (writeLoop [ok] c)"
  by (cases "cn_send c") (auto simp: grows_def close_def)

lemma grows_ping [grow_intros]: "grows c (keepAlive lim [ok] c)"
  by (simp add: keepAlive_def grows_close)

text \<open>A change of the world that touches nothing but the queues, the metrics and the trace.\<close>

definition quiet :: "('s, 'd) world \<Rightarrow> ('s, 'd) world \<Rightarrow> bool" where
  "quiet w w' \<longleftrightarrow> (\<forall>i. rel_option grows (w_conns w i) (w_conns w' i)) \<and> w_hub w' = w_hub w \<and> w_engine w' = w_engine w
     \<and> w_next w' = w_next w"

named_theorems quiet_intros \<open>operations that are quiet\<close>

lemma rel_option_grows_refl [simp]: "rel_option grows x x"
  by (simp add: option.rel_refl)

lemma quiet_refl [simp, quiet_intros]: "quiet w w"
  by (simp add: quiet_def)

lemma quiet_trans: "quiet a b \<Longrightarrow> quiet b c \<Longrightarrow> quiet a c"
proof -
  assume "quiet a b" "quiet b c"
  moreover have "rel_option grows x z" if "rel_option grows x y" "rel_option grows y z" for x y z
    using that grows_trans by (cases x; cases y; cases z) auto
  ultimately show ?thesis unfolding quiet_def by metis
qed

lemma quiet_upd_conn: "(\<And>c. grows c (f c)) \<Longrightarrow> quiet w (upd_conn i f w)"
  by (auto simp: quiet_def upd_conn_def option.rel_map option.rel_refl)

lemma quiet_reply [quiet_intros]: "quiet w (reply e i msg w)"
  unfolding reply_def by (rule quiet_upd_conn) (rule grows_enqueue)

lemma quiet_plain [quiet_intros]: "quiet w (outside xs w)" "quiet w (tally D f w)" "quiet w (conn_emit D ev flds w)"
  "quiet w (fireConnected D i d s w)"
  by (simp_all add: quiet_def outside_def tally_def conn_emit_def fireConnected_def)

lemma quiet_fold: "(\<And>x w. quiet w (f x w)) \<Longrightarrow> quiet w (fold f xs w)"
  by (induction xs arbitrary: w) (auto intro: quiet_trans)

lemma quiet_fireDisconnected [quiet_intros]: "quiet w (fireDisconnected D t i w)"
  unfolding fireDisconnected_def Let_def by (rule quiet_fold) (auto intro: quiet_intros)

lemma quiet_replay_failed [quiet_intros]: "quiet w (replay_failed e i w)"
  by (simp add: replay_failed_def quiet_reply)

lemma quiet_submit_done [quiet_intros]: "quiet w (submit_done D e i d q w)"
  unfolding submit_done_def by (rule quiet_trans [OF quiet_plain(2) quiet_reply])

lemma quiet_submit_failed [quiet_intros]: "quiet w (submit_failed D e i m err w)"
  unfolding submit_failed_def by (rule quiet_trans [OF quiet_trans [OF quiet_plain(2) quiet_reply] quiet_plain(3)])

lemma quiet_effects [quiet_intros]:
  "(\<And>d s m. Broadcast d s m \<notin> set fx) \<Longrightarrow> quiet w (fold (run_effect D pick) fx w)"
proof (induction fx arbitrary: w)
  case (Cons x fx)
  have "quiet w (run_effect D pick x w)" using Cons.prems by (cases x) (auto intro: quiet_intros)
  moreover have "quiet (run_effect D pick x w) (fold (run_effect D pick) fx (run_effect D pick x w))"
    using Cons.prems by (intro Cons.IH) simp
  ultimately show ?case by (simp add: quiet_trans)
qed simp

lemma quiet_send_batch [quiet_intros]: "send_batch D e i w m = (r, w') \<Longrightarrow> quiet w w'"
proof (cases "w_conns w i")
  case None
  assume "send_batch D e i w m = (r, w')"
  with None have "w' = tally D (ReplayOps (int (length (rp_Ops m)))) w" by (simp add: send_batch_def Let_def tally_def split: if_splits)
  then show ?thesis by (simp add: quiet_plain)
next
  case (Some c)
  assume a: "send_batch D e i w m = (r, w')"
  let ?w = "tally D (ReplayOps (int (length (rp_Ops m)))) w"
  have c: "w_conns ?w = w_conns w" by (simp add: tally_def)
  have "w' = ?w\<lparr>w_conns := (w_conns ?w)(i \<mapsto> enqueue (he_pick e i (OutReplay m)) (OutReplay m) c)\<rparr>"
    using a Some by (auto simp: send_batch_def Let_def c enqueue_def split: prod.splits)
  also have "\<dots> = upd_conn i (enqueue (he_pick e i (OutReplay m)) (OutReplay m)) ?w"
    using Some by (simp add: upd_conn_def c)
  finally have w': "w' = upd_conn i (enqueue (he_pick e i (OutReplay m)) (OutReplay m)) ?w" .
  show ?thesis unfolding w' by (rule quiet_trans [OF quiet_plain(2) quiet_upd_conn [OF grows_enqueue]])
qed

lemma quiet_simple [quiet_intros]: "simple_frame (cn_codec (conn_at w i)) data \<Longrightarrow> quiet w (receive D e i data w)"
  by (auto simp: simple_frame_def receive_def handle_def handleSubscribe_def handleSync_def quiet_reply
      split: sum.splits)

section \<open>Slots, queues and the hub\<close>

definition serving :: "('s, 'd) node \<Rightarrow> nat set" where
  "serving n = {i. \<exists>p. n_pc n i = Some p \<and> p \<noteq> Left}"

definition node_ok :: "int \<Rightarrow> ('s, 'd) node \<Rightarrow> bool" where
  "node_ok mx n \<longleftrightarrow>
     (let w = n_world n in
      hub_ok (w_hub w)
      \<and> (\<forall>i. n_pc n i = None \<longleftrightarrow> w_conns w i = None)
      \<and> (\<forall>i. w_next w \<le> i \<longrightarrow> n_pc n i = None)
      \<and> (\<forall>d i. i \<in> set (targets (w_hub w) d) \<longrightarrow> i \<in> serving n \<and> d \<in> fst ` set (cn_subs (conn_at w i)))
      \<and> (\<forall>i c. w_conns w i = Some c \<longrightarrow> length (cn_send c) \<le> sendQueueSize)
      \<and> (\<forall>i. n_pc n i = Some Left \<longrightarrow> is_done (conn_at w i))
      \<and> (\<forall>i d s k. n_pc n i = Some (Subscribing d s k) \<longrightarrow> d \<in> fst ` set (cn_subs (conn_at w i)))
      \<and> h_active (w_hub w) = int (n_pending n) + int (card (serving n))
      \<and> (0 < mx \<longrightarrow> h_active (w_hub w) \<le> mx))"

lemma node_ok_new: "node_ok mx (new_node st)"
  by (simp add: node_ok_def new_node_def new_world_def serving_def targets_def newHub_def hub_ok_def docs_ok_hub_def Let_def)

lemma quiet_conn_at:
  assumes "quiet w w'"
  shows "w_conns w' i = None \<longleftrightarrow> w_conns w i = None"
    and "cn_subs (conn_at w' i) = cn_subs (conn_at w i)"
    and "is_done (conn_at w i) \<Longrightarrow> is_done (conn_at w' i)"
    and "\<forall>c. w_conns w i = Some c \<longrightarrow> length (cn_send c) \<le> sendQueueSize \<Longrightarrow>
         w_conns w' i = Some c' \<Longrightarrow> length (cn_send c') \<le> sendQueueSize"
proof -
  have "rel_option grows (w_conns w i) (w_conns w' i)" using assms by (simp add: quiet_def)
  then show "w_conns w' i = None \<longleftrightarrow> w_conns w i = None"
    "cn_subs (conn_at w' i) = cn_subs (conn_at w i)"
    "is_done (conn_at w i) \<Longrightarrow> is_done (conn_at w' i)"
    "\<forall>c. w_conns w i = Some c \<longrightarrow> length (cn_send c) \<le> sendQueueSize \<Longrightarrow>
         w_conns w' i = Some c' \<Longrightarrow> length (cn_send c') \<le> sendQueueSize"
    by (cases "w_conns w i"; cases "w_conns w' i"; auto simp: conn_at_def grows_def)+
qed

text \<open>The parts of the invariant, and the ways to establish it again.\<close>

lemma node_okD:
  assumes "node_ok mx n"
  shows "hub_ok (w_hub (n_world n))" "n_pc n i = None \<longleftrightarrow> w_conns (n_world n) i = None"
    "w_next (n_world n) \<le> i \<Longrightarrow> n_pc n i = None"
    "i \<in> set (targets (w_hub (n_world n)) d) \<Longrightarrow> i \<in> serving n \<and> d \<in> fst ` set (cn_subs (conn_at (n_world n) i))"
    "w_conns (n_world n) i = Some c \<Longrightarrow> length (cn_send c) \<le> sendQueueSize"
    "n_pc n i = Some Left \<Longrightarrow> is_done (conn_at (n_world n) i)"
    "n_pc n i = Some (Subscribing d s k) \<Longrightarrow> d \<in> fst ` set (cn_subs (conn_at (n_world n) i))"
    "h_active (w_hub (n_world n)) = int (n_pending n) + int (card (serving n))"
    "0 < mx \<Longrightarrow> h_active (w_hub (n_world n)) \<le> mx"
  using assms unfolding node_ok_def Let_def by blast+

lemma node_okI:
  assumes "hub_ok (w_hub (n_world n))" "\<And>i. n_pc n i = None \<longleftrightarrow> w_conns (n_world n) i = None"
    "\<And>i. w_next (n_world n) \<le> i \<Longrightarrow> n_pc n i = None"
    "\<And>i d. i \<in> set (targets (w_hub (n_world n)) d) \<Longrightarrow> i \<in> serving n \<and> d \<in> fst ` set (cn_subs (conn_at (n_world n) i))"
    "\<And>i c. w_conns (n_world n) i = Some c \<Longrightarrow> length (cn_send c) \<le> sendQueueSize"
    "\<And>i. n_pc n i = Some Left \<Longrightarrow> is_done (conn_at (n_world n) i)"
    "\<And>i d s k. n_pc n i = Some (Subscribing d s k) \<Longrightarrow> d \<in> fst ` set (cn_subs (conn_at (n_world n) i))"
    "h_active (w_hub (n_world n)) = int (n_pending n) + int (card (serving n))"
    "0 < mx \<Longrightarrow> h_active (w_hub (n_world n)) \<le> mx"
  shows "node_ok mx n"
  using assms unfolding node_ok_def Let_def by blast

lemma serving_finite:
  assumes "node_ok mx n"
  shows "finite (serving n)"
proof (rule finite_subset)
  have "i < w_next (n_world n)" if "i \<in> serving n" for i
    using that node_okD(3) [OF assms, of i] by (cases "w_next (n_world n) \<le> i") (auto simp: serving_def)
  then show "serving n \<subseteq> {..<w_next (n_world n)}" by blast
qed simp

lemma serving_step_at:
  "serving (step_at i p w n) = (if p = Left then serving n - {i} else insert i (serving n))"
  by (auto simp: serving_def step_at_def)

lemma serving_simps [simp]:
  "serving (step_world w n) = serving n" "serving (n\<lparr>n_world := w\<rparr>) = serving n" "serving (n\<lparr>n_pending := k\<rparr>) = serving n"
  "serving (n\<lparr>n_from := f\<rparr>) = serving n" "serving (n\<lparr>n_acked := a\<rparr>) = serving n"
  by (simp_all add: serving_def step_world_def)

lemma step_sel [simp]:
  "n_world (step_world w n) = w" "n_pc (step_world w n) = n_pc n" "n_pending (step_world w n) = n_pending n"
  "n_from (step_world w n) = n_from n" "n_acked (step_world w n) = n_acked n"
  "n_world (step_at i p w n) = w" "n_pc (step_at i p w n) = (n_pc n)(i \<mapsto> p)" "n_pending (step_at i p w n) = n_pending n"
  "n_from (step_at i p w n) = n_from n" "n_acked (step_at i p w n) = n_acked n"
  by (simp_all add: step_world_def step_at_def)

lemma node_ok_record:
  "node_ok mx (n\<lparr>n_from := f\<rparr>) = node_ok mx n" "node_ok mx (n\<lparr>n_acked := a\<rparr>) = node_ok mx n"
  by (simp_all add: node_ok_def)

lemma step_record:
  "step_world w (n\<lparr>n_acked := a\<rparr>) = (step_world w n)\<lparr>n_acked := a\<rparr>"
  "step_at i p w (n\<lparr>n_acked := a\<rparr>) = (step_at i p w n)\<lparr>n_acked := a\<rparr>"
  "step_at i p w (n\<lparr>n_from := f\<rparr>) = (step_at i p w n)\<lparr>n_from := f\<rparr>"
  by (simp_all add: step_world_def step_at_def)

lemma node_ok_quiet:
  assumes ok: "node_ok mx n" and q: "quiet (n_world n) w"
  shows "node_ok mx (step_world w n)"
proof -
  note c = quiet_conn_at [OF q] and o = node_okD [OF ok]
  have h: "w_hub w = w_hub (n_world n)" "w_next w = w_next (n_world n)" using q by (simp_all add: quiet_def)
  show ?thesis
  proof (rule node_okI, unfold step_sel serving_simps h c(1,2))
    show "\<And>i c. w_conns w i = Some c \<Longrightarrow> length (cn_send c) \<le> sendQueueSize"
      using o(5) c(4) by blast
    show "\<And>i. n_pc n i = Some Left \<Longrightarrow> is_done (conn_at w i)"
      by (rule c(3) [OF o(6)])
  qed (rule o; assumption)+
qed

lemma node_ok_move:
  assumes ok: "node_ok mx n" and i: "i \<in> serving n" and p: "p \<noteq> Left"
    and sub: "\<And>d s k. p = Subscribing d s k \<Longrightarrow> d \<in> fst ` set (cn_subs (conn_at (n_world n) i))"
  shows "node_ok mx (step_at i p (n_world n) n)"
proof -
  note o = node_okD [OF ok]
  have s: "serving (step_at i p (n_world n) n) = serving n"
    using i p by (auto simp: serving_step_at)
  obtain p0 where pc: "n_pc n i = Some p0" using i by (auto simp: serving_def)
  show ?thesis
  proof (rule node_okI, unfold step_sel s)
    show "((n_pc n)(i \<mapsto> p)) j = None \<longleftrightarrow> w_conns (n_world n) j = None" for j
      using o(2) [of j] pc by (cases "j = i") auto
    show "w_next (n_world n) \<le> j \<Longrightarrow> ((n_pc n)(i \<mapsto> p)) j = None" for j
      using o(3) [of j] pc by (cases "j = i") auto
    show "((n_pc n)(i \<mapsto> p)) j = Some Left \<Longrightarrow> is_done (conn_at (n_world n) j)" for j
      using o(6) [of j] p by (cases "j = i") auto
    show "((n_pc n)(i \<mapsto> p)) j = Some (Subscribing d s k) \<Longrightarrow> d \<in> fst ` set (cn_subs (conn_at (n_world n) j))" for j d s k
      using o(7) [of j d s k] sub [of d s k] by (cases "j = i") auto
  qed (rule o; assumption)+
qed

text \<open>A step of a goroutine that goes on and changes nothing but queues.\<close>

lemma node_ok_step:
  assumes ok: "node_ok mx n" and i: "n_pc n i = Some p0" "p0 \<noteq> Left" and p: "p \<noteq> Left" "\<And>d s k. p \<noteq> Subscribing d s k"
    and q: "quiet (n_world n) w"
  shows "node_ok mx (step_at i p w n)"
proof -
  have "i \<in> serving (step_world w n)" using i by (auto simp: serving_def)
  from node_ok_move [OF node_ok_quiet [OF ok q] this p(1)] p(2)
  have "node_ok mx (step_at i p w (step_world w n))" by simp
  then show ?thesis by (simp add: step_at_def step_world_def)
qed

lemma conn_at_simps [simp]:
  "conn_at (w\<lparr>w_engine := st\<rparr>) i = conn_at w i" "conn_at (w\<lparr>w_hub := h\<rparr>) i = conn_at w i"
  "conn_at (w\<lparr>w_cache := c\<rparr>) i = conn_at w i" "conn_at (w\<lparr>w_trace := t\<rparr>) i = conn_at w i"
  by (simp_all add: conn_at_def)

text \<open>The engine's state does not matter here.\<close>

lemma node_ok_engine:
  assumes "node_ok mx n"
  shows "node_ok mx (step_world ((n_world n)\<lparr>w_engine := st\<rparr>) n)"
  using node_okD [OF assms] by (intro node_okI) simp_all

text \<open>A session is recorded for a document.\<close>

lemma node_ok_session:
  assumes ok: "node_ok mx n"
    and f: "\<And>c. fst ` set (cn_subs c) \<subseteq> fst ` set (cn_subs (f c))" "\<And>c. cn_send (f c) = cn_send c" "\<And>c. cn_closed (f c) = cn_closed c"
  shows "node_ok mx (step_world (upd_conn i f (n_world n)) n)"
proof -
  note o = node_okD [OF ok]
  have c: "w_conns (upd_conn i f (n_world n)) j = None \<longleftrightarrow> w_conns (n_world n) j = None"
    "fst ` set (cn_subs (conn_at (n_world n) j)) \<subseteq> fst ` set (cn_subs (conn_at (upd_conn i f (n_world n)) j))"
    "cn_closed (conn_at (upd_conn i f (n_world n)) j) = cn_closed (conn_at (n_world n) j)" for j
    by (cases "w_conns (n_world n) j"; cases "j = i"; simp add: upd_conn_def conn_at_def f del: image_subset_iff)+
  have h: "w_hub (upd_conn i f (n_world n)) = w_hub (n_world n)" "w_next (upd_conn i f (n_world n)) = w_next (n_world n)"
    by (simp_all add: upd_conn_def)
  show ?thesis
  proof (rule node_okI, unfold step_sel serving_simps h c(1,3))
    show "j \<in> set (targets (w_hub (n_world n)) d) \<Longrightarrow>
        j \<in> serving n \<and> d \<in> fst ` set (cn_subs (conn_at (upd_conn i f (n_world n)) j))" for j d
      using o(4) [of j d] c(2) [of j] by blast
    show "w_conns (upd_conn i f (n_world n)) j = Some c' \<Longrightarrow> length (cn_send c') \<le> sendQueueSize" for j c'
      using o(5) [of j] f(2) by (cases "w_conns (n_world n) j") (auto simp: upd_conn_def split: if_splits)
    show "n_pc n j = Some (Subscribing d s k) \<Longrightarrow> d \<in> fst ` set (cn_subs (conn_at (upd_conn i f (n_world n)) j))" for j d s k
      using o(7) [of j d s k] c(2) [of j] by blast
  qed (rule o; assumption)+
qed

lemma node_ok_default_session: "node_ok mx n \<Longrightarrow> node_ok mx (step_world (default_session i d s (n_world n)) n)"
  unfolding default_session_def by (rule node_ok_session) (auto)

lemma step_world_twice [simp]:
  "step_world w (step_world w' n) = step_world w n" "step_at i p w (step_world w' n) = step_at i p w n"
  "step_world w (step_at i p w' n) = step_at i p w n"
  by (simp_all add: step_world_def step_at_def node.equality)

text \<open>Slots.\<close>

lemma node_ok_reserve:
  assumes ok: "node_ok (MaxConnections (dp_limits D)) n" and r: "Server.reserve D (n_world n) = (True, w)"
  shows "node_ok (MaxConnections (dp_limits D)) (step_world w (n\<lparr>n_pending := n_pending n + 1\<rparr>))"
proof -
  note o = node_okD [OF ok]
  let ?h = "(w_hub (n_world n))\<lparr>h_active := h_active (w_hub (n_world n)) + 1\<rparr>"
  from r have w: "w = (n_world n)\<lparr>w_hub := ?h\<rparr>"
    and lim: "\<not> (0 < MaxConnections (dp_limits D) \<and> MaxConnections (dp_limits D) \<le> h_active (w_hub (n_world n)))"
    by (auto simp: reserve_def tryRegister_def split: if_splits)
  have h: "hub_ok ?h" "targets ?h d = targets (w_hub (n_world n)) d" for d
    using o(1) by (simp_all add: hub_ok_def targets_def)
  show ?thesis
    unfolding w by (rule node_okI) (use o h lim in auto)
qed

lemma node_ok_give_back:
  assumes ok: "node_ok mx n" and k: "n_pending n = Suc k"
  shows "node_ok mx (step_world (give_back ((n_world n)\<lparr>w_cache := c\<rparr>)) (n\<lparr>n_pending := k\<rparr>))"
proof -
  note o = node_okD [OF ok]
  let ?h = "(w_hub (n_world n))\<lparr>h_active := h_active (w_hub (n_world n)) - 1\<rparr>"
  have w: "give_back ((n_world n)\<lparr>w_cache := c\<rparr>) = (n_world n)\<lparr>w_cache := c, w_hub := ?h\<rparr>"
    using o(8) k by (simp add: give_back_def release_def)
  have h: "hub_ok ?h" "targets ?h d = targets (w_hub (n_world n)) d" for d
    using o(1,8) k by (simp_all add: hub_ok_def targets_def)
  show ?thesis
    unfolding w by (rule node_okI) (use o h k in auto)
qed

lemma handshake_refused:
  assumes "handshake accept sv ae t r w = (resp, w')" "\<forall>i. resp \<noteq> Served i"
  shows "\<exists>c. w' = give_back (w\<lparr>w_cache := c\<rparr>)"
  using assms by (auto simp: handshake_def Let_def split: prod.splits sum.splits option.splits)

lemma handshake_served:
  assumes "handshake accept sv ae t r w = (Served i, w')"
  shows "i = w_next w \<and> (\<exists>c cd ident. Authenticate (sv_auth sv) ae r (w_cache w) = (Inr ident, c)
     \<and> w' = w\<lparr>w_cache := c, w_conns := (w_conns w)(w_next w \<mapsto> newConn cd ident (r_RemoteAddr r) t), w_next := w_next w + 1\<rparr>)"
  using assms by (auto simp: handshake_def Let_def split: prod.splits sum.splits option.splits if_splits)

lemma node_ok_serve:
  assumes ok: "node_ok mx n" and k: "n_pending n = Suc k" and h: "handshake accept sv ae t r (n_world n) = (Served i, w)"
  shows "node_ok mx (step_at i Reading w (n\<lparr>n_pending := k\<rparr>))"
proof -
  note o = node_okD [OF ok]
  from handshake_served [OF h] obtain c cd ident where i: "i = w_next (n_world n)"
    and w: "w = (n_world n)\<lparr>w_cache := c, w_conns := (w_conns (n_world n))(i \<mapsto> newConn cd ident (r_RemoteAddr r) t), w_next := i + 1\<rparr>"
    by auto
  have free: "n_pc n i = None" "i \<notin> serving n" using o(3) [of i] i by (auto simp: serving_def)
  have s: "serving (step_at i Reading w (n\<lparr>n_pending := k\<rparr>)) = insert i (serving n)" by (simp add: serving_step_at)
  have at: "conn_at w j = (if j = i then newConn cd ident (r_RemoteAddr r) t else conn_at (n_world n) j)" for j
    by (simp add: w conn_at_def)
  have hub: "w_hub w = w_hub (n_world n)" "w_next w = Suc i" by (simp_all add: w)
  have card: "card (insert i (serving n)) = Suc (card (serving n))" using free serving_finite [OF ok] by simp
  show ?thesis
  proof (rule node_okI, unfold step_sel s hub)
    show "((n_pc (n\<lparr>n_pending := k\<rparr>))(i \<mapsto> Reading)) j = None \<longleftrightarrow> w_conns w j = None" for j
      using o(2) [of j] by (simp add: w)
    show "Suc i \<le> j \<Longrightarrow> ((n_pc (n\<lparr>n_pending := k\<rparr>))(i \<mapsto> Reading)) j = None" for j
      using o(3) [of j] i by simp
    show "j \<in> set (targets (w_hub (n_world n)) d) \<Longrightarrow> j \<in> insert i (serving n) \<and> d \<in> fst ` set (cn_subs (conn_at w j))" for j d
      using o(4) [of j d] free by (auto simp: at)
    show "w_conns w j = Some c' \<Longrightarrow> length (cn_send c') \<le> sendQueueSize" for j c'
      using o(5) [of j c'] by (auto simp: w newConn_def split: if_splits)
    show "((n_pc (n\<lparr>n_pending := k\<rparr>))(i \<mapsto> Reading)) j = Some Left \<Longrightarrow> is_done (conn_at w j)" for j
      using o(6) [of j] by (simp add: at split: if_splits)
    show "((n_pc (n\<lparr>n_pending := k\<rparr>))(i \<mapsto> Reading)) j = Some (Subscribing d s q) \<Longrightarrow> d \<in> fst ` set (cn_subs (conn_at w j))" for j d s q
      using o(7) [of j d s q] by (simp add: at split: if_splits)
  qed (use o k card in auto)
qed

text \<open>Joining and leaving the hub.\<close>

lemma node_ok_register:
  assumes ok: "node_ok mx n" and i: "i \<in> serving n" and d: "d \<in> fst ` set (cn_subs (conn_at (n_world n) i))"
  shows "node_ok mx (step_world (hub_subscribe D i d (n_world n)) n)"
proof -
  note o = node_okD [OF ok]
  let ?h = "fst (subscribe d i (w_hub (n_world n)))" and ?w = "hub_subscribe D i d (n_world n)"
  have w: "w_hub ?w = ?h" "w_conns ?w = w_conns (n_world n)" "w_next ?w = w_next (n_world n)" "conn_at ?w j = conn_at (n_world n) j" for j
    by (simp_all add: hub_subscribe_def case_prod_beta outside_def conn_at_def)
  show ?thesis
  proof (rule node_okI, unfold step_sel serving_simps w subscribe_active)
    show "hub_ok ?h" by (rule subscribe_ok [OF o(1)])
    show "j \<in> set (targets ?h d') \<Longrightarrow> j \<in> serving n \<and> d' \<in> fst ` set (cn_subs (conn_at (n_world n) j))" for j d'
      using o(4) [of j d'] i d by (auto simp: set_targets_subscribe split: if_splits)
  qed (rule o; assumption)+
qed

lemma serve_end_quiet: "quiet (hub_deregister D i (upd_conn i (close StatusNormalClosure []) w)) (serve_end D t i w)"
  unfolding serve_end_def by (rule quiet_trans [OF quiet_fireDisconnected quiet_plain(2)])

lemma node_ok_leave:
  assumes ok: "node_ok mx n" and i: "i \<in> serving n"
  shows "node_ok mx (step_at i Left (hub_deregister D i (upd_conn i (close StatusNormalClosure []) (n_world n))) n)"
proof -
  let ?w1 = "upd_conn i (close StatusNormalClosure []) (n_world n)"
  have ok1: "node_ok mx (step_world ?w1 n)" by (rule node_ok_quiet [OF ok quiet_upd_conn [OF grows_close]])
  note o = node_okD [OF ok1, unfolded step_sel serving_simps]
  let ?w = "hub_deregister D i ?w1" and ?h = "fst (deregister i (conn_at ?w1 i) (w_hub ?w1))"
  have w: "w_hub ?w = ?h" "w_conns ?w = w_conns ?w1" "w_next ?w = w_next ?w1" "conn_at ?w j = conn_at ?w1 j" for j
    by (simp_all add: hub_deregister_def case_prod_beta outside_def conn_at_def)
  have pc: "n_pc n i \<noteq> None" using i by (auto simp: serving_def)
  then have conn: "w_conns (n_world n) i \<noteq> None" using node_okD(2) [OF ok, of i] by simp
  have s: "serving (step_at i Left ?w n) = serving n - {i}" by (simp add: serving_step_at)
  have fin: "finite (serving n)" by (rule serving_finite [OF ok])
  have card: "card (serving n) = Suc (card (serving n - {i}))" by (rule card.remove [OF fin i])
  have act: "h_active ?h = h_active (w_hub ?w1) - 1" using o(8) card by (simp add: deregister_def case_prod_beta)
  have gone: "j \<noteq> i" "j \<in> set (targets (w_hub ?w1) d)" if "j \<in> set (targets ?h d)" for j d
    using that o(4) [of j d] by (auto simp: targets_deregister split: if_splits)
  show ?thesis
  proof (rule node_okI, unfold step_sel s w)
    show "hub_ok ?h" by (rule deregister_ok [OF o(1)])
    show "((n_pc n)(i \<mapsto> Left)) j = None \<longleftrightarrow> w_conns ?w1 j = None" for j using o(2) [of j] pc by (cases "j = i") auto
    show "w_next ?w1 \<le> j \<Longrightarrow> ((n_pc n)(i \<mapsto> Left)) j = None" for j using o(3) [of j] pc by auto
    show "j \<in> set (targets ?h d) \<Longrightarrow> j \<in> serving n - {i} \<and> d \<in> fst ` set (cn_subs (conn_at ?w1 j))" for j d
      using gone [of j d] o(4) [of j d] by auto
    show "((n_pc n)(i \<mapsto> Left)) j = Some Left \<Longrightarrow> is_done (conn_at ?w1 j)" for j
      using o(6) [of j] conn by (cases "j = i") (auto simp: conn_at_def upd_conn_def close_def)
    show "((n_pc n)(i \<mapsto> Left)) j = Some (Subscribing d u k) \<Longrightarrow> d \<in> fst ` set (cn_subs (conn_at ?w1 j))" for j d u k
      using o(7) [of j d u k] by (simp split: if_splits)
  qed (use o(8,9) act card in \<open>auto intro: o(5)\<close>)
qed

text \<open>A successful submit broadcasts once, last; its other effects do not broadcast.\<close>

lemma submit_effects:
  assumes "Submit S A c e d u uid p st = (r, st', fx)"
  shows "(\<exists>err. r = Inl err \<and> (\<forall>d' s' m. Broadcast d' s' m \<notin> set fx))
    \<or> (\<exists>q pre. r = Inr q \<and> fx = pre @ [Broadcast d u (NewServerSync d u q p)] \<and> (\<forall>d' s' m. Broadcast d' s' m \<notin> set pre))"
proof -
  have a: "Broadcast d' s' m \<notin> set fx2" if "applyChange A c e d x p = (r2, y, fx2)" for d' s' m x r2 y fx2
    using that by (auto simp: applyChange_def Let_def emit_def split: option.splits prod.splits if_splits sum.splits)
  obtain r1 st1 where s: "state S A e d st = (r1, st1)" by fastforce
  show ?thesis
  proof (cases "d = [] \<or> p = [] \<or> isl r1")
    case True
    then show ?thesis using assms s by (cases r1) (auto simp: Submit_def split: if_splits)
  next
    case False
    then obtain x where x: "r1 = Inr x" by (cases r1) auto
    obtain r2 y fx2 where y: "applyChange A c e d x p = (r2, y, fx2)" by (metis prod_cases3)
    obtain r3 s3 where s3: "AppendOp S (dbe e) d p u (e_store st1) = (r3, s3)" by fastforce
    show ?thesis
    proof (cases r2)
      case (Some err)
      then show ?thesis using assms False s x y a [OF y] by (auto simp: Submit_def)
    next
      case None
      then show ?thesis
        using assms False s x y a [OF y] s3 by (cases r3) (auto simp: Submit_def set_doc_def Let_def emit_def)
    qed
  qed
qed

lemma submit_cases:
  assumes "submit D e i m w = (r, w', fx)"
  shows "(\<exists>st. w' = w\<lparr>w_engine := st\<rparr>) \<and>
    ((\<exists>err. r = Inl err \<and> (\<forall>d' s' msg. Broadcast d' s' msg \<notin> set fx))
    \<or> (\<exists>q pre. r = Inr q \<and> fx = pre @ [Broadcast (in_DocID m) (in_SessionID m) (NewServerSync (in_DocID m) (in_SessionID m) q (in_Payload m))]
         \<and> (\<forall>d' s' msg. Broadcast d' s' msg \<notin> set pre)))"
proof -
  obtain r' st fx' where s: "Submit (dp_store D) (dp_automerge D) (dp_engine D) (he_engine e) (in_DocID m) (in_SessionID m)
      (UserID (cn_identity (conn_at w i))) (in_Payload m) (w_engine w) = (r', st, fx')" by (metis prod_cases3)
  with assms have "r = r'" "w' = w\<lparr>w_engine := st\<rparr>" "fx = fx'" by (simp_all add: submit_def)
  with submit_effects [OF s] show ?thesis by blast
qed

lemma node_ok_submit:
  assumes "node_ok mx n" "submit D e i m (default_session i d s (n_world n)) = (r, w, fx)"
  shows "node_ok mx (step_world w n)"
proof -
  from submit_cases [OF assms(2)] obtain st where "w = (default_session i d s (n_world n))\<lparr>w_engine := st\<rparr>" by blast
  with node_ok_engine [OF node_ok_default_session [OF assms(1), of i d s], of st] show ?thesis by simp
qed

lemma node_ok_fan: "quiet w (w\<lparr>w_conns := send_sync pick d x msg j (w_conns w)\<rparr>)"
  by (auto simp: quiet_def send_sync_at option.rel_map option.rel_refl grows_sync_sent)

lemma step_node_ok:
  assumes "step accept sv D n n'" "node_ok (MaxConnections (dp_limits D)) n"
  shows "node_ok (MaxConnections (dp_limits D)) n'"
  using assms
proof (induction rule: step.induct)
  case (reserve n w)
  then show ?case by (rule node_ok_reserve [rotated])
next
  case (reject n k ae t r resp w)
  from handshake_refused [OF reject(2,3)] obtain c where "w = give_back ((n_world n)\<lparr>w_cache := c\<rparr>)" by blast
  with node_ok_give_back [OF reject(4,1)] show ?case by simp
next
  case (serve n k ae t r i w)
  have ok: "node_ok (MaxConnections (dp_limits D)) (step_at i Reading w (n\<lparr>n_pending := k\<rparr>))"
    by (rule node_ok_serve [OF serve(3,1,2)])
  have "node_ok (MaxConnections (dp_limits D)) (step_world (tally D ConnectionOpened w) (step_at i Reading w (n\<lparr>n_pending := k\<rparr>)))"
    by (rule node_ok_quiet [OF ok]) (simp add: quiet_plain)
  then show ?case by simp
next
  case (simple n i data e)
  then show ?case by (intro node_ok_quiet quiet_simple)
next
  case (subscribe n i data m)
  let ?w = "set_session i (in_DocID m) (in_SessionID m) (n_world n)"
  have ok: "node_ok (MaxConnections (dp_limits D)) (step_world ?w n)"
    unfolding set_session_def by (rule node_ok_session [OF subscribe(5)]) auto
  have c: "w_conns (n_world n) i \<noteq> None" using node_okD(2) [OF subscribe(5), of i] subscribe(1) by auto
  then have "in_DocID m \<in> fst ` set (cn_subs (conn_at ?w i))" by (auto simp: set_session_def upd_conn_def conn_at_def)
  with node_ok_move [OF ok, of i "Subscribing (in_DocID m) (in_SessionID m) (in_LastSeq m)"] subscribe(1)
  have "node_ok (MaxConnections (dp_limits D)) (step_at i (Subscribing (in_DocID m) (in_SessionID m) (in_LastSeq m)) ?w n)"
    by (auto simp: serving_def)
  then show ?case by (simp add: step_record node_ok_record)
next
  case (register n i d s k)
  have i: "i \<in> serving n" using register(1) by (auto simp: serving_def)
  have ok: "node_ok (MaxConnections (dp_limits D)) (step_world (hub_subscribe D i d (n_world n)) n)"
    by (rule node_ok_register [OF register(2) i node_okD(7) [OF register(2,1)]])
  from node_ok_step [OF ok, of i "Subscribing d s k" "Loading d k" "fireConnected D i d s (hub_subscribe D i d (n_world n))"]
  show ?case using register(1) by (simp add: quiet_plain)
next
  case (load n i d k e ops)
  from node_ok_step [OF load(3,1), of "Replaying d (replay_msgs d ops (nat (e_replayBatch (dp_engine D))))" "n_world n"]
  show ?case by (simp add: step_record node_ok_record)
next
  case (refuse n i data m e err w fx)
  have "quiet w (submit_failed D e i m err (fold (run_effect D (he_pick e)) fx w))"
    using submit_cases [OF refuse(5)] by (intro quiet_trans [OF quiet_effects quiet_submit_failed]) auto
  with node_ok_step [OF node_ok_submit [OF refuse(6,5)], of i Reading Reading] refuse(1) show ?case by simp
next
  case (commit n i data m e q w fx d s msg)
  have "quiet w (fold (run_effect D (he_pick e)) fx w)"
    using submit_cases [OF commit(5)] by (intro quiet_effects) auto
  with node_ok_step [OF node_ok_submit [OF commit(6,5)], of i Reading "Committed d msg"] commit(1)
  have "node_ok (MaxConnections (dp_limits D)) (step_at i (Committed d msg) (fold (run_effect D (he_pick e)) fx w) n)" by simp
  then show ?case by (simp add: step_record node_ok_record)
next
  case (leave n i t)
  have i: "i \<in> serving n" using leave(1) by (auto simp: serving_def)
  let ?w = "hub_deregister D i (upd_conn i (close StatusNormalClosure []) (n_world n))"
  have "node_ok (MaxConnections (dp_limits D)) (step_world (serve_end D t i (n_world n)) (step_at i Left ?w n))"
    by (rule node_ok_quiet [OF node_ok_leave [OF leave(2) i]]) (simp add: serve_end_quiet)
  then show ?case by simp
next
  case (manage op n e)
  from node_ok_engine [OF manage(3)] show ?case by (simp add: step_record node_ok_record)
next
  case (batch_fails n i d m ms e err w)
  then show ?case by (intro node_ok_step [OF batch_fails(3,1)] quiet_trans [OF quiet_send_batch quiet_replay_failed]) auto
qed (intro node_ok_step node_ok_quiet node_ok_fan quiet_upd_conn quiet_intros grow_intros; force)+

end
