(* ===== verification/Engine_Props.thy ===== *)
theory Engine_Props
  imports Engine_Laws
begin

text \<open>
  What the engine promises over the three backends: acknowledged changes survive
  failures and restarts, exports are exact when nothing failed, what a submit emits and
  broadcasts, the batches of a replay, and two places where the code does not do what it
  means to.
\<close>

section \<open>A concrete Automerge library\<close>

text \<open>
  For the concrete instances below: a document is the list of the payloads it has, each
  a change of its own, concurrent with all others; an empty payload is refused. A saved
  document is a header byte and the payloads, each byte marked by 1 and each payload
  closed by 0.
\<close>

definition enc_payload :: "bytes \<Rightarrow> bytes" where
  "enc_payload p = concat (map (\<lambda>b. [1, b]) p) @ [0]"

fun dec_payloads :: "bytes \<Rightarrow> bytes \<Rightarrow> bytes list \<Rightarrow> bytes list option" where
  "dec_payloads [] cur acc = (if cur = [] then Some (rev acc) else None)"
| "dec_payloads [m] cur acc = (if m = 0 then Some (rev (rev cur # acc)) else None)"
| "dec_payloads (m # b # bs) cur acc =
     (if m = 0 then dec_payloads (b # bs) [] (rev cur # acc) else dec_payloads bs (b # cur) acc)"

definition am_set :: "bytes list automerge" where
  "am_set = \<lparr>am_New = [],
     am_Load = (\<lambda>b. if b \<noteq> [] \<and> hd b = 7 then
         (case dec_payloads (tl b) [] [] of Some ps \<Rightarrow> Inr ps | None \<Rightarrow> Inl (Msg ''bad document'')) else Inl (Msg ''bad header'')),
     am_LoadIncremental = (\<lambda>d p. if p = [] then (Some (Msg ''empty payload''), d)
         else (None, if p \<in> set d then d else d @ [p])),
     am_Save = (\<lambda>d. 7 # concat (map enc_payload d)),
     am_Heads = (\<lambda>d. map hex_EncodeToString d)\<rparr>"

lemma dec_marked: "dec_payloads (concat (map (\<lambda>b. [1, b]) p) @ 0 # bs) cur acc = dec_payloads bs [] (rev (rev p @ cur) # acc)"
proof (induction p arbitrary: cur)
  case Nil
  then show ?case by (cases bs) simp_all
qed simp

lemma dec_enc: "dec_payloads (concat (map enc_payload d)) [] acc = Some (rev acc @ d)"
  by (induction d arbitrary: acc) (simp_all add: enc_payload_def dec_marked)

lemma am_set_laws: "automerge_laws am_set set (\<lambda>p. {p})"
  by (auto simp: automerge_laws_def am_set_def dec_enc split: if_splits)

text \<open>
  An engine with automatic merging and no snapshots, one that snapshots at every second
  operation, and environments for them.
\<close>

definition cfg0 :: Engine where
  "cfg0 = NewEngine \<lparr>o_SnapshotInterval = 0, o_Resolver = None, o_ReplayBatchSize = 0, o_Emitter = True\<rparr>"

definition cfg2 :: Engine where
  "cfg2 = NewEngine \<lparr>o_SnapshotInterval = 2, o_Resolver = None, o_ReplayBatchSize = 0, o_Emitter = True\<rparr>"

definition calm_e :: "int \<Rightarrow> eenv" where
  "calm_e t = \<lparr>dbe = calm t, net = (\<lambda>_. NoReply ContextCanceled), clock = t\<rparr>"

definition disk_full :: eenv where
  "disk_full = (calm_e 5)\<lparr>dbe := (calm 5)\<lparr>at := (\<lambda>k. if k = AtInsertOp then Fails ''disk full'' else Succeeds)\<rparr>\<rparr>"

lemma cfg0_sel [simp]: "e_resolver cfg0 = None" "e_replayBatch cfg0 = 500" "e_snapshotEvery cfg0 = 0"
  by (simp_all add: cfg0_def NewEngine_def defaultReplayBatchSize_def)

lemma cfg2_sel [simp]: "e_resolver cfg2 = None" "e_snapshotEvery cfg2 = 2"
  by (simp_all add: cfg2_def NewEngine_def)

lemma calm_e_fault_free [simp]: "fault_free (dbe (calm_e t))"
  by (simp add: calm_e_def)

text \<open>The history used below: a first change, a restart, a second change, a forced snapshot.\<close>

definition hist :: "(eenv \<times> eop) list" where
  "hist = [(calm_e 1, OSubmit ''doc'' ''s1'' [] [5]), (calm_e 2, ORestart),
     (calm_e 3, OSubmit ''doc'' ''s2'' ''bob'' [6]), (calm_e 4, OSnapshot ''doc''), (calm_e 5, ORestart)]"

section \<open>Durability\<close>

lemma eng_ok_new:
  assumes "backend_ok k"
  shows "store.eng_ok db_inv db_view ex A content changes (new_estate empty_db)"
proof -
  have "log_of (db_view empty_db) d = []" "snaps_of (db_view empty_db) d = Map.empty" for d
    by (simp_all add: adoc_of_def db_view_def doc_ids_def empty_db_def empty_adoc_def)
  then show ?thesis
    by (simp add: store.eng_ok_def [OF backend_store [OF assms]] new_estate_def db_inv_empty snaps_ok_def docs_ok_def)
qed

lemma log_new [simp]: "log_of (db_view empty_db) d = []"
  by (simp add: adoc_of_def db_view_def doc_ids_def empty_db_def empty_adoc_def)

lemma reach_ok:
  assumes "backend_ok k" "automerge_laws A content changes" "e_resolver c = None" "int (length ops) \<le> max_i64"
    and "ex \<Longrightarrow> no_failure (store_of k) A c ops (new_estate empty_db)"
  shows "store.eng_ok db_inv db_view ex A content changes (run_eops (store_of k) A c ops (new_estate empty_db))"
    and "int (length (log_of (db_view (e_store (run_eops (store_of k) A c ops (new_estate empty_db)))) d)) \<le> int (length ops)"
proof -
  have "int (length (log_of (db_view (e_store (new_estate empty_db))) d)) + int (length ops) \<le> max_i64" for d
    using assms(4) by (simp add: new_estate_def)
  from store.run_eops_ok [OF backend_store [OF assms(1)] assms(2,3) eng_ok_new [OF assms(1)] assms(5) this]
  show "store.eng_ok db_inv db_view ex A content changes (run_eops (store_of k) A c ops (new_estate empty_db))"
    "int (length (log_of (db_view (e_store (run_eops (store_of k) A c ops (new_estate empty_db)))) d)) \<le> int (length ops)"
    by (simp_all add: new_estate_def)
qed

lemma reach_weak:
  assumes "backend_ok k" "automerge_laws A content changes" "e_resolver c = None" "int (length ops) \<le> max_i64"
  shows "store.eng_ok db_inv db_view False A content changes (run_eops (store_of k) A c ops (new_estate empty_db))"
    and "int (length (log_of (db_view (e_store (run_eops (store_of k) A c ops (new_estate empty_db)))) d)) \<le> int (length ops)"
  by (rule reach_ok [OF assms], simp)+

text \<open>
  C1: An acknowledged change is never lost. Take any history of engine calls on a fresh
  database, with any database calls failing or losing their replies and any number of
  restarts; if a submit in it returned the number \<open>q\<close>, then after every further history
  that does not delete the document, the log holds that payload at number \<open>q\<close>, and every
  export that succeeds contains its changes. (Automatic merging, one node.)
\<close>

theorem acknowledged_change_survives:
  assumes "backend_ok k" "automerge_laws A content changes" "e_resolver c = None"
    and "int (length before) + 1 + int (length after) \<le> max_i64"
    and "st = run_eops (store_of k) A c before (new_estate empty_db)"
    and "Submit (store_of k) A c e d u uid p st = (Inr q, st1, fx)"
    and "ODelete d \<notin> snd ` set after" "st2 = run_eops (store_of k) A c after st1"
    and "Export (store_of k) A e2 d st2 = (Inr b, st3)"
  shows "(\<exists>t. log_of (db_view (e_store st2)) d ! nat (q - 1) =
        \<lparr>op_Seq = q, op_DocID = d, op_SessionID = u, op_Payload = p, op_CreatedAt = t\<rparr>)
     \<and> (\<exists>x. crdt_Load A b = Inr x \<and> changes p \<subseteq> content x)"
proof -
  note S = backend_store [OF assms(1)]
  have len: "int (length before) \<le> max_i64" using assms(4) by simp
  note st = reach_weak [OF assms(1-3) len, folded assms(5)]
  have n: "int (length (log_of (db_view (e_store st)) d)) < max_i64" for d
    using st(2) [of d] assms(4) by simp
  from store.submit_ok [OF S assms(2) st(1) assms(3) n assms(6)]
  have st1: "store.eng_ok db_inv db_view False A content changes st1"
    "store.submitted db_view d p u (Inr q) (e_store st) (e_store st1)" by simp_all
  then obtain t where t: "q = int (length (log_of (db_view (e_store st)) d)) + 1"
    "log_of (db_view (e_store st1)) d = log_of (db_view (e_store st)) d @
       [\<lparr>op_Seq = q, op_DocID = d, op_SessionID = u, op_Payload = p, op_CreatedAt = t\<rparr>]"
    by (auto simp: store.submitted_def [OF S] Let_def)
  have grown: "int (length (log_of (db_view (e_store st1)) d')) \<le> int (length (log_of (db_view (e_store st)) d')) + 1" for d'
    using store.submitted_extends [OF S st1(2), of d'] by (auto simp: store.extends_def [OF S])
  have "int (length (log_of (db_view (e_store st1)) d')) + int (length after) \<le> max_i64" for d'
    using grown [of d'] st(2) [of d'] assms(4) by linarith
  from store.run_eops_ok [OF S assms(2,3) st1(1) _ this] assms(7,8)
  obtain xs where st2: "store.eng_ok db_inv db_view False A content changes st2"
    "log_of (db_view (e_store st2)) d = log_of (db_view (e_store st1)) d @ xs" by auto
  have "\<exists>x. crdt_Load A b = Inr x \<and> covers False (log_changes changes (db_view (e_store st2)) d) (content x)"
    using store.export_call_ok [OF S assms(2) st2(1) assms(9)] by simp
  moreover have "changes p \<subseteq> log_changes changes (db_view (e_store st2)) d"
    using t(2) st2(2) by (auto simp: log_changes_def)
  ultimately have "\<exists>x. crdt_Load A b = Inr x \<and> changes p \<subseteq> content x" by (auto simp: covers_def)
  moreover have "log_of (db_view (e_store st2)) d ! nat (q - 1) =
      \<lparr>op_Seq = q, op_DocID = d, op_SessionID = u, op_Payload = p, op_CreatedAt = t\<rparr>"
    using t st2(2) by (simp add: nth_append)
  ultimately show ?thesis by blast
qed

theorem acknowledged_change_survives_witness:
  "\<exists>b x. fst (Export (store_of SQLite) am_set (calm_e 9) ''doc''
       (run_eops (store_of SQLite) am_set cfg0 [(disk_full, OSubmit ''doc'' ''s'' [] [7]), (calm_e 8, ORestart)]
         (fst (snd (Submit (store_of SQLite) am_set cfg0 (calm_e 1) ''doc'' ''s1'' [] [5] (new_estate empty_db)))))) = Inr b
     \<and> crdt_Load am_set b = Inr x \<and> [5] \<in> set x"
proof -
  let ?sub = "Submit (store_of SQLite) am_set cfg0 (calm_e 1) ''doc'' ''s1'' [] [5] (new_estate empty_db)"
  let ?ops = "[(disk_full, OSubmit ''doc'' ''s'' [] [7]), (calm_e 8, ORestart)]"
  let ?exp = "Export (store_of SQLite) am_set (calm_e 9) ''doc'' (run_eops (store_of SQLite) am_set cfg0 ?ops (fst (snd ?sub)))"
  have "fst ?sub = Inr 1" by code_simp
  then have sub: "?sub = (Inr 1, fst (snd ?sub), snd (snd ?sub))" by (simp add: prod_eq_iff)
  have f: "fst ?exp = Inr (am_Save am_set [[5]])" by code_simp
  then have exp: "?exp = (Inr (am_Save am_set [[5]]), snd ?exp)" by (simp add: prod_eq_iff)
  have "backend_ok SQLite" by (simp add: backend_ok_def)
  from acknowledged_change_survives [OF this am_set_laws cfg0_sel(1) _ _ sub _ refl exp, of "[]"]
  obtain x where "crdt_Load am_set (am_Save am_set [[5]]) = Inr x" "[5] \<in> set x" by (auto simp: max_i64_def)
  with f show ?thesis by (intro exI conjI)
qed

text \<open>
  C2: Exports are exact when nothing failed. After any history in which no submit and no
  deletion reported an error (snapshots and restarts anywhere), a successful export holds
  exactly the changes of the committed log: reloading a snapshot and the operations after
  it is the same as replaying the whole log. (Automatic merging, no conflict resolver
  configured, one node.)
\<close>

theorem export_exact:
  assumes "backend_ok k" "automerge_laws A content changes" "e_resolver c = None" "int (length ops) \<le> max_i64"
    and "no_failure (store_of k) A c ops (new_estate empty_db)"
    and "st = run_eops (store_of k) A c ops (new_estate empty_db)"
    and "Export (store_of k) A e d st = (Inr b, st')"
  shows "\<exists>x. crdt_Load A b = Inr x \<and> content x = log_changes changes (db_view (e_store st)) d"
proof -
  have "store.eng_ok db_inv db_view True A content changes st"
    using reach_ok(1) [where ex = True, OF assms(1-5)] by (simp add: assms(6))
  from store.export_call_ok [OF backend_store [OF assms(1)] assms(2) this assms(7)]
  show ?thesis by (auto simp: covers_def)
qed

theorem export_exact_witness:
  "\<exists>b x. fst (Export (store_of SQLite) am_set (calm_e 9) ''doc''
       (run_eops (store_of SQLite) am_set cfg0 hist (new_estate empty_db))) = Inr b
     \<and> crdt_Load am_set b = Inr x \<and> set x = {[5], [6]}"
proof -
  let ?st = "run_eops (store_of SQLite) am_set cfg0 hist (new_estate empty_db)"
  have f: "fst (Export (store_of SQLite) am_set (calm_e 9) ''doc'' ?st) = Inr (am_Save am_set [[5], [6]])" by code_simp
  then have exp: "Export (store_of SQLite) am_set (calm_e 9) ''doc'' ?st =
      (Inr (am_Save am_set [[5], [6]]), snd (Export (store_of SQLite) am_set (calm_e 9) ''doc'' ?st))"
    by (simp add: prod_eq_iff)
  have nf: "no_failure (store_of SQLite) am_set cfg0 hist (new_estate empty_db)" by code_simp
  have "map op_Payload (log_of (db_view (e_store ?st)) ''doc'') = [[5], [6]]" by code_simp
  then have "log_changes (\<lambda>p. {p}) (db_view (e_store ?st)) ''doc'' = {[5], [6]}"
    by (auto simp: log_changes_def map_eq_Cons_conv)
  moreover have ok: "backend_ok SQLite" "int (length hist) \<le> max_i64" by (simp_all add: backend_ok_def hist_def max_i64_def)
  ultimately obtain x where "crdt_Load am_set (am_Save am_set [[5], [6]]) = Inr x" "set x = {[5], [6]}"
    using export_exact [OF ok(1) am_set_laws cfg0_sel(1) ok(2) nf refl exp] by auto
  with f show ?thesis by (intro exI conjI)
qed

section \<open>What a submit reports\<close>

definition is_broadcast :: "effect \<Rightarrow> bool" where
  "is_broadcast x = (case x of Broadcast _ _ _ \<Rightarrow> True | _ \<Rightarrow> False)"

definition is_document_event :: "effect \<Rightarrow> bool" where
  "is_document_event x =
     (case x of Emit ev _ \<Rightarrow> ev = eventDocumentCreated \<or> ev = eventDocumentUpdated | _ \<Rightarrow> False)"

lemma apply_quiet:
  "applyChange A c e d x p = (r, y, fx) \<Longrightarrow> z \<in> set fx \<Longrightarrow> \<not> is_broadcast z \<and> \<not> is_document_event z"
  by (auto simp: applyChange_def Let_def emit_def is_broadcast_def is_document_event_def
      eventDocumentCreated_def eventDocumentUpdated_def eventSyncError_def
      split: option.splits prod.splits if_splits sum.splits)

text \<open>
  C4: What the outside learns of a submit is what was committed. On success the call
  broadcasts exactly one message, as its last effect, with the committed number and the
  payload; before it come \<^verbatim>\<open>on_document_updated\<close> and, only for number 1,
  \<^verbatim>\<open>on_document_created\<close>. On an error it broadcasts nothing and emits neither event.
\<close>

theorem submit_reports:
  assumes "Submit S A c e d u uid p st = (r, st', fx)"
  shows "case r of
       Inr q \<Rightarrow> (\<exists>pre. fx = pre
           @ (if q = 1 then emit c eventDocumentCreated [(''doc_id'', JStr d), (''user_id'', nullable uid)] else [])
           @ emit c eventDocumentUpdated [(''doc_id'', JStr d), (''seq'', JInt q), (''user_id'', nullable uid),
               (''session_id'', JStr u)]
           @ [Broadcast d u (NewServerSync d u q p)]
         \<and> (\<forall>z \<in> set pre. \<not> is_broadcast z \<and> \<not> is_document_event z))
     | Inl err \<Rightarrow> (\<forall>z \<in> set fx. \<not> is_broadcast z \<and> \<not> is_document_event z)"
proof -
  obtain r1 st1 where s: "state S A e d st = (r1, st1)" by fastforce
  show ?thesis
  proof (cases "d = [] \<or> p = [] \<or> isl r1")
    case True
    then have "isl r \<and> fx = []" using assms s by (cases r1) (auto simp: Submit_def split: if_splits)
    then show ?thesis by (cases r) simp_all
  next
    case False
    then obtain x where x: "r1 = Inr x" by (cases r1) auto
    obtain r2 y fx2 where y: "applyChange A c e d x p = (r2, y, fx2)" by (metis prod_cases3)
    obtain r3 s3 where s3: "AppendOp S (dbe e) d p u (e_store (set_doc d y st1)) = (r3, s3)" by fastforce
    show ?thesis
      using assms False s x y s3 apply_quiet [OF y]
      by (cases r2; cases r3) (auto simp: Submit_def Let_def)
  qed
qed

theorem submit_reports_witness:
  "\<exists>st' fx pre. Submit sqlite_store am_set cfg0 (calm_e 1) ''doc'' ''s1'' [] [5] (new_estate empty_db) = (Inr 1, st', fx)
     \<and> fx = pre @ [Broadcast ''doc'' ''s1'' (NewServerSync ''doc'' ''s1'' 1 [5])]"
proof -
  let ?sub = "Submit sqlite_store am_set cfg0 (calm_e 1) ''doc'' ''s1'' [] [5] (new_estate empty_db)"
  have "fst ?sub = Inr 1" by code_simp
  then have sub: "?sub = (Inr 1, fst (snd ?sub), snd (snd ?sub))" by (simp add: prod_eq_iff)
  from submit_reports [OF sub] obtain pre where
    "snd (snd ?sub) = pre @ [Broadcast ''doc'' ''s1'' (NewServerSync ''doc'' ''s1'' 1 [5])]" by force
  with sub show ?thesis by blast
qed

text \<open>
  C3: A good change is committed. After any history (with whatever failures) on one node with
  automatic merging, take the document the engine works on: the cached one, or the one
  that the latest snapshot and the log after it rebuild. A submit of a non-empty payload
  that the library accepts on it returns the next number of the document and appends
  exactly that operation to the log, provided no database call fails during it.
\<close>

theorem submit_commits:
  assumes "backend_ok k" "automerge_laws A content changes" "e_resolver c = None"
    and "int (length ops) < max_i64" "st = run_eops (store_of k) A c ops (new_estate empty_db)"
    and "works_on A (db_view (e_store st)) (e_docs st) d x" "fst (crdt_Apply A x p) = None"
    and "fault_free (dbe e)" "d \<noteq> []" "p \<noteq> []" "q = int (length (log_of (db_view (e_store st)) d)) + 1"
  shows "\<exists>st' fx t. Submit (store_of k) A c e d u uid p st = (Inr q, st', fx)
     \<and> log_of (db_view (e_store st')) d = log_of (db_view (e_store st)) d @
         [\<lparr>op_Seq = q, op_DocID = d, op_SessionID = u, op_Payload = p, op_CreatedAt = t\<rparr>]"
proof -
  note S = backend_store [OF assms(1)]
  have len: "int (length ops) \<le> max_i64" using assms(4) by simp
  note st = reach_weak [OF assms(1-3) len, folded assms(5)]
  have n: "int (length (log_of (db_view (e_store st)) d)) < max_i64" using st(2) [of d] assms(4) by simp
  from store.submit_live [OF S st(1) assms(3) n assms(8-10,6,7), of u uid]
  obtain st' fx where sub: "Submit (store_of k) A c e d u uid p st = (Inr q, st', fx)" using assms(11) by auto
  from store.submit_ok [OF S assms(2) st(1) assms(3) n sub]
  have "store.submitted db_view d p u (Inr q) (e_store st) (e_store st')" by simp
  then show ?thesis using sub by (auto simp: store.submitted_def [OF S] Let_def)
qed

theorem submit_commits_witness:
  "\<exists>st' fx. Submit (store_of Postgres) am_set cfg2 (calm_e 9) ''doc'' ''s'' [] [8]
     (run_eops (store_of Postgres) am_set cfg2 [(disk_full, OSubmit ''doc'' ''s'' [] [7]), (calm_e 8, ORestart)]
       (new_estate empty_db)) = (Inr 1, st', fx)"
proof -
  let ?ops = "[(disk_full, OSubmit ''doc'' ''s'' [] [7]), (calm_e 8, ORestart)]"
  let ?st = "run_eops (store_of Postgres) am_set cfg2 ?ops (new_estate empty_db)"
  have "length (log_of (db_view (e_store ?st)) ''doc'') = 0" "e_docs ?st ''doc'' = None" by code_simp+
  moreover have "db_view (e_store ?st) = Map.empty" by (rule ext) code_simp
  ultimately have "works_on am_set (db_view (e_store ?st)) (e_docs ?st) ''doc'' []"
    by (simp add: works_on_def rebuilt_def am_set_def)
  moreover have "fst (crdt_Apply am_set [] [8]) = None" by code_simp
  moreover have "backend_ok Postgres" "int (length ?ops) < max_i64" by (simp_all add: backend_ok_def max_i64_def)
  ultimately show ?thesis
    using submit_commits [OF _ am_set_laws cfg2_sel(1) _ refl _ _ calm_e_fault_free _ _ refl, of Postgres ?ops "''doc''" "[]" "[8]" 9 "''s''" "[]"]
      \<open>length (log_of (db_view (e_store ?st)) ''doc'') = 0\<close> by auto
qed

section \<open>Replay\<close>

text \<open>
  C8: A replay hands over everything that was missed. If no delivery is refused, the messages
  delivered are numbered 1 to the announced total, only the last is marked done, none
  holds more operations than the batch size, and together they hold exactly the
  operations after the client's number, in order; there is always at least one. The bound
  keeps the batch arithmetic inside 64 bits.
\<close>

theorem replay_complete:
  assumes "backend_ok k" "db_inv s" "0 < e_replayBatch c"
    and "int (length (ops_of s d)) + e_replayBatch c \<le> max_i64"
    and "Engine_Replay (store_of k) c e d after (\<lambda>ms m. (None, ms @ [m])) s [] = (None, msgs)"
  shows "concat (map rp_Ops msgs) = map replay_op (filter (\<lambda>x. after < op_Seq x) (log_of (db_view s) d))
     \<and> msgs \<noteq> []
     \<and> (\<forall>i < length msgs. rp_BatchSeq (msgs ! i) = int i + 1 \<and> rp_TotalBatches (msgs ! i) = int (length msgs)
          \<and> (rp_Done (msgs ! i) \<longleftrightarrow> Suc i = length msgs) \<and> rp_DocID (msgs ! i) = d
          \<and> int (length (rp_Ops (msgs ! i))) \<le> e_replayBatch c)"
proof -
  obtain ops where ops: "GetOpsSince (store_of k) (dbe e) d after s = Inr ops"
    using assms(5) by (auto simp: Engine_Replay_def split: sum.splits)
  have log: "ops = filter (\<lambda>x. after < op_Seq x) (log_of (db_view s) d)"
    by (rule store.since [OF backend_store [OF assms(1)] assms(2) ops])
  then have "length ops \<le> length (ops_of s d)" using assms(2) by (metis length_filter_le length_scanOpRows log_db_view)
  then have len: "int (length ops) + e_replayBatch c \<le> max_i64" using assms(4) by simp
  have collect: "deliver_all (\<lambda>ms m. (None, ms @ [m])) ms acc = (None, acc @ ms)" for ms acc :: "Replay list"
    by (induction ms arbitrary: acc) simp_all
  have "Engine_Replay (store_of k) c e d after (\<lambda>ms m. (None, ms @ [m])) s [] =
      deliver_all (\<lambda>ms m. (None, ms @ [m])) (replay_msgs d ops (nat (e_replayBatch c))) []"
    by (rule Engine_Replay_eq [OF assms(3) ops len])
  then have msgs: "msgs = replay_msgs d ops (nat (e_replayBatch c))"
    using assms(5) collect by simp
  let ?tb = "batch_count (nat (e_replayBatch c)) (length ops)"
  have "0 < ?tb" using assms(3) by (intro batch_count_pos) simp
  moreover have "length msgs = ?tb" by (simp add: msgs replay_msgs_def Let_def)
  ultimately show ?thesis
    using assms(3) replay_msgs_ops [of "nat (e_replayBatch c)" d ops]
    by (auto simp: log [symmetric] msgs) (auto simp: replay_msgs_def replay_msg_def NewReplay_def Let_def)
qed

theorem replay_complete_witness:
  "\<exists>msgs. Engine_Replay sqlite_store (cfg0\<lparr>e_replayBatch := 1\<rparr>) (calm_e 9) ''doc'' 0 (\<lambda>ms m. (None, ms @ [m])) db2 [] = (None, msgs)
     \<and> map rp_Done msgs = [False, True] \<and> concat (map rp_Ops msgs) = map replay_op (log_of (db_view db2) ''doc'')"
proof -
  let ?r = "Engine_Replay (store_of SQLite) (cfg0\<lparr>e_replayBatch := 1\<rparr>) (calm_e 9) ''doc'' 0 (\<lambda>ms m. (None, ms @ [m])) db2 []"
  have "fst ?r = None" "map rp_Done (snd ?r) = [False, True]" by code_simp+
  then have r: "?r = (None, snd ?r)" by (simp add: prod_eq_iff)
  have log: "filter (\<lambda>x. 0 < op_Seq x) (log_of (db_view db2) ''doc'') = log_of (db_view db2) ''doc''"
    using filter_numbered [OF db_log_numbered [OF db2_inv], of 0 "''doc''"] by simp
  have "backend_ok SQLite" by (simp add: backend_ok_def)
  from replay_complete [OF this db2_inv _ _ r] log r \<open>map rp_Done (snd ?r) = [False, True]\<close> show ?thesis
    by (auto simp: db2_ops db2_len max_i64_def store_of_def)
qed

section \<open>Where the engine does not do what it means to\<close>

text \<open>
  C26: A change that was refused can still become part of the document. \<^verbatim>\<open>Submit\<close> applies a
  change to the cached document before it commits it; when the commit fails the client
  gets an error and the log does not have the change, but the cached document keeps it.
  After any history without a conflict resolver: if a submit to an existing document fails
  in \<^verbatim>\<open>AppendOp\<close> and leaves the log as it was, then a snapshot forced while no database call
  fails stores the refused change, the log still lacks it, and after a restart every export
  while no database call fails has it.
\<close>

theorem refused_change_persists:
  assumes "backend_ok k" "automerge_laws A content changes" "e_resolver c = None" "int (length ops) < max_i64"
    and "st = run_eops (store_of k) A c ops (new_estate empty_db)" "d \<in> dom (db_view (e_store st))"
    and "Submit (store_of k) A c e d u uid p st = (Inl (Wrap ''append op: '' err []), st1, fx)"
    and "db_view (e_store st1) = db_view (e_store st)" "fault_free (dbe e1)" "fault_free (dbe e2)"
  shows "\<exists>q st2 b st3 x. Snapshot (store_of k) A e1 d st1 = (Inr q, st2)
     \<and> log_of (db_view (e_store st2)) d = log_of (db_view (e_store st)) d
     \<and> Export (store_of k) A e2 d (new_estate (e_store st2)) = (Inr b, st3)
     \<and> crdt_Load A b = Inr x \<and> changes p \<subseteq> content x"
proof -
  note S = backend_store [OF assms(1)]
  have len: "int (length ops) \<le> max_i64" using assms(4) by simp
  note st = reach_weak [OF assms(1-3) len, folded assms(5)]
  obtain x st0 y s where y: "crdt_Apply A x p = (None, y)" "e_docs st1 d = Some y"
    using store.submit_append_err [OF S assms(3,7)] by auto
  have grow: "changes p \<subseteq> content y" using laws_Apply_ok [OF assms(2) y(1)] by simp
  have n: "int (length (log_of (db_view (e_store st)) d)) < max_i64" using st(2) [of d] assms(4) by simp
  from store.submit_ok [OF S assms(2) st(1) assms(3) n assms(7)]
  have ok: "store.eng_ok db_inv db_view False A content changes st1" by simp
  then have inv: "db_inv (e_store st1)" "snaps_ok False A content changes (db_view (e_store st1))"
    by (simp_all add: store.eng_ok_def [OF S])
  let ?q = "int (length (log_of (db_view (e_store st1)) d))"
  obtain q where "GetLatestSeq (store_of k) (dbe e1) d (e_store st1) = Inr q"
    using store.latest_live [OF S inv(1) assms(9)] by blast
  then have q: "GetLatestSeq (store_of k) (dbe e1) d (e_store st1) = Inr ?q"
    using store.latest [OF S inv(1)] by blast
  obtain s' where save: "SaveSnapshot (store_of k) (dbe e1) d (crdt_Save A y) ?q (e_store st1) = (Inr (), s')"
    using store.save_live [OF S inv(1) assms(9)] assms(6,8) by metis
  have snap: "Snapshot (store_of k) A e1 d st1 = (Inr ?q, st1\<lparr>e_store := s'\<rparr>)"
    using y(2) q save by (simp add: Snapshot_def state_def)
  have "\<forall>j \<in> dom (snaps_of (db_view (e_store st1)) d). j \<le> ?q" using store.snaps_ok_le [OF S inv(2)] by blast
  from store.saved_export [OF S assms(2) inv(1) this save assms(10), of "new_estate s'"] obtain b st3 z where
    z: "Export (store_of k) A e2 d (new_estate s') = (Inr b, st3)" "crdt_Load A b = Inr z" "content z = content y"
    by (auto simp: new_estate_def)
  have "log_of (db_view s') d = log_of (db_view (e_store st)) d"
    using store.save_log [OF S inv(1) save, of d] assms(8) by simp
  with snap z grow show ?thesis by (intro exI [of _ ?q] exI [of _ "st1\<lparr>e_store := s'\<rparr>"] exI [of _ b] exI [of _ st3] exI [of _ z]) simp
qed

theorem refused_change_persists_witness:
  "\<exists>q st2 b st3 x.
     Snapshot (store_of SQLite) am_set (calm_e 6) ''doc'' (fst (snd (Submit (store_of SQLite) am_set cfg2 disk_full ''doc'' ''s2'' [] [5]
       (run_eops (store_of SQLite) am_set cfg2 [(calm_e 1, OSubmit ''doc'' ''s1'' [] [4])] (new_estate empty_db))))) = (Inr q, st2)
     \<and> map op_Payload (log_of (db_view (e_store st2)) ''doc'') = [[4]]
     \<and> Export (store_of SQLite) am_set (calm_e 8) ''doc'' (new_estate (e_store st2)) = (Inr b, st3)
     \<and> crdt_Load am_set b = Inr x \<and> [5] \<in> set x"
proof -
  let ?ops = "[(calm_e 1, OSubmit ''doc'' ''s1'' [] [4])]"
  let ?st = "run_eops (store_of SQLite) am_set cfg2 ?ops (new_estate empty_db)"
  let ?sub = "Submit (store_of SQLite) am_set cfg2 disk_full ''doc'' ''s2'' [] [5] ?st"
  have "fst ?sub = Inl (Wrap ''append op: '' (Wrap ''insert operation: '' (drv ''disk full'') []) [])" by code_simp
  then have sub: "?sub = (Inl (Wrap ''append op: '' (Wrap ''insert operation: '' (drv ''disk full'') []) []), fst (snd ?sub), snd (snd ?sub))"
    by (simp add: prod_eq_iff)
  have "e_store (fst (snd ?sub)) = e_store ?st" by code_simp
  then have same: "db_view (e_store (fst (snd ?sub))) = db_view (e_store ?st)" by (simp only:)
  have dom: "''doc'' \<in> dom (db_view (e_store ?st))" unfolding dom_db_view doc_ids_def by code_simp
  have log: "map op_Payload (log_of (db_view (e_store ?st)) ''doc'') = [[4]]" by code_simp
  have ok: "backend_ok SQLite" "int (length ?ops) < max_i64" by (simp_all add: backend_ok_def max_i64_def)
  from refused_change_persists [OF ok(1) am_set_laws cfg2_sel(1) ok(2) refl dom sub same calm_e_fault_free calm_e_fault_free, of 6 8]
  show ?thesis using log by (elim exE conjE) (intro exI conjI; (assumption | simp))
qed

text \<open>What the resolver's reply can change of a submit: the snapshot it stores.\<close>

lemma submit_reply:
  assumes "Submit S A c e d u uid p st = (r, st', fx)" "Submit S A c (e\<lparr>net := reply\<rparr>) d u uid p st = (r', st'', fx')"
  shows "r' = r \<and> filter is_broadcast fx' = filter is_broadcast fx
     \<and> (e_store st'' = e_store st' \<or> (\<exists>q s y y'. r = Inr q \<and> AppendOp S (dbe e) d p u (e_store st) = (Inr q, s)
          \<and> e_store st' = (if due c q then snd (SaveSnapshot S (dbe e) d (crdt_Save A y) q s) else s)
          \<and> e_store st'' = (if due c q then snd (SaveSnapshot S (dbe e) d (crdt_Save A y') q s) else s)))"
proof -
  let ?e = "e\<lparr>net := reply\<rparr>"
  obtain r1 st1 where s: "state S A e d st = (r1, st1)" by fastforce
  have load: "loadDoc S A ?e d = loadDoc S A e d" by (simp add: loadDoc_def fun_eq_iff)
  have s': "state S A ?e d st = (r1, st1)" using s unfolding state_def load .
  have st1: "e_store st1 = e_store st" using s by (auto simp: state_def split: option.splits sum.splits)
  show ?thesis
  proof (cases "d = [] \<or> p = [] \<or> isl r1")
    case True
    then show ?thesis using assms s s' by (cases r1) (auto simp: Submit_def split: if_splits)
  next
    case False
    then obtain x where x: "r1 = Inr x" by (cases r1) auto
    obtain r2 y fx2 where y: "applyChange A c e d x p = (r2, y, fx2)" by (metis prod_cases3)
    obtain r2' y' fx2' where y': "applyChange A c ?e d x p = (r2', y', fx2')" by (metis prod_cases3)
    have r2: "r2' = r2" using y y' by (auto simp: applyChange_def Let_def split: option.splits prod.splits if_splits sum.splits)
    obtain r3 s3 where s3: "AppendOp S (dbe e) d p u (e_store st) = (r3, s3)" by fastforce
    have quiet: "filter is_broadcast fx2 = []" "filter is_broadcast fx2' = []"
      using apply_quiet [OF y] apply_quiet [OF y'] by (auto simp: filter_empty_conv)
    show ?thesis
    proof (cases "r2 = None \<and> \<not> isl r3")
      case True
      then obtain q where q: "r3 = Inr q" by (cases r3) auto
      have "r = Inr q \<and> filter is_broadcast fx = [Broadcast d u (NewServerSync d u q p)]
          \<and> e_store st' = (if due c q then snd (SaveSnapshot S (dbe e) d (crdt_Save A y) q s3) else s3)"
        "r' = Inr q \<and> filter is_broadcast fx' = [Broadcast d u (NewServerSync d u q p)]
          \<and> e_store st'' = (if due c q then snd (SaveSnapshot S (dbe e) d (crdt_Save A y') q s3) else s3)"
        using assms False True s s' st1 x y y' r2 s3 q quiet
        by (auto simp: Submit_def set_doc_def Let_def emit_def is_broadcast_def due_def)
      then show ?thesis using s3 q
        by (intro conjI disjI2 exI [of _ q] exI [of _ s3] exI [of _ y] exI [of _ y']) simp_all
    next
      case f: False
      show ?thesis using assms False f s s' st1 x y y' r2 s3 quiet
        by (cases r2; cases r3) (auto simp: Submit_def set_doc_def Let_def)
    qed
  qed
qed

text \<open>
  C27: The resolver's answer is never committed to the log nor sent to anyone. Whatever the
  conflict resolver replies, a submit returns the same result, leaves the same committed
  log of every document and broadcasts the same messages (the incoming payload). The
  resolved state reaches the cached document and, when this operation is due for a
  snapshot, the snapshot stored with its number, and nothing else of the store.
\<close>

theorem resolved_state_not_committed:
  assumes "backend_ok k" "db_inv (e_store st)" "int (length (log_of (db_view (e_store st)) d)) < max_i64"
    and "Submit (store_of k) A c e d u uid p st = (r, st', fx)"
    and "Submit (store_of k) A c (e\<lparr>net := reply\<rparr>) d u uid p st = (r', st'', fx')"
  shows "r' = r \<and> filter is_broadcast fx' = filter is_broadcast fx
     \<and> (\<forall>d'. log_of (db_view (e_store st'')) d' = log_of (db_view (e_store st')) d')
     \<and> (\<forall>d' q. \<not> (d' = d \<and> r = Inr q \<and> due c q) \<longrightarrow>
          snaps_of (db_view (e_store st'')) d' q = snaps_of (db_view (e_store st')) d' q)"
proof -
  note S = backend_store [OF assms(1)]
  note same = submit_reply [OF assms(4,5)]
  show ?thesis
  proof (cases "e_store st'' = e_store st'")
    case False
    with same obtain q s y y' where q: "r = Inr q" "AppendOp (store_of k) (dbe e) d p u (e_store st) = (Inr q, s)"
      "e_store st' = (if due c q then snd (SaveSnapshot (store_of k) (dbe e) d (crdt_Save A y) q s) else s)"
      "e_store st'' = (if due c q then snd (SaveSnapshot (store_of k) (dbe e) d (crdt_Save A y') q s) else s)" by blast
    have inv: "db_inv s" using store.append_ok [OF S assms(2,3) q(2)] by simp
    have due: "due c q" using False q(3,4) by (cases "due c q") simp_all
    have "log_of (db_view (e_store st'')) d' = log_of (db_view s) d'" "log_of (db_view (e_store st')) d' = log_of (db_view s) d'" for d'
      using q(3,4) due by (auto intro!: store.snap_step(1) [OF S inv])
    moreover have "snaps_of (db_view (e_store st'')) d' q' = snaps_of (db_view s) d' q'"
      "snaps_of (db_view (e_store st')) d' q' = snaps_of (db_view s) d' q'" if "d' \<noteq> d \<or> q' \<noteq> q" for d' q'
      using q(3,4) due that by (auto intro!: store.snap_step(2) [OF S inv])
    moreover have "d' \<noteq> d \<or> q' \<noteq> q" if "\<not> (d' = d \<and> r = Inr q' \<and> due c q')" for d' q' using that q(1) due by auto
    ultimately have "\<forall>d'. log_of (db_view (e_store st'')) d' = log_of (db_view (e_store st')) d'"
      "\<forall>d' q. \<not> (d' = d \<and> r = Inr q \<and> due c q) \<longrightarrow> snaps_of (db_view (e_store st'')) d' q = snaps_of (db_view (e_store st')) d' q"
      by simp_all
    with same show ?thesis by blast
  qed (use same in simp)
qed

theorem resolved_state_not_committed_witness:
  "map op_Payload (log_of (db_view (e_store (fst (snd (Submit (store_of SQLite) am_set (cfg2\<lparr>e_resolver := NewResolver ''http://r'' ''k''\<rparr>)
       ((calm_e 3)\<lparr>net := (\<lambda>_. Response 200 ''{\"resolved_state\":\"BwEJAA==\"}'')\<rparr>) ''doc'' ''s'' [] [2] (new_estate db2)))))) ''doc'')
   = map op_Payload (log_of (db_view (e_store (fst (snd (Submit (store_of SQLite) am_set (cfg2\<lparr>e_resolver := NewResolver ''http://r'' ''k''\<rparr>)
       (calm_e 3) ''doc'' ''s'' [] [2] (new_estate db2)))))) ''doc'')"
proof -
  let ?c = "cfg2\<lparr>e_resolver := NewResolver ''http://r'' ''k''\<rparr>"
  have sub: "Submit (store_of SQLite) am_set ?c e ''doc'' ''s'' [] [2] (new_estate db2) =
      (fst (Submit (store_of SQLite) am_set ?c e ''doc'' ''s'' [] [2] (new_estate db2)),
       fst (snd (Submit (store_of SQLite) am_set ?c e ''doc'' ''s'' [] [2] (new_estate db2))),
       snd (snd (Submit (store_of SQLite) am_set ?c e ''doc'' ''s'' [] [2] (new_estate db2))))" for e by simp
  have "backend_ok SQLite" "db_inv (e_store (new_estate db2))"
    "int (length (log_of (db_view (e_store (new_estate db2))) ''doc'')) < max_i64"
    using db2_inv by (simp_all add: backend_ok_def new_estate_def db2_ops db2_len max_i64_def)
  from resolved_state_not_committed [where e = "calm_e 3" and reply = "\<lambda>_. Response 200 ''{\"resolved_state\":\"BwEJAA==\"}''", OF this sub sub]
  show ?thesis by (simp only: simp_thms)
qed

end
