(* ===== verification/Delivery.thy ===== *)
theory Delivery
  imports Interleave Engine_Props
begin

text \<open>
  No committed change is missed: in every interleaving, a connection that subscribed to a document
  and is still open has each acknowledged change after its number in its queue or on the
  wire, or a goroutine is about to put it there. The proof carries the invariant through
  the steps of \<open>Interleave\<close>; the store enters through its contract.
\<close>

section \<open>The invariant\<close>

fun mentions :: "outmsg \<Rightarrow> string \<Rightarrow> string \<Rightarrow> int \<Rightarrow> bytes \<Rightarrow> bool" where
  "mentions (OutSync m) d s q p \<longleftrightarrow> m = NewServerSync d s q p"
| "mentions (OutReplay r) d s q p \<longleftrightarrow>
     rp_DocID r = d \<and> \<lparr>ro_Seq = q, ro_FromSession = s, ro_Payload = p\<rparr> \<in> set (rp_Ops r)"
| "mentions _ d s q p \<longleftrightarrow> False"

definition handed :: "conn \<Rightarrow> string \<Rightarrow> string \<Rightarrow> int \<Rightarrow> bytes \<Rightarrow> bool" where
  "handed c d s q p \<longleftrightarrow> (\<exists>m. mentions m d s q p \<and> Encode (cn_codec c) m \<in> set (cn_wire c @ cn_send c))"

definition due :: "('s, 'd) node \<Rightarrow> nat \<Rightarrow> string \<Rightarrow> string \<Rightarrow> int \<Rightarrow> bytes \<Rightarrow> bool" where
  "due n i d s q p \<longleftrightarrow>
     (\<exists>ms m. n_pc n i = Some (Replaying d ms) \<and> m \<in> set ms \<and> mentions (OutReplay m) d s q p)
     \<or> (\<exists>j. n_pc n j = Some (Committed d (NewServerSync d s q p)))
     \<or> (\<exists>j ts. n_pc n j = Some (Fanning d (NewServerSync d s q p) ts) \<and> i \<in> set ts)"

definition owed :: "('s, 'd) node \<Rightarrow> nat \<Rightarrow> string \<Rightarrow> string \<Rightarrow> int \<Rightarrow> bytes \<Rightarrow> bool" where
  "owed n i d s q p \<longleftrightarrow>
     (\<exists>k. n_from n i d = Some k \<and> k < q) \<and> (s, q, p) \<in> n_acked n d
     \<and> \<not> is_done (conn_at (n_world n) i) \<and> sessionFor (conn_at (n_world n) i) d \<noteq> s"

definition covered :: "('s, 'd) node \<Rightarrow> bool" where
  "covered n \<longleftrightarrow> (\<forall>i d s q p. owed n i d s q p \<longrightarrow> handed (conn_at (n_world n) i) d s q p \<or> due n i d s q p)"

text \<open>Whoever has loaded a document's changes, or is about to, is among its subscribers.\<close>

definition joined :: "('s, 'd) node \<Rightarrow> bool" where
  "joined n \<longleftrightarrow>
     (\<forall>i d. n_from n i d \<noteq> None \<longrightarrow> w_conns (n_world n) i \<noteq> None
        \<and> (is_done (conn_at (n_world n) i) \<or> i \<in> set (targets (w_hub (n_world n)) d)))
     \<and> (\<forall>i d k. n_pc n i = Some (Loading d k) \<longrightarrow> i \<in> set (targets (w_hub (n_world n)) d))"

section \<open>Carrying it through a step\<close>

text \<open>A connection keeps the frames it was handed, or is closed.\<close>

definition keeps :: "conn \<Rightarrow> conn \<Rightarrow> bool" where
  "keeps c c' \<longleftrightarrow> cn_codec c' = cn_codec c \<and> (is_done c \<longrightarrow> is_done c')
     \<and> (is_done c' \<or> set (cn_wire c @ cn_send c) \<subseteq> set (cn_wire c' @ cn_send c'))"

lemma grows_keeps: "grows c c' \<Longrightarrow> keeps c c'"
  unfolding grows_def keeps_def by (metis append_assoc set_append Un_upper1)

lemma keeps_refl [simp]: "keeps c c"
  by (simp add: keeps_def)

lemma handed_keeps: "handed c d s q p \<Longrightarrow> keeps c c' \<Longrightarrow> \<not> is_done c' \<Longrightarrow> handed c' d s q p"
  unfolding handed_def keeps_def by auto

lemma quiet_keeps: "quiet w w' \<Longrightarrow> keeps (conn_at w i) (conn_at w' i)"
proof -
  assume "quiet w w'"
  then have "rel_option grows (w_conns w i) (w_conns w' i)" by (simp add: quiet_def)
  then show ?thesis by (cases "w_conns w i"; cases "w_conns w' i") (auto simp: conn_at_def intro: grows_keeps)
qed

lemma quiet_session: "quiet w w' \<Longrightarrow> sessionFor (conn_at w' i) d = sessionFor (conn_at w i) d"
  by (simp add: sessionFor_def quiet_conn_at(2))

text \<open>
  The frame of the argument: connections keep what they have, nothing new is owed except what
  is due, and what was due is still due or has been handed over.
\<close>

lemma covered_frame:
  assumes cov: "covered n"
    and conns: "\<And>i. keeps (conn_at (n_world n) i) (conn_at (n_world n') i)"
    and old: "\<And>i d s q p. owed n' i d s q p \<Longrightarrow> owed n i d s q p \<or> due n' i d s q p"
    and due: "\<And>i d s q p. due n i d s q p \<Longrightarrow> owed n i d s q p \<Longrightarrow> owed n' i d s q p \<Longrightarrow>
        handed (conn_at (n_world n') i) d s q p \<or> due n' i d s q p"
  shows "covered n'"
  unfolding covered_def
proof (intro allI impI)
  fix i d s q p
  assume o': "owed n' i d s q p"
  show "handed (conn_at (n_world n') i) d s q p \<or> due n' i d s q p"
  proof (cases "owed n i d s q p")
    case True
    with cov consider "handed (conn_at (n_world n) i) d s q p" | "due n i d s q p" unfolding covered_def by blast
    then show ?thesis
    proof cases
      case 1
      have "\<not> is_done (conn_at (n_world n') i)" using o' by (simp add: owed_def)
      then show ?thesis using handed_keeps [OF 1 conns] by simp
    next
      case 2
      then show ?thesis using due [OF 2 True o'] by simp
    qed
  qed (use old [OF o'] in simp)
qed

lemma owed_frame:
  assumes "owed n' i d s q p" "n_acked n' d \<subseteq> n_acked n d"
    and "n_from n' i d = n_from n i d"
    and "keeps (conn_at (n_world n) i) (conn_at (n_world n') i)"
    and "sessionFor (conn_at (n_world n') i) d = sessionFor (conn_at (n_world n) i) d"
  shows "owed n i d s q p"
  using assms unfolding owed_def keeps_def by auto

text \<open>A place that holds nothing due can be left.\<close>

fun empty_handed :: "pc \<Rightarrow> bool" where
  "empty_handed (Replaying d ms) \<longleftrightarrow> ms = []"
| "empty_handed (Committed d m) \<longleftrightarrow> False"
| "empty_handed (Fanning d m ts) \<longleftrightarrow> ts = []"
| "empty_handed _ \<longleftrightarrow> True"

lemma due_move:
  assumes "due n i d s q p" "n_pc n j = None \<or> (\<exists>p0. n_pc n j = Some p0 \<and> empty_handed p0)" "\<And>k. k \<noteq> j \<Longrightarrow> n_pc n' k = n_pc n k"
  shows "due n' i d s q p"
proof -
  from assms(1) consider
      (r) ms m where "n_pc n i = Some (Replaying d ms)" "m \<in> set ms" "mentions (OutReplay m) d s q p"
    | (c) k where "n_pc n k = Some (Committed d (NewServerSync d s q p))"
    | (f) k ts where "n_pc n k = Some (Fanning d (NewServerSync d s q p) ts)" "i \<in> set ts"
    unfolding due_def by blast
  then show ?thesis
  proof cases
    case r
    then have "i \<noteq> j" using assms(2) by auto
    with r assms(3) show ?thesis unfolding due_def by metis
  next
    case c
    then have "k \<noteq> j" using assms(2) by auto
    with c assms(3) show ?thesis unfolding due_def by metis
  next
    case f
    then have "k \<noteq> j" using assms(2) by auto
    with f assms(3) show ?thesis unfolding due_def by metis
  qed
qed

lemma due_same: "due n i d s q p \<Longrightarrow> n_pc n' = n_pc n \<Longrightarrow> due n' i d s q p"
  unfolding due_def by simp

text \<open>Steps that only hand out frames: of no goroutine in particular, or of one that held nothing.\<close>

lemma covered_quiet:
  assumes "covered n" "quiet (n_world n) w"
  shows "covered (step_world w n)"
proof (rule covered_frame [OF assms(1)], goal_cases)
  case (1 i)
  then show ?case using quiet_keeps [OF assms(2)] by simp
next
  case (2 i d s q p)
  then show ?case using quiet_keeps [OF assms(2)] quiet_session [OF assms(2)] by (auto elim!: owed_frame)
next
  case (3 i d s q p)
  then show ?case by (auto intro: due_same)
qed

lemma covered_move:
  assumes "covered n" "n_pc n j = Some p0" "empty_handed p0"
  shows "covered (step_at j p1 (n_world n) n)"
proof (rule covered_frame [OF assms(1)], goal_cases)
  case (2 i d s q p)
  then show ?case by (auto simp: owed_def)
next
  case (3 i d s q p)
  have "due (step_at j p1 (n_world n) n) i d s q p"
    by (rule due_move [OF 3(1)]) (use assms(2,3) in auto)
  then show ?case ..
qed simp

text \<open>Steps that touch neither connections nor the members of the hub.\<close>

lemma covered_same:
  assumes "covered n" "\<And>i. conn_at w i = conn_at (n_world n) i" "\<And>d. a d \<subseteq> n_acked n d"
  shows "covered (step_world w (n\<lparr>n_pending := k, n_acked := a\<rparr>))"
proof (rule covered_frame [OF assms(1)], goal_cases)
  case (2 i d s q p)
  then show ?case using assms(2,3) by (auto simp: owed_def)
next
  case (3 i d s q p)
  then show ?case by (auto intro: due_same)
qed (simp add: assms(2))

lemma joined_same:
  assumes "joined n" "w_conns w = w_conns (n_world n)" "\<And>d. targets (w_hub w) d = targets (w_hub (n_world n)) d"
  shows "joined (step_world w (n\<lparr>n_pending := k, n_acked := a\<rparr>))"
  using assms by (simp add: joined_def conn_at_def)

lemma joined_quiet:
  assumes "joined n" "quiet (n_world n) w"
  shows "joined (step_world w n)"
proof -
  have h: "w_hub w = w_hub (n_world n)" using assms(2) by (simp add: quiet_def)
  show ?thesis
    using assms(1) quiet_conn_at(1,3) [OF assms(2)] unfolding joined_def step_sel h by metis
qed

lemma joined_move:
  assumes "joined n" "\<And>d k. p \<noteq> Loading d k"
  shows "joined (step_at j p (n_world n) n)"
  using assms unfolding joined_def by (simp del: not_None_eq)

text \<open>The whole of it, for a goroutine that goes on.\<close>

definition sound :: "('s, 'd) node \<Rightarrow> bool" where
  "sound n \<longleftrightarrow> covered n \<and> joined n"

lemma sound_quiet: "sound n \<Longrightarrow> quiet (n_world n) w \<Longrightarrow> sound (step_world w n)"
  by (simp add: sound_def covered_quiet joined_quiet)

lemma sound_step:
  assumes "sound n" "n_pc n j = Some p0" "empty_handed p0" "\<And>d k. p \<noteq> Loading d k" "quiet (n_world n) w"
  shows "sound (step_at j p w n)"
proof -
  have s: "sound (step_world w n)" by (rule sound_quiet [OF assms(1,5)])
  then have "covered (step_at j p w (step_world w n))" "joined (step_at j p w (step_world w n))"
    using covered_move [of "step_world w n" j p0 p] joined_move [of "step_world w n" p j] assms(2-4)
    by (simp_all add: sound_def)
  then show ?thesis by (simp add: sound_def)
qed

lemma codec_eq [simp]: "(a :: codec) = b"
  by (cases a; cases b) simp

lemma sound_serve:
  assumes ok: "node_ok mx n" and s: "sound n" and h: "handshake accept sv ae t r (n_world n) = (Served i, w)"
  shows "sound (step_at i Reading w (n\<lparr>n_pending := k\<rparr>))"
proof -
  from handshake_served [OF h] obtain c cd ident where i: "i = w_next (n_world n)"
    and w: "w = (n_world n)\<lparr>w_cache := c, w_conns := (w_conns (n_world n))(i \<mapsto> newConn cd ident (r_RemoteAddr r) t), w_next := i + 1\<rparr>"
    by auto
  have free: "n_pc n i = None" "w_conns (n_world n) i = None"
    using node_okD(3) [OF ok, of i] node_okD(2) [OF ok, of i] i by simp_all
  have from_i: "n_from n i d = None" for d using s free unfolding sound_def joined_def by blast
  have at: "conn_at w j = (if j = i then newConn cd ident (r_RemoteAddr r) t else conn_at (n_world n) j)" for j
    by (simp add: w conn_at_def)
  have cov: "covered n" using s by (simp add: sound_def)
  have "covered (step_at i Reading w (n\<lparr>n_pending := k\<rparr>))"
  proof (rule covered_frame [OF cov], goal_cases)
    case (1 j)
    have "keeps (conn_at (n_world n) i) (conn_at w i)"
      unfolding at using free by (simp add: conn_at_def keeps_def newConn_def)
    then show ?case by (cases "j = i") (simp_all add: at)
  next
    case (2 j d s q p)
    then show ?case using from_i by (cases "j = i") (auto simp: owed_def at)
  next
    case (3 j d s q p)
    have "due (step_at i Reading w (n\<lparr>n_pending := k\<rparr>)) j d s q p"
      by (rule due_move [OF 3(1), of i]) (use free in auto)
    then show ?case ..
  qed
  moreover have "joined (step_at i Reading w (n\<lparr>n_pending := k\<rparr>))"
    using s free from_i by (auto simp: sound_def joined_def w conn_at_def split: if_splits)
  ultimately show ?thesis by (simp add: sound_def)
qed

lemma sound_subscribe:
  assumes s: "sound n" and i: "n_pc n i = Some Reading"
  shows "sound (step_at i (Subscribing d u k) (set_session i d u (n_world n))
     (n\<lparr>n_from := (n_from n)(i := (n_from n i)(d := None))\<rparr>))"
proof -
  let ?w = "set_session i d u (n_world n)"
  let ?n = "step_at i (Subscribing d u k) ?w (n\<lparr>n_from := (n_from n)(i := (n_from n i)(d := None))\<rparr>)"
  have conn: "keeps (conn_at (n_world n) j) (conn_at ?w j)" "is_done (conn_at ?w j) = is_done (conn_at (n_world n) j)"
    "w_conns ?w j = None \<longleftrightarrow> w_conns (n_world n) j = None" for j
    by (cases "w_conns (n_world n) j"; cases "j = i"; simp add: set_session_def upd_conn_def conn_at_def keeps_def)+
  have sess: "j \<noteq> i \<or> d' \<noteq> d \<Longrightarrow> sessionFor (conn_at ?w j) d' = sessionFor (conn_at (n_world n) j) d'" for j d'
    by (cases "w_conns (n_world n) j"; cases "j = i"; simp add: set_session_def upd_conn_def conn_at_def sessionFor_def)
  have cov: "covered n" using s by (simp add: sound_def)
  have "covered ?n"
  proof (rule covered_frame [OF cov], goal_cases)
    case (1 j)
    then show ?case using conn(1) by simp
  next
    case (2 j d' s q p)
    then have "j \<noteq> i \<or> d' \<noteq> d" by (auto simp: owed_def)
    then have "owed n j d' s q p"
      using 2 conn(1) sess by (intro owed_frame [OF 2]) auto
    then show ?case ..
  next
    case (3 j d' s q p)
    have "due ?n j d' s q p" by (rule due_move [OF 3(1), of i]) (use i in auto)
    then show ?case ..
  qed
  moreover have "joined ?n"
    using s conn(2,3) unfolding sound_def joined_def by (simp add: set_session_def upd_conn_def del: not_None_eq split: if_splits)
  ultimately show ?thesis by (simp add: sound_def)
qed

lemma sound_register:
  assumes ok: "node_ok mx n" and s: "sound n" and i: "n_pc n i = Some (Subscribing d u k)"
  shows "sound (step_at i (Loading d k) (fireConnected D i d u (hub_subscribe D i d (n_world n))) n)"
proof -
  let ?w = "hub_subscribe D i d (n_world n)"
  have w: "w_conns ?w = w_conns (n_world n)" "conn_at ?w j = conn_at (n_world n) j"
    "set (targets (w_hub ?w) d') = (if d' = d then insert i (set (targets (w_hub (n_world n)) d)) else set (targets (w_hub (n_world n)) d'))" for j d'
    by (simp_all add: hub_subscribe_def case_prod_beta outside_def conn_at_def set_targets_subscribe)
  have "covered (step_world ?w n)"
    using covered_same [of n ?w "n_acked n" "n_pending n"] s w(2) by (simp add: sound_def step_world_def)
  then have "covered (step_at i (Loading d k) ?w n)"
    using covered_move [of "step_world ?w n" i "Subscribing d u k" "Loading d k"] i by simp
  then have 1: "covered (step_at i (Loading d k) (fireConnected D i d u ?w) n)"
    using covered_quiet [of "step_at i (Loading d k) ?w n" "fireConnected D i d u ?w"] by (simp add: quiet_plain)
  have "joined (step_at i (Loading d k) ?w n)"
    using s unfolding sound_def joined_def step_sel w by (auto simp del: not_None_eq split: if_splits)
  then have "joined (step_at i (Loading d k) (fireConnected D i d u ?w) n)"
    using joined_quiet [of "step_at i (Loading d k) ?w n" "fireConnected D i d u ?w"] by (simp add: quiet_plain)
  with 1 show ?thesis by (simp add: sound_def)
qed

lemma sound_leave:
  assumes ok: "node_ok mx n" and s: "sound n" and i: "n_pc n i = Some Reading"
  shows "sound (step_at i Left (serve_end D t i (n_world n)) n)"
proof -
  let ?w1 = "upd_conn i (close StatusNormalClosure []) (n_world n)" and ?w = "hub_deregister D i (upd_conn i (close StatusNormalClosure []) (n_world n))"
  have s1: "sound (step_world ?w1 n)" by (rule sound_quiet [OF s quiet_upd_conn [OF grows_close]])
  have conn: "w_conns (n_world n) i \<noteq> None" using node_okD(2) [OF ok, of i] i by simp
  then have dn: "is_done (conn_at ?w1 i)" by (auto simp: conn_at_def upd_conn_def close_def)
  have w: "w_conns ?w = w_conns ?w1" "conn_at ?w j = conn_at ?w1 j" for j
    by (simp_all add: hub_deregister_def case_prod_beta outside_def conn_at_def)
  have tg: "j \<noteq> i \<Longrightarrow> j \<in> set (targets (w_hub ?w1) d) \<Longrightarrow> j \<in> set (targets (w_hub ?w) d)" for j d
    by (simp add: hub_deregister_def case_prod_beta outside_def targets_deregister)
  have cov: "covered (step_world ?w n)"
    using covered_same [of "step_world ?w1 n" ?w "n_acked n" "n_pending n"] s1 w(2) by (simp add: sound_def step_world_def)
  have 1: "covered (step_at i Left ?w n)"
    using covered_move [OF cov, of i Reading Left] i by simp
  have 2: "joined (step_at i Left ?w n)"
    unfolding joined_def step_sel w
  proof (intro conjI allI impI)
    fix j d assume f: "n_from n j d \<noteq> None"
    show "w_conns ?w1 j \<noteq> None" using s1 f unfolding sound_def joined_def by simp
    show "is_done (conn_at ?w1 j) \<or> j \<in> set (targets (w_hub ?w) d)"
      using s1 f dn tg [of j d] unfolding sound_def joined_def by (cases "j = i") (auto simp del: not_None_eq)
  next
    fix j d k assume l: "((n_pc n)(i \<mapsto> Left)) j = Some (Loading d k)"
    then have "j \<noteq> i" "n_pc n j = Some (Loading d k)" by (auto split: if_splits)
    with s1 tg [of j d] show "j \<in> set (targets (w_hub ?w) d)" unfolding sound_def joined_def by simp
  qed
  have q: "quiet (n_world (step_at i Left ?w n)) (serve_end D t i (n_world n))" by (simp add: serve_end_quiet)
  have "sound (step_at i Left ?w n)" using 1 2 by (simp add: sound_def)
  from sound_quiet [OF this q] show ?thesis by simp
qed

text \<open>The steps that hand over what was due.\<close>

lemma handed_enqueue:
  "mentions m d s q p \<Longrightarrow> is_done (enqueue pick m c) \<or> handed (enqueue pick m c) d s q p"
  using enqueue_live [of pick m c] unfolding handed_def by auto

lemma conn_at_upd: "conn_at (upd_conn i f w) j = (if j = i \<and> w_conns w i \<noteq> None then f (conn_at w i) else conn_at w j)"
  by (auto simp: conn_at_def upd_conn_def split: option.splits)

lemma send_batch_conn:
  assumes "send_batch D e i w m = (r, w')" "w_conns w i \<noteq> None"
  shows "\<exists>pick. conn_at w' i = enqueue pick (OutReplay m) (conn_at w i)"
proof -
  obtain c where c: "w_conns w i = Some c" using assms(2) by auto
  let ?w = "tally D (ReplayOps (int (length (rp_Ops m)))) w"
  have "w_conns ?w = w_conns w" by (simp add: tally_def)
  then have "conn_at w' i = enqueue (he_pick e i (OutReplay m)) (OutReplay m) c"
    using assms(1) c by (auto simp: send_batch_def Let_def enqueue_def conn_at_def split: prod.splits)
  then show ?thesis using c by (auto simp: conn_at_def)
qed

lemma sound_batch:
  assumes ok: "node_ok mx n" and s: "sound n" and i: "n_pc n i = Some (Replaying d (m # ms))"
    and b: "send_batch D e i (n_world n) m = (r, w)"
  shows "sound (step_at i (Replaying d ms) w n)"
proof -
  let ?n = "step_at i (Replaying d ms) w n"
  have q: "quiet (n_world n) w" by (rule quiet_send_batch [OF b])
  have cov: "covered n" using s by (simp add: sound_def)
  have conn: "w_conns (n_world n) i \<noteq> None" using node_okD(2) [OF ok, of i] i by simp
  have "covered ?n"
  proof (rule covered_frame [OF cov], goal_cases)
    case (1 j)
    then show ?case using quiet_keeps [OF q] by simp
  next
    case (2 j d' s q' p)
    have "owed n j d' s q' p" by (rule owed_frame [OF 2]) (simp_all add: quiet_keeps [OF q] quiet_session [OF q])
    then show ?case ..
  next
    case (3 j d' s q' p)
    from 3(3) have live: "\<not> is_done (conn_at w j)" by (simp add: owed_def)
    from 3(1) consider
        (here) m' where "j = i" "d' = d" "m' \<in> set (m # ms)" "mentions (OutReplay m') d' s q' p"
      | (there) ms' m' where "j \<noteq> i" "n_pc n j = Some (Replaying d' ms')" "m' \<in> set ms'" "mentions (OutReplay m') d' s q' p"
      | (c) k where "n_pc n k = Some (Committed d' (NewServerSync d' s q' p))" "k \<noteq> i"
      | (f) k ts where "n_pc n k = Some (Fanning d' (NewServerSync d' s q' p) ts)" "j \<in> set ts" "k \<noteq> i"
      unfolding due_def using i by (metis option.inject pc.distinct pc.inject(3))
    then show ?case
    proof cases
      case here
      show ?thesis
      proof (cases "m' = m")
        case True
        with here(4) have "mentions (OutReplay m) d' s q' p" by simp
        with send_batch_conn [OF b conn] live here(1) handed_enqueue [of "OutReplay m"] show ?thesis by (metis step_sel(6))
      next
        case False
        with here show ?thesis unfolding due_def by auto
      qed
    next
      case there
      then show ?thesis unfolding due_def step_sel by (metis fun_upd_other)
    next
      case c
      then show ?thesis unfolding due_def step_sel by (metis fun_upd_other)
    next
      case f
      then show ?thesis unfolding due_def step_sel by (metis fun_upd_other)
    qed
  qed
  moreover have "joined ?n"
    using joined_move [OF joined_quiet [of n w], of "Replaying d ms" i] s q by (simp add: sound_def)
  ultimately show ?thesis by (simp add: sound_def)
qed

lemma send_batch_closed: "send_batch D e i w m = (Some err, w') \<Longrightarrow> is_done (conn_at w' i)"
proof -
  assume a: "send_batch D e i w m = (Some err, w')"
  let ?w = "tally D (ReplayOps (int (length (rp_Ops m)))) w"
  obtain c where c: "w_conns ?w i = Some c" using a by (auto simp: send_batch_def Let_def split: option.splits)
  with a have e: "fst (enqueueErr (he_pick e i (OutReplay m)) (OutReplay m) c) = Some err"
    "conn_at w' i = snd (enqueueErr (he_pick e i (OutReplay m)) (OutReplay m) c)"
    by (auto simp: send_batch_def Let_def conn_at_def split: prod.splits)
  then show ?thesis by (cases rule: enqueueErr_cases [of c "he_pick e i (OutReplay m)" "OutReplay m"]) simp_all
qed

lemma sound_abandon:
  assumes s: "sound n" and i: "n_pc n i = Some (Replaying d ms)" and dn: "is_done (conn_at (n_world n) i)"
  shows "sound (step_at i Reading (n_world n) n)"
proof -
  have cov: "covered n" using s by (simp add: sound_def)
  have "covered (step_at i Reading (n_world n) n)"
  proof (rule covered_frame [OF cov], goal_cases)
    case (2 j d' s q p)
    then show ?case by (auto simp: owed_def)
  next
    case (3 j d' s q p)
    then have "j \<noteq> i" using dn by (auto simp: owed_def)
    with 3(1) i have "due (step_at i Reading (n_world n) n) j d' s q p"
      unfolding due_def step_sel by (metis fun_upd_other option.inject pc.distinct)
    then show ?case ..
  qed simp
  with joined_move [of n Reading i] s show ?thesis by (simp add: sound_def)
qed

lemma owed_joined:
  assumes "sound n" "owed n i d s q p"
  shows "i \<in> set (targets (w_hub (n_world n)) d)" "w_conns (n_world n) i \<noteq> None"
proof -
  have "n_from n i d \<noteq> None" "\<not> is_done (conn_at (n_world n) i)" using assms(2) by (auto simp: owed_def)
  then show "i \<in> set (targets (w_hub (n_world n)) d)" "w_conns (n_world n) i \<noteq> None"
    using assms(1) unfolding sound_def joined_def by blast+
qed

text \<open>What is due without a certain goroutine stays due when it moves.\<close>

lemma due_cases:
  assumes "due n i d s q p"
  obtains (replay) ms m where "n_pc n i = Some (Replaying d ms)" "m \<in> set ms" "mentions (OutReplay m) d s q p"
    | (committed) k where "n_pc n k = Some (Committed d (NewServerSync d s q p))"
    | (fanning) k ts where "n_pc n k = Some (Fanning d (NewServerSync d s q p) ts)" "i \<in> set ts"
  using assms unfolding due_def by blast

lemma due_other:
  "n_pc n i = Some (Replaying d ms) \<Longrightarrow> m \<in> set ms \<Longrightarrow> mentions (OutReplay m) d s q p \<Longrightarrow> due n i d s q p"
  "n_pc n k = Some (Committed d (NewServerSync d s q p)) \<Longrightarrow> due n i d s q p"
  "n_pc n k = Some (Fanning d (NewServerSync d s q p) ts) \<Longrightarrow> i \<in> set ts \<Longrightarrow> due n i d s q p"
  unfolding due_def by blast+

lemma sound_fan_out:
  assumes s: "sound n" and j: "n_pc n j = Some (Committed d msg)"
  shows "sound (step_at j (Fanning d msg (targets (w_hub (n_world n)) d)) (n_world n) n)"
proof -
  let ?n = "step_at j (Fanning d msg (targets (w_hub (n_world n)) d)) (n_world n) n"
  have cov: "covered n" using s by (simp add: sound_def)
  have "covered ?n"
  proof (rule covered_frame [OF cov], goal_cases)
    case (2 i d' s q p)
    then show ?case by (auto simp: owed_def)
  next
    case (3 i d' s q p)
    show ?case
    proof (cases "msg = NewServerSync d' s q p \<and> d' = d")
      case True
      have "i \<in> set (targets (w_hub (n_world n)) d')" by (rule owed_joined(1) [OF s 3(2)])
      with True show ?thesis unfolding due_def by auto
    next
      case False
      with 3(1) j have "due ?n i d' s q p"
        unfolding due_def step_sel by (metis fun_upd_other option.inject pc.distinct pc.inject(4))
      then show ?thesis ..
    qed
  qed simp
  with joined_move [of n "Fanning d msg (targets (w_hub (n_world n)) d)" j] s show ?thesis by (simp add: sound_def)
qed

lemma sound_fan:
  assumes s: "sound n" and j: "n_pc n j = Some (Fanning d msg (t # ts))"
    and w: "w = (n_world n)\<lparr>w_conns := send_sync pick d (ss_FromSession msg) msg t (w_conns (n_world n))\<rparr>"
  shows "sound (step_at j (Fanning d msg ts) w n)"
proof -
  let ?n = "step_at j (Fanning d msg ts) w n"
  have q: "quiet (n_world n) w" unfolding w by (rule node_ok_fan)
  have at: "conn_at w t = sync_sent pick d (ss_FromSession msg) msg t (conn_at (n_world n) t)" if "w_conns (n_world n) t \<noteq> None"
    using that by (auto simp: w conn_at_def send_sync_at)
  have cov: "covered n" using s by (simp add: sound_def)
  have "covered ?n"
  proof (rule covered_frame [OF cov], goal_cases)
    case (1 i)
    then show ?case using quiet_keeps [OF q] by simp
  next
    case (2 i d' s q' p)
    have "owed n i d' s q' p" by (rule owed_frame [OF 2]) (simp_all add: quiet_keeps [OF q] quiet_session [OF q])
    then show ?case ..
  next
    case (3 i d' s q' p)
    show ?case
    proof (cases "msg = NewServerSync d' s q' p \<and> d' = d \<and> i = t")
      case True
      then have f: "ss_FromSession msg = s" "mentions (OutSync msg) d' s q' p" by (auto simp: NewServerSync_def)
      have "w_conns (n_world n) t \<noteq> None" using owed_joined(2) [OF s 3(2)] True by simp
      moreover have "sessionFor (conn_at (n_world n) t) d \<noteq> s" "\<not> is_done (conn_at w t)" using 3(2,3) True by (auto simp: owed_def)
      ultimately show ?thesis
        using at handed_enqueue [OF f(2), of "pick t (OutSync msg)" "conn_at (n_world n) t"] True f(1)
        by (auto simp: sync_sent_def)
    next
      case False
      from 3(1) have "due ?n i d' s q' p"
      proof (cases rule: due_cases)
        case (replay ms m)
        then have "i \<noteq> j" using j by auto
        with replay show ?thesis by (intro due_other(1)) auto
      next
        case (committed k)
        then have "k \<noteq> j" using j by auto
        with committed show ?thesis by (intro due_other(2) [of _ k]) simp
      next
        case (fanning k ts')
        show ?thesis
        proof (cases "k = j")
          case True
          with fanning j False have "i \<in> set ts" "d' = d" "msg = NewServerSync d' s q' p" by auto
          then show ?thesis by (intro due_other(3) [of _ j _ _ _ _ ts]) auto
        next
          case False
          with fanning show ?thesis by (intro due_other(3) [of _ k _ _ _ _ ts']) auto
        qed
      qed
      then show ?thesis ..
    qed
  qed
  moreover have "joined ?n"
    using joined_move [OF joined_quiet [of n w], of "Fanning d msg ts" j] s q by (simp add: sound_def)
  ultimately show ?thesis by (simp add: sound_def)
qed

text \<open>A session recorded by default changes nothing for a document the connection has joined.\<close>

lemma sound_default_session:
  assumes ok: "node_ok mx n" and s: "sound n"
  shows "sound (step_world (default_session i d u (n_world n)) n)"
proof -
  let ?w = "default_session i d u (n_world n)"
  have conn: "keeps (conn_at (n_world n) j) (conn_at ?w j)" "is_done (conn_at ?w j) = is_done (conn_at (n_world n) j)"
    "w_conns ?w j = None \<longleftrightarrow> w_conns (n_world n) j = None" for j
    by (cases "w_conns (n_world n) j"; cases "j = i"; simp add: default_session_def upd_conn_def conn_at_def keeps_def)+
  have sess: "sessionFor (conn_at ?w j) d' = sessionFor (conn_at (n_world n) j) d'"
    if "d' \<in> fst ` set (cn_subs (conn_at (n_world n) j))" for j d'
    using that by (cases "w_conns (n_world n) j"; cases "j = i"; auto simp: default_session_def upd_conn_def conn_at_def sessionFor_def)
  have cov: "covered n" using s by (simp add: sound_def)
  have "covered (step_world ?w n)"
  proof (rule covered_frame [OF cov], goal_cases)
    case (1 j)
    then show ?case using conn(1) by simp
  next
    case (2 j d' s' q p)
    then obtain k where "n_from n j d' = Some k" "\<not> is_done (conn_at ?w j)" unfolding owed_def by auto
    then have "n_from n j d' \<noteq> None" "\<not> is_done (conn_at (n_world n) j)" unfolding conn(2) by simp_all
    then have "j \<in> set (targets (w_hub (n_world n)) d')" using s unfolding sound_def joined_def by blast
    then have "d' \<in> fst ` set (cn_subs (conn_at (n_world n) j))" using node_okD(4) [OF ok] by blast
    then have "owed n j d' s' q p" using conn(1) sess by (intro owed_frame [OF 2]) auto
    then show ?case ..
  next
    case (3 j d' s q p)
    then show ?case by (auto intro: due_same)
  qed
  moreover have "joined (step_world ?w n)"
    using s conn(2,3) unfolding sound_def joined_def by (simp add: default_session_def upd_conn_def del: not_None_eq)
  ultimately show ?thesis by (simp add: sound_def)
qed

lemma sound_submit:
  assumes "node_ok mx n" "sound n" "submit D e i m (default_session i d u (n_world n)) = (r, w, fx)"
  shows "sound (step_world w n)"
proof -
  from submit_cases [OF assms(3)] obtain st where w: "w = (default_session i d u (n_world n))\<lparr>w_engine := st\<rparr>" by blast
  have s: "sound (step_world (default_session i d u (n_world n)) n)" by (rule sound_default_session [OF assms(1,2)])
  then have "covered (step_world w n)" "joined (step_world w n)"
    using covered_same [of "step_world (default_session i d u (n_world n)) n" w "n_acked n" "n_pending n"]
      joined_same [where n = "step_world (default_session i d u (n_world n)) n" and w = w and k = "n_pending n" and a = "n_acked n"]
    by (simp_all add: sound_def w step_world_def)
  then show ?thesis by (simp add: sound_def)
qed

text \<open>A commit: the new change is due everywhere.\<close>

lemma joined_acked: "joined (n\<lparr>n_acked := a\<rparr>) = joined n"
  unfolding joined_def by simp

lemma sound_commit:
  assumes s: "sound n" and i: "n_pc n i = Some Reading"
  shows "sound ((step_at i (Committed d (NewServerSync d u q p)) (n_world n) n)\<lparr>n_acked := (n_acked n)(d := insert (u, q, p) (n_acked n d))\<rparr>)"
proof -
  let ?n = "(step_at i (Committed d (NewServerSync d u q p)) (n_world n) n)\<lparr>n_acked := (n_acked n)(d := insert (u, q, p) (n_acked n d))\<rparr>"
  have cov: "covered n" using s by (simp add: sound_def)
  have "covered ?n"
  proof (rule covered_frame [OF cov], goal_cases)
    case (2 j d' s q' p')
    show ?case
    proof (cases "d' = d \<and> (s, q', p') = (u, q, p)")
      case True
      then show ?thesis unfolding due_def by auto
    next
      case False
      have "(s, q', p') \<in> n_acked n d'" using 2 False by (cases "d' = d") (auto simp: owed_def)
      with 2 have "owed n j d' s q' p'" by (simp add: owed_def)
      then show ?thesis ..
    qed
  next
    case (3 j d' s q' p')
    have "due ?n j d' s q' p'" by (rule due_move [OF 3(1), of i]) (use i in auto)
    then show ?case ..
  qed simp
  moreover have "joined ?n"
    using joined_move [of n "Committed d (NewServerSync d u q p)" i] s by (simp add: sound_def joined_acked)
  ultimately show ?thesis by (simp add: sound_def)
qed

lemma quiet_engine: "quiet w w' \<Longrightarrow> w_engine w' = w_engine w"
  by (simp add: quiet_def)

section \<open>The store\<close>

lemma state_store: "state S A e d st = (r, st') \<Longrightarrow> e_store st' = e_store st"
  by (auto simp: state_def split: option.splits sum.splits)

context store
begin

lemma submit_log:
  assumes inv: "inv (e_store st)" and n: "int (length (log_of (view (e_store st)) d)) < max_i64"
    and sub: "Submit S A c e d u uid p st = (r, st', fx)"
  shows "inv (e_store st') \<and> submitted d p u r (e_store st) (e_store st')"
proof -
  obtain r1 st1 where s: "state S A e d st = (r1, st1)" by fastforce
  have s1: "e_store st1 = e_store st" by (rule state_store [OF s])
  have same: ?thesis if "e_store st' = e_store st" "isl r"
    using that inv by (cases r) (simp_all add: submitted_def Let_def)
  show ?thesis
  proof (cases "d = [] \<or> p = [] \<or> isl r1")
    case True
    then show ?thesis using sub s s1 by (intro same; cases r1) (auto simp: Submit_def split: if_splits)
  next
    case False
    then obtain x where x: "r1 = Inr x" by (cases r1) auto
    obtain r2 y fx2 where y: "applyChange A c e d x p = (r2, y, fx2)" by (metis prod_cases3)
    obtain r3 s3 where s3: "AppendOp S (dbe e) d p u (e_store st) = (r3, s3)" by fastforce
    show ?thesis
    proof (cases r2)
      case (Some err)
      then show ?thesis using sub False s s1 x y by (intro same) (auto simp: Submit_def set_doc_def)
    next
      case None
      show ?thesis
      proof (cases r3)
        case (Inl err)
        with sub False s s1 x y None s3 have "e_store st' = s3" "isl r" by (auto simp: Submit_def set_doc_def Let_def)
        with append_err [OF inv n, of "dbe e" p u err s3] s3 Inl show ?thesis by (cases r) (auto simp: submitted_def Let_def)
      next
        case (Inr q)
        note a = append_ok [OF inv n s3 [unfolded Inr]]
        have r: "r = Inr q" using sub False s s1 x y None s3 Inr by (auto simp: Submit_def set_doc_def Let_def)
        have "e_store st' = s3 \<or> e_store st' = snd (SaveSnapshot S (dbe e) d (crdt_Save A y) q s3)"
          using sub False s s1 x y None s3 Inr by (auto simp: Submit_def set_doc_def Let_def)
        then have "inv (e_store st')" "log_of (view (e_store st')) d' = log_of (view s3) d'" for d'
          using a save_cases [of s3 "dbe e" d "crdt_Save A y" q _ "e_store st'"]
            save_log [of s3 "dbe e" d "crdt_Save A y" q _ "e_store st'"] by (auto, metis prod.collapse)+
        with a r show ?thesis by (auto simp: submitted_def Let_def)
      qed
    qed
  qed
qed

definition stored :: "('s, 'd) node \<Rightarrow> bool" where
  "stored n \<longleftrightarrow> inv (e_store (w_engine (n_world n)))
     \<and> (\<forall>d s q p. (s, q, p) \<in> n_acked n d \<longrightarrow>
          (\<exists>x \<in> set (log_of (view (e_store (w_engine (n_world n)))) d). op_Seq x = q \<and> op_SessionID x = s \<and> op_Payload x = p))"

lemma stored_same:
  assumes "stored n" "e_store (w_engine (n_world n')) = e_store (w_engine (n_world n))" "\<And>d. n_acked n' d \<subseteq> n_acked n d"
  shows "stored n'"
  using assms unfolding stored_def by (simp add: subset_iff)

lemma stored_world: "stored n \<Longrightarrow> w_engine w = w_engine (n_world n) \<Longrightarrow> stored (step_world w n)"
  by (rule stored_same [of n]) auto

lemma stored_grows:
  assumes "stored n" "inv s'" "e_store (w_engine (n_world n')) = s'"
    and "\<And>d. n_acked n' d \<noteq> {} \<Longrightarrow> \<exists>xs. log_of (view s') d = log_of (view (e_store (w_engine (n_world n)))) d @ xs"
    and "\<And>d s q p. (s, q, p) \<in> n_acked n' d \<Longrightarrow> (s, q, p) \<in> n_acked n d
        \<or> (\<exists>x \<in> set (log_of (view s') d). op_Seq x = q \<and> op_SessionID x = s \<and> op_Payload x = p)"
  shows "stored n'"
  unfolding stored_def
proof (intro conjI allI impI)
  show "inv (e_store (w_engine (n_world n')))" using assms(2,3) by simp
  fix d s q p
  assume a: "(s, q, p) \<in> n_acked n' d"
  then have "n_acked n' d \<noteq> {}" by blast
  from assms(4) [OF this] obtain xs where xs: "log_of (view s') d = log_of (view (e_store (w_engine (n_world n)))) d @ xs" by blast
  from assms(5) [OF a] show "\<exists>x \<in> set (log_of (view (e_store (w_engine (n_world n')))) d). op_Seq x = q \<and> op_SessionID x = s \<and> op_Payload x = p"
  proof
    assume "(s, q, p) \<in> n_acked n d"
    with assms(1) obtain x where "x \<in> set (log_of (view (e_store (w_engine (n_world n)))) d)" "op_Seq x = q" "op_SessionID x = s" "op_Payload x = p"
      unfolding stored_def by blast
    with xs assms(3) show ?thesis by (intro bexI [of _ x]) auto
  qed (use assms(3) in simp)
qed

text \<open>What a load finds is due to the connection that loads.\<close>

lemma sound_load:
  assumes s: "sound n" and st: "stored n" and i: "n_pc n i = Some (Loading d k)" and ok: "node_ok mx n"
    and g: "GetOpsSince S e d k (e_store (w_engine (n_world n))) = Inr ops" and rb: "0 < rb"
  shows "sound (step_at i (Replaying d (replay_msgs d ops rb)) (n_world n) (n\<lparr>n_from := (n_from n)(i := (n_from n i)(d \<mapsto> k))\<rparr>))"
proof -
  let ?n = "step_at i (Replaying d (replay_msgs d ops rb)) (n_world n) (n\<lparr>n_from := (n_from n)(i := (n_from n i)(d \<mapsto> k))\<rparr>)"
  have cov: "covered n" and jn: "joined n" using s by (simp_all add: sound_def)
  have ops: "ops = filter (\<lambda>x. k < op_Seq x) (log_of (view (e_store (w_engine (n_world n)))) d)"
    using st since [OF _ g] by (simp add: stored_def)
  have fresh: "due ?n i d u q p" if a: "(u, q, p) \<in> n_acked n d" "k < q" for u q p
  proof -
    obtain x where x: "x \<in> set ops" "op_Seq x = q" "op_SessionID x = u" "op_Payload x = p"
      using st a unfolding stored_def ops by force
    then have "replay_op x \<in> set (concat (map rp_Ops (replay_msgs d ops rb)))"
      unfolding replay_msgs_ops [OF rb] by simp
    then obtain m where m: "m \<in> set (replay_msgs d ops rb)" "replay_op x \<in> set (rp_Ops m)" by auto
    have "rp_DocID m = d" using m(1) by (auto simp: replay_msgs_def Let_def replay_msg_def NewReplay_def)
    with m(2) x have "mentions (OutReplay m) d u q p" by (simp add: replay_op_def)
    with m(1) show ?thesis by (intro due_other(1)) auto
  qed
  have "covered ?n"
  proof (rule covered_frame [OF cov], goal_cases)
    case (2 j d' u q p)
    show ?case
    proof (cases "j = i \<and> d' = d")
      case True
      with 2 fresh [of u q p] show ?thesis by (auto simp: owed_def)
    next
      case False
      then have "owed n j d' u q p" by (intro owed_frame [OF 2]) auto
      then show ?thesis ..
    qed
  next
    case (3 j d' u q p)
    have "due ?n j d' u q p" by (rule due_move [OF 3(1), of i]) (use i in auto)
    then show ?case ..
  qed simp
  moreover have "i \<in> set (targets (w_hub (n_world n)) d)" "w_conns (n_world n) i \<noteq> None"
    using jn i node_okD(2) [OF ok, of i] unfolding joined_def by auto
  then have "joined ?n" using jn unfolding joined_def by (simp del: not_None_eq)
  ultimately show ?thesis by (simp add: sound_def)
qed

text \<open>The calls of the management API leave every log that is not deleted.\<close>

lemma manage_log:
  assumes "inv (e_store st)" "\<And>d u uid p. op \<noteq> OSubmit d u uid p"
  shows "inv (e_store (run_eop S A c e op st))
     \<and> (op \<noteq> ODelete d \<longrightarrow> log_of (view (e_store (run_eop S A c e op st))) d = log_of (view (e_store st)) d)"
proof (cases op)
  case (OSubmit d u uid p)
  then show ?thesis using assms(2) by blast
next
  case (OSnapshot d1)
  obtain r1 st1 where s: "state S A e d1 st = (r1, st1)" by fastforce
  note s1 = state_store [OF s]
  show ?thesis
  proof (cases "isl r1 \<or> isl (GetLatestSeq S (dbe e) d1 (e_store st1))")
    case True
    then have "e_store (run_eop S A c e op st) = e_store st"
      using OSnapshot s s1 by (auto simp: Snapshot_def split: sum.splits)
    then show ?thesis using assms(1) by simp
  next
    case False
    then obtain x q where x: "r1 = Inr x" "GetLatestSeq S (dbe e) d1 (e_store st1) = Inr q" by (metis isl_def sum.exhaust_sel)
    obtain r2 s2 where s2: "SaveSnapshot S (dbe e) d1 (crdt_Save A x) q (e_store st) = (r2, s2)" by fastforce
    have "e_store (run_eop S A c e op st) = s2"
      using OSnapshot s s1 x s2 by (auto simp: Snapshot_def split: sum.splits)
    then show ?thesis using save_cases [OF assms(1) s2] save_log [OF assms(1) s2] by simp
  qed
next
  case (OExport d1)
  obtain r1 st1 where s: "state S A e d1 st = (r1, st1)" by fastforce
  then have "e_store (run_eop S A c e op st) = e_store st"
    using OExport state_store [OF s] by (auto simp: Export_def split: sum.splits)
  then show ?thesis using assms(1) by simp
next
  case (OCreate d1 m)
  obtain r s where r: "CreateDocument S (dbe e) d1 m (e_store st) = (r, s)" by fastforce
  from create_cases [OF assms(1) r] show ?thesis by (auto simp: OCreate r adoc_of_def empty_adoc_def)
next
  case (ODelete d1)
  obtain r s where r: "DeleteDocument S (dbe e) d1 (e_store st) = (r, s)" by fastforce
  have "e_store (run_eop S A c e op st) = s" by (cases r) (simp_all add: ODelete r Forget_def)
  with delete_cases [OF assms(1) r] ODelete show ?thesis by (auto simp: adoc_of_def)
next
  case ORestart
  then show ?thesis using assms(1) by (simp add: new_estate_def)
qed

lemma submit_world:
  assumes "stored n" "submit D e i m (default_session i d u (n_world n)) = (r, w, fx)" "dp_store D = S"
    and "int (length (log_of (view (e_store (w_engine (n_world n)))) (in_DocID m))) < max_i64"
  shows "inv (e_store (w_engine w)) \<and> submitted (in_DocID m) (in_Payload m) (in_SessionID m) r
     (e_store (w_engine (n_world n))) (e_store (w_engine w))"
proof -
  let ?w = "default_session i d u (n_world n)"
  have eng: "w_engine ?w = w_engine (n_world n)" by (simp add: default_session_def upd_conn_def)
  obtain r' st fx' where s: "Submit S (dp_automerge D) (dp_engine D) (he_engine e) (in_DocID m) (in_SessionID m)
      (UserID (cn_identity (conn_at ?w i))) (in_Payload m) (w_engine (n_world n)) = (r', st, fx')" by (metis prod_cases3)
  with assms(2,3) eng have "r = r'" "w_engine w = st" by (auto simp: submit_def)
  with submit_log [OF _ assms(4) s] assms(1) show ?thesis by (simp add: stored_def)
qed

text \<open>Steps that change neither the connections nor the engine nor the subscribers.\<close>

lemma sound_stored_same:
  assumes "sound n" "stored n" "w_conns w = w_conns (n_world n)" "w_engine w = w_engine (n_world n)"
    and "\<And>d. targets (w_hub w) d = targets (w_hub (n_world n)) d"
  shows "sound (step_world w (n\<lparr>n_pending := k\<rparr>)) \<and> stored (step_world w (n\<lparr>n_pending := k\<rparr>))"
proof
  show "sound (step_world w (n\<lparr>n_pending := k\<rparr>))"
    using assms(1,3-5) covered_same [of n w "n_acked n" k] joined_same [where n = n and w = w and k = k and a = "n_acked n"]
    by (simp add: sound_def conn_at_def step_world_def)
  show "stored (step_world w (n\<lparr>n_pending := k\<rparr>))" by (rule stored_same [OF assms(2)]) (simp_all add: assms(4))
qed

lemma refuse_sound:
  assumes "n_pc n i = Some Reading" "submit D e i m (default_session i (in_DocID m) (in_SessionID m) (n_world n)) = (Inl err, w, fx)"
    and "node_ok (MaxConnections (dp_limits D)) n" "sound n" "stored n" "dp_store D = S"
    and "\<And>d. int (length (log_of (view (e_store (w_engine (n_world n)))) d)) < max_i64"
  shows "sound (step_at i Reading (submit_failed D e i m err (fold (run_effect D (he_pick e)) fx w)) n)
     \<and> stored (step_at i Reading (submit_failed D e i m err (fold (run_effect D (he_pick e)) fx w)) n)"
proof
  let ?w = "submit_failed D e i m err (fold (run_effect D (he_pick e)) fx w)"
  have q: "quiet w ?w" using submit_cases [OF assms(2)] by (intro quiet_trans [OF quiet_effects quiet_submit_failed]) auto
  have s: "sound (step_world w n)" by (rule sound_submit [OF assms(3,4,2)])
  show "sound (step_at i Reading ?w n)"
    using sound_step [OF s, of i Reading Reading ?w] assms(1) q by simp
  from submit_world [OF assms(5,2,6) assms(7)] have "inv (e_store (w_engine w))"
    and l: "\<exists>xs. log_of (view (e_store (w_engine w))) d = log_of (view (e_store (w_engine (n_world n)))) d @ xs" for d
    using submitted_extends [of "in_DocID m" "in_Payload m" "in_SessionID m" "Inl err" "e_store (w_engine (n_world n))" "e_store (w_engine w)" d]
    by (auto simp: extends_def)
  then show "stored (step_at i Reading ?w n)"
    using quiet_engine [OF q] by (intro stored_grows [OF assms(5), of "e_store (w_engine w)"]) auto
qed

lemma commit_sound:
  assumes "n_pc n i = Some Reading" "submit D e i m (default_session i (in_DocID m) (in_SessionID m) (n_world n)) = (Inr q, w, fx @ [Broadcast d s msg])"
    and "node_ok (MaxConnections (dp_limits D)) n" "sound n" "stored n" "dp_store D = S"
    and "\<And>d. int (length (log_of (view (e_store (w_engine (n_world n)))) d)) < max_i64"
  defines "n' \<equiv> (step_at i (Committed d msg) (fold (run_effect D (he_pick e)) fx w) n)\<lparr>n_acked := (n_acked n)(d := insert (s, q, in_Payload m) (n_acked n d))\<rparr>"
  shows "sound n' \<and> stored n'"
proof
  let ?w = "fold (run_effect D (he_pick e)) fx w"
  have qt: "quiet w ?w" using submit_cases [OF assms(2)] by (intro quiet_effects) auto
  have msg: "d = in_DocID m" "s = in_SessionID m" "msg = NewServerSync d s q (in_Payload m)"
    using submit_cases [OF assms(2)] by auto
  have sd: "sound (step_world ?w n)"
    using sound_quiet [OF sound_submit [OF assms(3,4,2)], of ?w] qt by simp
  show "sound n'"
    using sound_commit [OF sd, of i d s q "in_Payload m"] assms(1) by (simp add: msg(3) n'_def)
  from submit_world [OF assms(5,2,6) assms(7)] have iv: "inv (e_store (w_engine w))"
    and sb: "submitted d (in_Payload m) s (Inr q) (e_store (w_engine (n_world n))) (e_store (w_engine w))" by (simp_all add: msg)
  have l: "\<exists>xs. log_of (view (e_store (w_engine w))) d' = log_of (view (e_store (w_engine (n_world n)))) d' @ xs" for d'
    using submitted_extends [OF sb, of d'] by (auto simp: extends_def)
  have x: "\<exists>x \<in> set (log_of (view (e_store (w_engine w))) d). op_Seq x = q \<and> op_SessionID x = s \<and> op_Payload x = in_Payload m"
    using sb by (auto simp: submitted_def Let_def)
  show "stored n'"
    unfolding n'_def using quiet_engine [OF qt] iv l x
    by (intro stored_grows [OF assms(5), of "e_store (w_engine w)"]) (auto split: if_splits)
qed

lemma manage_sound:
  fixes e :: henv
  assumes "\<forall>d u uid p. op \<noteq> OSubmit d u uid p" "sound n" "stored n" "dp_store D = S"
  defines "st \<equiv> run_eop (dp_store D) (dp_automerge D) (dp_engine D) (he_engine e) op (w_engine (n_world n))"
  defines "n' \<equiv> step_world ((n_world n)\<lparr>w_engine := st\<rparr>) (n\<lparr>n_acked := (\<lambda>d. if op = ODelete d then {} else n_acked n d)\<rparr>)"
  shows "sound n' \<and> stored n'"
proof
  let ?a = "\<lambda>d. if op = ODelete d then {} else n_acked n d"
  have "inv (e_store (w_engine (n_world n)))" using assms(3) by (simp add: stored_def)
  note l = manage_log [OF this, of op "dp_automerge D" "dp_engine D" "he_engine e"]
  show "stored n'"
    unfolding n'_def using l assms(1,4) by (intro stored_grows [OF assms(3), of "e_store st"]) (auto simp: st_def split: if_splits)
  show "sound n'"
    unfolding n'_def
    using assms(2) covered_same [of n "(n_world n)\<lparr>w_engine := st\<rparr>" ?a "n_pending n"]
      joined_same [where n = n and w = "(n_world n)\<lparr>w_engine := st\<rparr>" and k = "n_pending n" and a = ?a]
    by (simp add: sound_def)
qed

lemma step_sound:
  assumes "step accept sv D n n'" "node_ok (MaxConnections (dp_limits D)) n" "sound n" "stored n"
    and "dp_store D = S" "0 < e_replayBatch (dp_engine D)"
    and "\<And>d. int (length (log_of (view (e_store (w_engine (n_world n)))) d)) < max_i64"
  shows "sound n' \<and> stored n'"
  using assms
proof (induction rule: step.induct)
  case (reserve n w)
  then have w: "w_conns w = w_conns (n_world n)" "w_engine w = w_engine (n_world n)" "targets (w_hub w) d = targets (w_hub (n_world n)) d" for d
    by (auto simp: reserve_def tryRegister_def targets_def split: if_splits)
  show ?case using sound_stored_same [OF reserve(3,4) w] .
next
  case (reject n k ae t r resp w)
  from handshake_refused [OF reject(2,3)] obtain c where "w = give_back ((n_world n)\<lparr>w_cache := c\<rparr>)" by blast
  then have w: "w_conns w = w_conns (n_world n)" "w_engine w = w_engine (n_world n)" "targets (w_hub w) d = targets (w_hub (n_world n)) d" for d
    by (simp_all add: give_back_def release_def targets_def)
  show ?case using sound_stored_same [OF reject(5,6) w] .
next
  case (serve n k ae t r i w)
  from handshake_served [OF serve(2)] have e: "w_engine w = w_engine (n_world n)" by auto
  have s: "sound (step_at i Reading w (n\<lparr>n_pending := k\<rparr>))" by (rule sound_serve [OF serve(3,4,2)])
  have "sound (step_world (tally D ConnectionOpened w) (step_at i Reading w (n\<lparr>n_pending := k\<rparr>)))"
    by (rule sound_quiet [OF s]) (simp add: quiet_plain)
  moreover have "stored (step_at i Reading (tally D ConnectionOpened w) (n\<lparr>n_pending := k\<rparr>))"
    by (rule stored_same [OF serve(5)]) (simp_all add: e tally_def)
  ultimately show ?case by simp
next
  case (simple n i data e)
  have q: "quiet (n_world n) (receive D e i data (n_world n))" by (rule quiet_simple [OF simple(2)])
  with sound_quiet [OF simple(4) q] stored_world [OF simple(5) quiet_engine [OF q]] show ?case by simp
next
  case (subscribe n i data m)
  have "stored (step_at i (Subscribing (in_DocID m) (in_SessionID m) (in_LastSeq m))
        (set_session i (in_DocID m) (in_SessionID m) (n_world n)) (n\<lparr>n_from := (n_from n)(i := (n_from n i)(in_DocID m := None))\<rparr>))"
    by (rule stored_same [OF subscribe(7)]) (simp_all add: set_session_def upd_conn_def)
  with sound_subscribe [OF subscribe(6,1)] show ?case by blast
next
  case (register n i d s k)
  have "stored (step_at i (Loading d k) (fireConnected D i d s (hub_subscribe D i d (n_world n))) n)"
    by (rule stored_same [OF register(4)])
       (simp_all add: quiet_engine [OF quiet_plain(4)] hub_subscribe_def case_prod_beta outside_def)
  with sound_register [OF register(2,3,1)] show ?case by blast
next
  case (load n i d k e ops)
  have "stored (step_at i (Replaying d (replay_msgs d ops (nat (e_replayBatch (dp_engine D))))) (n_world n)
      (n\<lparr>n_from := (n_from n)(i := (n_from n i)(d \<mapsto> k))\<rparr>))"
    by (rule stored_same [OF load(5)]) simp_all
  moreover have "GetOpsSince S (dbe (he_engine e)) d k (e_store (w_engine (n_world n))) = Inr ops" using load(2,6) by simp
  ultimately show ?case using sound_load [OF load(4,5,1,3), of _ ops] load(7) by simp
next
  case (batch n i d m ms e w)
  have q: "quiet (n_world n) w" by (rule quiet_send_batch [OF batch(2)])
  have "stored (step_at i (Replaying d ms) w n)" by (rule stored_same [OF batch(5)]) (simp_all add: quiet_engine [OF q])
  with sound_batch [OF batch(3,4,1,2)] show ?case by blast
next
  case (batch_fails n i d m ms e err w)
  have q: "quiet (n_world n) w" by (rule quiet_send_batch [OF batch_fails(2)])
  have "sound (step_at i Reading w (step_at i (Replaying d ms) w n))"
    using sound_abandon [OF sound_batch [OF batch_fails(3,4,1,2)], of i d ms] send_batch_closed [OF batch_fails(2)] by simp
  then have "sound (step_at i Reading w n)" by (simp add: step_at_def)
  then have "sound (step_world (replay_failed e i w) (step_at i Reading w n))"
    by (rule sound_quiet) (simp add: quiet_replay_failed)
  moreover have "stored (step_at i Reading (replay_failed e i w) n)"
    by (rule stored_same [OF batch_fails(5)]) (simp_all add: quiet_engine [OF quiet_replay_failed] quiet_engine [OF q])
  ultimately show ?case by simp
next
  case (refuse n i data m e err w fx)
  show ?case by (rule refuse_sound [OF refuse(1,5,6-9) refuse(11)])
next
  case (commit n i data m e q w fx d s msg)
  show ?case using commit_sound [OF commit(1,5,6-9) commit(11)] by (simp add: step_record)
next
  case (fan_out n i d msg)
  have "stored (step_at i (Fanning d msg (targets (w_hub (n_world n)) d)) (n_world n) n)"
    by (rule stored_same [OF fan_out(4)]) simp_all
  with sound_fan_out [OF fan_out(3,1)] show ?case by blast
next
  case (fan n i d msg j js pick)
  let ?w = "(n_world n)\<lparr>w_conns := send_sync pick d (ss_FromSession msg) msg j (w_conns (n_world n))\<rparr>"
  have "stored (step_at i (Fanning d msg js) ?w n)" by (rule stored_same [OF fan(4)]) simp_all
  with sound_fan [OF fan(3,1) refl] show ?case by blast
next
  case (leave n i t)
  have "w_engine (serve_end D t i (n_world n)) = w_engine (n_world n)"
    using quiet_engine [OF serve_end_quiet, of D t i "n_world n"]
    by (simp add: hub_deregister_def case_prod_beta outside_def upd_conn_def)
  then have "stored (step_at i Left (serve_end D t i (n_world n)) n)" by (intro stored_same [OF leave(4)]) simp_all
  with sound_leave [OF leave(2,3,1)] show ?case by blast
next
  case (manage op n e)
  show ?case by (rule manage_sound [OF manage(1,4,5,6)])
next
  case (load_fails n i d k e err)
  have "stored (step_at i Reading (replay_failed e i (n_world n)) n)"
    by (rule stored_same [OF load_fails(5)]) (simp_all add: quiet_engine [OF quiet_replay_failed])
  with sound_step [OF load_fails(4,1)] show ?case by (simp add: quiet_replay_failed)
next
  case (replayed n i d)
  have "stored (step_at i Reading (n_world n) n)" by (rule stored_same [OF replayed(4)]) simp_all
  with sound_step [OF replayed(3,1)] show ?case by simp
next
  case (acknowledge n i d msg e)
  have "stored (step_at i Reading (submit_done D e i d (ss_Seq msg) (n_world n)) n)"
    by (rule stored_same [OF acknowledge(4)]) (simp_all add: quiet_engine [OF quiet_submit_done])
  with sound_step [OF acknowledge(3,1)] show ?case by (simp add: quiet_submit_done)
next
  case (written n i ok)
  have q: "quiet (n_world n) (upd_conn i (writeLoop [ok]) (n_world n))" by (rule quiet_upd_conn [OF grows_write])
  from sound_quiet [OF written(2) q] stored_world [OF written(3) quiet_engine [OF q]] show ?case by simp
next
  case (tick n i ok)
  have q: "quiet (n_world n) (upd_conn i (keepAlive (dp_limits D) [ok]) (n_world n))" by (rule quiet_upd_conn [OF grows_ping])
  from sound_quiet [OF tick(2) q] stored_world [OF tick(3) quiet_engine [OF q]] show ?case by simp
qed

end

end
