(* ===== verification/Handler_Runs.thy ===== *)
theory Handler_Runs
  imports Delivery
begin

text \<open>
  The handlers of \<^verbatim>\<open>connection.go\<close> are sequences of the steps of \<open>Interleave\<close>, so what holds in
  every interleaving holds of them; and the properties of the concurrent server: the
  accounting of slots and queues, and that no acknowledged change is missed.
\<close>

section \<open>A handler that is not interrupted\<close>

text \<open>
  The steps are those of the handlers: a handler that runs without interruption is a sequence
  of steps of its goroutine.
\<close>

definition runs ::
  "acceptor \<Rightarrow> Server \<Rightarrow> ('s, 'd) serverDeps \<Rightarrow> ('s \<Rightarrow> bool) \<Rightarrow> ('s, 'd) node \<Rightarrow> ('s, 'd) node \<Rightarrow> bool" where
  "runs accept sv D room = (\<lambda>n n'. room (e_store (w_engine (n_world n))) \<and> step accept sv D n n')\<^sup>*\<^sup>*"

lemma runs_refl [simp]: "runs accept sv D room n n"
  by (simp add: runs_def)

lemma runs_trans: "runs accept sv D room a b \<Longrightarrow> runs accept sv D room b c \<Longrightarrow> runs accept sv D room a c"
  unfolding runs_def by (rule rtranclp_trans)

lemma runs_step: "room (e_store (w_engine (n_world n))) \<Longrightarrow> step accept sv D n n' \<Longrightarrow> runs accept sv D room n n'"
  unfolding runs_def by blast

lemma runs_then:
  "room (e_store (w_engine (n_world n))) \<Longrightarrow> step accept sv D n n' \<Longrightarrow> runs accept sv D room n' n'' \<Longrightarrow> runs accept sv D room n n''"
  by (rule runs_trans [OF runs_step])

lemma reachable_runs:
  assumes "reachable accept sv D room s0 n" "runs accept sv D room n n'"
  shows "reachable accept sv D room s0 n'"
  using assms(2,1) unfolding runs_def
  by (induction rule: rtranclp_induct) (auto intro: further)

lemma step_at_twice [simp]: "step_at i p w (step_at i p' w' n) = step_at i p w n"
  by (simp add: step_at_def)

lemma batches_run:
  assumes "n_pc n i = Some (Replaying d ms)" "room (e_store (w_engine (n_world n)))"
    and "deliver_all (send_batch D e i) ms (n_world n) = (r, w)"
  shows "runs accept sv D room n (step_at i Reading (case r of None \<Rightarrow> w | Some err \<Rightarrow> replay_failed e i w) n)"
  using assms
proof (induction ms arbitrary: n)
  case Nil
  then show ?case by (intro runs_step) (auto intro: step.replayed)
next
  case (Cons m ms)
  obtain r1 w1 where b: "send_batch D e i (n_world n) m = (r1, w1)" by fastforce
  have eng: "w_engine w1 = w_engine (n_world n)" using quiet_send_batch [OF b] by (simp add: quiet_def)
  show ?case
  proof (cases r1)
    case (Some err)
    with Cons.prems(3) b have "r = Some err" "w = w1" by simp_all
    with b Some step.batch_fails [OF Cons.prems(1), of D e err w1] Cons.prems(2) show ?thesis by (intro runs_step) simp_all
  next
    case None
    let ?n = "step_at i (Replaying d ms) w1 n"
    have "step accept sv D n ?n" by (rule step.batch [OF Cons.prems(1)]) (use b None in simp)
    moreover have "runs accept sv D room ?n (step_at i Reading (case r of None \<Rightarrow> w | Some err \<Rightarrow> replay_failed e i w) ?n)"
      using Cons.prems(2,3) b None eng by (intro Cons.IH) simp_all
    ultimately have "runs accept sv D room n (step_at i Reading (case r of None \<Rightarrow> w | Some err \<Rightarrow> replay_failed e i w) ?n)"
      by (rule runs_then [where room = room, OF Cons.prems(2)])
    then show ?thesis by simp
  qed
qed

lemma batches_quiet: "deliver_all (send_batch D e i) ms w = (r, w') \<Longrightarrow> quiet w w'"
proof (induction ms arbitrary: w)
  case (Cons m ms)
  obtain r1 w1 where b: "send_batch D e i w m = (r1, w1)" by fastforce
  note q = quiet_send_batch [OF b]
  show ?case
  proof (cases r1)
    case None
    with Cons b have "quiet w1 w'" by simp
    then show ?thesis by (rule quiet_trans [OF q])
  qed (use Cons.prems b q in simp)
qed simp

lemma fans_run:
  assumes "n_pc n i = Some (Fanning d msg ts)" "room (e_store (w_engine (n_world n)))"
  shows "runs accept sv D room n (step_at i (Fanning d msg [])
     ((n_world n)\<lparr>w_conns := fold (send_sync pick d (ss_FromSession msg) msg) ts (w_conns (n_world n))\<rparr>) n)"
  using assms
proof (induction ts arbitrary: n)
  case Nil
  then have "step_at i (Fanning d msg []) (n_world n) n = n" by (simp add: step_at_def fun_upd_idem)
  then show ?case by simp
next
  case (Cons t ts)
  let ?n = "step_at i (Fanning d msg ts) ((n_world n)\<lparr>w_conns := send_sync pick d (ss_FromSession msg) msg t (w_conns (n_world n))\<rparr>) n"
  have "step accept sv D n ?n" by (rule step.fan [OF Cons.prems(1)])
  moreover have "runs accept sv D room ?n (step_at i (Fanning d msg [])
     ((n_world ?n)\<lparr>w_conns := fold (send_sync pick d (ss_FromSession msg) msg) ts (w_conns (n_world ?n))\<rparr>) ?n)"
    using Cons.prems(2) by (intro Cons.IH) simp_all
  ultimately have "runs accept sv D room n (step_at i (Fanning d msg [])
     ((n_world ?n)\<lparr>w_conns := fold (send_sync pick d (ss_FromSession msg) msg) ts (w_conns (n_world ?n))\<rparr>) ?n)"
    by (rule runs_then [where room = room, OF Cons.prems(2)])
  then show ?case by simp
qed

lemma subscribe_run:
  assumes i: "n_pc n i = Some Reading" and m: "Decode (cn_codec (conn_at (n_world n) i)) data = Inr m"
    and t: "in_Type m = TypeSubscribe" "in_DocID m \<noteq> []" and room: "room (e_store (w_engine (n_world n)))"
    and rb: "0 < e_replayBatch (dp_engine D)"
    and ops: "\<And>ops. GetOpsSince (dp_store D) (dbe (he_engine e)) (in_DocID m) (in_LastSeq m) (e_store (w_engine (n_world n))) = Inr ops \<Longrightarrow>
        int (length ops) + e_replayBatch (dp_engine D) \<le> max_i64"
  shows "\<exists>n'. runs accept sv D room n n' \<and> n_world n' = receive D e i data (n_world n) \<and> n_pc n' = n_pc n
     \<and> w_engine (n_world n') = w_engine (n_world n) \<and> n_acked n' = n_acked n \<and> n_pending n' = n_pending n
     \<and> n_from n' = (n_from n)(i := (n_from n i)(in_DocID m :=
          if isl (GetOpsSince (dp_store D) (dbe (he_engine e)) (in_DocID m) (in_LastSeq m) (e_store (w_engine (n_world n))))
          then None else Some (in_LastSeq m)))"
proof -
  let ?d = "in_DocID m" and ?u = "in_SessionID m" and ?k = "in_LastSeq m"
  let ?w1 = "set_session i ?d ?u (n_world n)"
  let ?n1 = "step_at i (Subscribing ?d ?u ?k) ?w1 (n\<lparr>n_from := (n_from n)(i := (n_from n i)(?d := None))\<rparr>)"
  let ?w3 = "fireConnected D i ?d ?u (hub_subscribe D i ?d ?w1)"
  let ?n2 = "step_at i (Loading ?d ?k) ?w3 ?n1"
  have eng: "w_engine ?w1 = w_engine (n_world n)" "w_engine ?w3 = w_engine (n_world n)"
    using quiet_engine [OF quiet_plain(4) [of "hub_subscribe D i ?d ?w1" D i ?d ?u]]
    by (simp_all add: set_session_def upd_conn_def hub_subscribe_def case_prod_beta outside_def)
  have s1: "step accept sv D n ?n1" by (rule step.subscribe [OF i m t])
  have s2: "step accept sv D ?n1 ?n2" using step.register [of ?n1 i ?d ?u ?k accept sv D] by simp
  have r2: "runs accept sv D room n ?n2"
  proof (rule runs_then [where room = room, OF room s1])
    show "runs accept sv D room ?n1 ?n2" by (rule runs_step [where room = room, OF _ s2]) (use room eng in simp)
  qed
  have recv: "receive D e i data (n_world n) =
      (case Engine_Replay (dp_store D) (dp_engine D) (he_engine e) ?d ?k (send_batch D e i) (e_store (w_engine ?w3)) ?w3 of
         (None, w4) \<Rightarrow> w4 | (Some err, w4) \<Rightarrow> replay_failed e i w4)"
    using m t by (simp add: receive_def handle_def handleSubscribe_def Let_def)
  have stays: "(n_pc n)(i \<mapsto> Reading) = n_pc n" using i by (simp add: fun_upd_idem)
  show ?thesis
  proof (cases "GetOpsSince (dp_store D) (dbe (he_engine e)) ?d ?k (e_store (w_engine (n_world n)))")
    case (Inl err)
    let ?n3 = "step_at i Reading (replay_failed e i ?w3) ?n2"
    have "step accept sv D ?n2 ?n3"
      using step.load_fails [of ?n2 i ?d ?k D e err accept sv] Inl eng by simp
    then have "runs accept sv D room n ?n3" using runs_trans [OF r2 runs_step] room eng by simp
    moreover have "n_world ?n3 = receive D e i data (n_world n)"
      unfolding recv using Inl eng by (simp add: Engine_Replay_def)
    moreover have "w_engine (n_world ?n3) = w_engine (n_world n)" using eng by (simp add: quiet_engine [OF quiet_replay_failed])
    ultimately show ?thesis using Inl stays by (intro exI [of _ ?n3]) simp
  next
    case (Inr os)
    let ?ms = "replay_msgs ?d os (nat (e_replayBatch (dp_engine D)))"
    let ?n3 = "step_at i (Replaying ?d ?ms) ?w3 (?n2\<lparr>n_from := (n_from ?n2)(i := (n_from ?n2 i)(?d \<mapsto> ?k))\<rparr>)"
    have s3: "step accept sv D ?n2 ?n3"
      using step.load [of ?n2 i ?d ?k D e os accept sv] Inr eng by simp
    obtain r w4 where dl: "deliver_all (send_batch D e i) ?ms ?w3 = (r, w4)" by fastforce
    let ?n4 = "step_at i Reading (case r of None \<Rightarrow> w4 | Some err \<Rightarrow> replay_failed e i w4) ?n3"
    have r3: "runs accept sv D room ?n2 ?n3" by (rule runs_step [OF _ s3]) (use room eng in simp)
    have "runs accept sv D room ?n3 ?n4" by (rule batches_run) (use dl room eng in simp_all)
    then have "runs accept sv D room n ?n4" using runs_trans [OF runs_trans [OF r2 r3]] by blast
    moreover have er: "Engine_Replay (dp_store D) (dp_engine D) (he_engine e) ?d ?k (send_batch D e i) (e_store (w_engine (n_world n))) ?w3 = (r, w4)"
      unfolding Engine_Replay_eq [OF rb Inr ops [OF Inr]] by (rule dl)
    from er have "n_world ?n4 = receive D e i data (n_world n)"
      unfolding recv eng by (simp split: option.splits)
    moreover have "w_engine (n_world ?n4) = w_engine (n_world n)"
      using quiet_engine [OF batches_quiet [OF dl]] eng by (simp add: quiet_engine [OF quiet_replay_failed] split: option.splits)
    ultimately show ?thesis using Inr stays by (intro exI [of _ ?n4]) simp
  qed
qed


lemma run_effects_quiet_engine:
  "(\<And>d s m. Broadcast d s m \<notin> set fx) \<Longrightarrow> w_engine (fold (run_effect D pick) fx w) = w_engine w"
  by (rule quiet_engine [OF quiet_effects])

lemma sync_run:
  assumes i: "n_pc n i = Some Reading" and m: "Decode (cn_codec (conn_at (n_world n) i)) data = Inr m"
    and t: "in_Type m = TypeSync" "in_DocID m \<noteq> []" and hub: "dp_broadcast D = hub_broadcaster"
    and sub: "submit D e i m (default_session i (in_DocID m) (in_SessionID m) (n_world n)) = (r, w, fx)"
    and room: "room (e_store (w_engine (n_world n)))" "room (e_store (w_engine w))"
  shows "\<exists>n'. runs accept sv D room n n' \<and> n_world n' = receive D e i data (n_world n) \<and> n_pc n' = n_pc n
     \<and> w_engine (n_world n') = w_engine w \<and> n_pending n' = n_pending n \<and> n_from n' = n_from n
     \<and> n_acked n' = (case r of Inl err \<Rightarrow> n_acked n
         | Inr q \<Rightarrow> (n_acked n)(in_DocID m := insert (in_SessionID m, q, in_Payload m) (n_acked n (in_DocID m))))"
proof -
  let ?d = "in_DocID m" and ?u = "in_SessionID m"
  have recv: "receive D e i data (n_world n) = (case r of Inl err \<Rightarrow> submit_failed D e i m err (fold (run_effect D (he_pick e)) fx w)
      | Inr q \<Rightarrow> submit_done D e i ?d q (fold (run_effect D (he_pick e)) fx w))"
    using m t sub by (simp add: receive_def handle_def handleSync_def Let_def TypeSync_def TypeSubscribe_def)
  have stays: "(n_pc n)(i \<mapsto> Reading) = n_pc n" using i by (simp add: fun_upd_idem)
  show ?thesis
  proof (cases r)
    case (Inl err)
    let ?n = "step_at i Reading (submit_failed D e i m err (fold (run_effect D (he_pick e)) fx w)) n"
    have "step accept sv D n ?n" by (rule step.refuse [OF i m t]) (use sub Inl in simp)
    then have "runs accept sv D room n ?n" by (rule runs_step [where room = room, OF room(1)])
    moreover have "w_engine (n_world ?n) = w_engine w"
      using submit_cases [OF sub] Inl by (simp add: quiet_engine [OF quiet_submit_failed] run_effects_quiet_engine)
    ultimately show ?thesis using recv Inl stays by (intro exI [of _ ?n]) simp
  next
    case (Inr q)
    let ?msg = "NewServerSync ?d ?u q (in_Payload m)"
    from submit_cases [OF sub] Inr obtain pre where pre: "fx = pre @ [Broadcast ?d ?u ?msg]"
      "\<And>d' s' msg. Broadcast d' s' msg \<notin> set pre" by auto
    let ?w = "fold (run_effect D (he_pick e)) pre w"
    let ?n1 = "step_at i (Committed ?d ?msg) ?w (n\<lparr>n_acked := (n_acked n)(?d := insert (?u, q, in_Payload m) (n_acked n ?d))\<rparr>)"
    let ?n2 = "step_at i (Fanning ?d ?msg (targets (w_hub ?w) ?d)) ?w ?n1"
    let ?w3 = "?w\<lparr>w_conns := fold (send_sync (he_pick e) ?d (ss_FromSession ?msg) ?msg) (targets (w_hub ?w) ?d) (w_conns ?w)\<rparr>"
    let ?n3 = "step_at i (Fanning ?d ?msg []) ?w3 ?n2"
    let ?n4 = "step_at i Reading (submit_done D e i ?d (ss_Seq ?msg) ?w3) ?n3"
    have rm: "room (e_store (w_engine ?w))" using room(2) by (simp add: run_effects_quiet_engine [OF pre(2)])
    have "step accept sv D n ?n1" using sub Inr pre by (intro step.commit [OF i m t]) simp
    then have 1: "runs accept sv D room n ?n1" by (rule runs_step [where room = room, OF room(1)])
    have "step accept sv D ?n1 ?n2" using step.fan_out [of ?n1 i ?d ?msg accept sv D] by simp
    then have 2: "runs accept sv D room ?n1 ?n2" by (rule runs_step [where room = room, rotated]) (use rm in simp)
    have 3: "runs accept sv D room ?n2 ?n3" using fans_run [of ?n2 i ?d ?msg _ room accept sv D "he_pick e"] rm by simp
    have "step accept sv D ?n3 ?n4" using step.acknowledge [of ?n3 i ?d ?msg accept sv D e] by simp
    then have 4: "runs accept sv D room ?n3 ?n4" by (rule runs_step [where room = room, rotated]) (use rm in simp)
    have "fold (run_effect D (he_pick e)) fx w = ?w3"
      by (simp add: pre(1) hub hub_broadcaster_def Hub_Broadcast_def NewServerSync_def)
    then have "n_world ?n4 = receive D e i data (n_world n)"
      by (simp add: recv Inr NewServerSync_def)
    moreover have "w_engine (n_world ?n4) = w_engine w"
      by (simp add: quiet_engine [OF quiet_submit_done] run_effects_quiet_engine [OF pre(2)])
    moreover have "runs accept sv D room n ?n4" by (rule runs_trans [OF runs_trans [OF runs_trans [OF 1 2] 3] 4])
    ultimately show ?thesis using Inr stays by (intro exI [of _ ?n4]) simp
  qed
qed

section \<open>What holds in every reachable state\<close>

text \<open>No log is at the limit of its numbers.\<close>

definition log_room :: "db \<Rightarrow> bool" where
  "log_room s \<longleftrightarrow> (\<forall>d. int (length (log_of (db_view s) d)) < max_i64)"

lemma log_roomI: "(\<And>d. int (length (log_of (db_view s) d)) + b \<le> max_i64) \<Longrightarrow> 0 < b \<Longrightarrow> log_room s"
proof -
  assume b: "\<And>d. int (length (log_of (db_view s) d)) + b \<le> max_i64" "0 < b"
  have "int (length (log_of (db_view s) d)) < max_i64" for d using b(1) [of d] b(2) by linarith
  then show ?thesis by (simp add: log_room_def)
qed

lemma reachable_node_ok: "reachable accept sv D room s0 n \<Longrightarrow> node_ok (MaxConnections (dp_limits D)) n"
  by (induction rule: reachable.induct) (auto intro: node_ok_new step_node_ok)

lemma reachable_sound:
  assumes "reachable accept sv D log_room empty_db n" "backend_ok k" "dp_store D = store_of k" "0 < e_replayBatch (dp_engine D)"
  shows "sound n \<and> store.stored db_inv db_view n"
  using assms(1)
proof (induction rule: reachable.induct)
  case start
  have "sound (new_node (new_estate empty_db))"
    by (simp add: sound_def covered_def owed_def joined_def new_node_def)
  moreover have "store.stored db_inv db_view (new_node (new_estate empty_db))"
    by (simp add: store.stored_def [OF backend_store [OF assms(2)]] new_node_def new_world_def new_estate_def db_inv_empty)
  ultimately show ?case ..
next
  case (further n n')
  then have "\<And>d. int (length (log_of (db_view (e_store (w_engine (n_world n)))) d)) < max_i64" by (simp add: log_room_def)
  with further store.step_sound [OF backend_store [OF assms(2)] further(3) reachable_node_ok [OF further(1)] _ _ assms(3,4)]
  show ?case by blast
qed

text \<open>No handler is in the middle of its work.\<close>

definition at_rest :: "('s, 'd) node \<Rightarrow> bool" where
  "at_rest n \<longleftrightarrow> (\<forall>i p. n_pc n i = Some p \<longrightarrow> p = Reading \<or> p = Left)"

lemma at_rest_due: "at_rest n \<Longrightarrow> \<not> due n i d s q p"
  unfolding at_rest_def due_def by fastforce

text \<open>
  C5: No acknowledged change is missed. In every state that any interleaving of connections,
  broadcasts, replays and management calls can reach (the store failing at any point), once
  the handlers are at rest: if a connection that is still open subscribed to a document from
  number \<open>k0\<close>, then every change of the document that was acknowledged to any client with a
  number after \<open>k0\<close>, before or after the subscription, has been handed to the connection in a
  \<^verbatim>\<open>sync\<close> or \<^verbatim>\<open>replay\<close> frame, unless it came from a session of the same name.
\<close>

theorem no_change_missed:
  assumes "backend_ok k" "dp_store D = store_of k" "0 < e_replayBatch (dp_engine D)"
    and "reachable accept sv D log_room empty_db n" "at_rest n"
    and "n_from n i d = Some k0" "(s, q, p) \<in> n_acked n d" "k0 < q"
    and "\<not> is_done (conn_at (n_world n) i)" "sessionFor (conn_at (n_world n) i) d \<noteq> s"
  shows "handed (conn_at (n_world n) i) d s q p"
proof -
  have "covered n" using reachable_sound [OF assms(4,1-3)] by (simp add: sound_def)
  moreover have "owed n i d s q p" using assms(6-10) by (simp add: owed_def)
  ultimately show ?thesis using at_rest_due [OF assms(5)] unfolding covered_def by blast
qed

section \<open>The request handler is a sequence of steps\<close>

abbreviation log_len :: "(db, 'd) node \<Rightarrow> string \<Rightarrow> int" where
  "log_len n d \<equiv> int (length (log_of (db_view (e_store (w_engine (n_world n)))) d))"

text \<open>
  A node on one of the three databases, broadcasting to its own hub only.
\<close>

definition single_node :: "(db, 'd) serverDeps \<Rightarrow> backend \<Rightarrow> bool" where
  "single_node D k \<longleftrightarrow> backend_ok k \<and> dp_store D = store_of k \<and> dp_broadcast D = hub_broadcaster \<and> 0 < e_replayBatch (dp_engine D)"

lemma submit_log_len:
  assumes "single_node D k" "store.stored db_inv db_view n" "log_room (e_store (w_engine (n_world n)))"
    and "submit D e i m (default_session i d u (n_world n)) = (r, w, fx)"
  shows "int (length (log_of (db_view (e_store (w_engine w))) d')) \<le> log_len n d' + 1"
proof -
  from assms(1) have k: "backend_ok k" "dp_store D = store_of k" by (simp_all add: single_node_def)
  note S = backend_store [OF k(1)]
  have "log_len n (in_DocID m) < max_i64" using assms(3) by (simp add: log_room_def)
  with store.submit_world [OF S assms(2,4) k(2)]
  have "store.submitted db_view (in_DocID m) (in_Payload m) (in_SessionID m) r (e_store (w_engine (n_world n))) (e_store (w_engine w))" by blast
  from store.submitted_extends [OF S this, of d'] show ?thesis by (auto simp: store.extends_def [OF S])
qed

lemma receive_run:
  assumes D: "single_node D k" and n: "reachable accept sv D log_room empty_db n" and i: "n_pc n i = Some Reading"
    and len: "\<And>d. log_len n d + 1 + e_replayBatch (dp_engine D) \<le> max_i64"
  shows "\<exists>n'. reachable accept sv D log_room empty_db n' \<and> n_world n' = receive D e i data (n_world n)
     \<and> n_pc n' = n_pc n \<and> n_pending n' = n_pending n \<and> (\<forall>d. log_len n' d \<le> log_len n d + 1)"
proof -
  from D have k: "backend_ok k" "dp_store D = store_of k" "0 < e_replayBatch (dp_engine D)" and hub: "dp_broadcast D = hub_broadcaster"
    by (simp_all add: single_node_def)
  note S = backend_store [OF k(1)]
  have st: "store.stored db_inv db_view n" using reachable_sound [OF n k] ..
  have room: "log_room (e_store (w_engine (n_world n)))"
    by (rule log_roomI [of _ "1 + e_replayBatch (dp_engine D)"]) (use len k(3) in \<open>simp_all add: add.assoc\<close>)
  show ?thesis
  proof (cases "simple_frame (cn_codec (conn_at (n_world n) i)) data")
    case True
    let ?n = "step_world (receive D e i data (n_world n)) n"
    have "reachable accept sv D log_room empty_db ?n"
      by (rule further [where room = log_room, OF n room step.simple [OF i True]])
    then show ?thesis using quiet_engine [OF quiet_simple [OF True]] by (intro exI [of _ ?n]) simp
  next
    case False
    then obtain m where m: "Decode (cn_codec (conn_at (n_world n) i)) data = Inr m" "in_DocID m \<noteq> []"
      "in_Type m = TypeSubscribe \<or> in_Type m = TypeSync" by (auto simp: simple_frame_def split: sum.splits)
    from m(3) show ?thesis
    proof
      assume t: "in_Type m = TypeSubscribe"
      have "int (length ops) + e_replayBatch (dp_engine D) \<le> max_i64"
        if "GetOpsSince (dp_store D) (dbe (he_engine e)) (in_DocID m) (in_LastSeq m) (e_store (w_engine (n_world n))) = Inr ops" for ops
      proof -
        have "ops = filter (\<lambda>x. in_LastSeq m < op_Seq x) (log_of (db_view (e_store (w_engine (n_world n)))) (in_DocID m))"
          using store.since [OF S _ that [unfolded k(2)]] st by (simp add: store.stored_def [OF S])
        then have "int (length ops) \<le> log_len n (in_DocID m)" by simp
        then show ?thesis using len [of "in_DocID m"] by linarith
      qed
      from subscribe_run [where room = log_room, OF i m(1) t m(2) room k(3) this] obtain n' where
        r: "runs accept sv D log_room n n'" and "n_world n' = receive D e i data (n_world n)" "n_pc n' = n_pc n"
        "n_pending n' = n_pending n" "w_engine (n_world n') = w_engine (n_world n)" by blast
      with reachable_runs [OF n r] show ?thesis by (intro exI [of _ n']) simp
    next
      assume t: "in_Type m = TypeSync"
      obtain r w fx where sub: "submit D e i m (default_session i (in_DocID m) (in_SessionID m) (n_world n)) = (r, w, fx)"
        by (metis prod_cases3)
      note w = submit_log_len [OF D st room sub]
      have "int (length (log_of (db_view (e_store (w_engine w))) d)) + e_replayBatch (dp_engine D) \<le> max_i64" for d
        using w [of d] len [of d] by linarith
      then have "log_room (e_store (w_engine w))" by (rule log_roomI [OF _ k(3)])
      from sync_run [where room = log_room, OF i m(1) t m(2) hub sub room this] obtain n' where
        r: "runs accept sv D log_room n n'" and "n_world n' = receive D e i data (n_world n)" "n_pc n' = n_pc n"
        "n_pending n' = n_pending n" "w_engine (n_world n') = w_engine w" by blast
      with reachable_runs [OF n r] w show ?thesis by (intro exI [of _ n']) simp
    qed
  qed
qed

lemma readLoop_run:
  assumes D: "single_node D k" and "reachable accept sv D log_room empty_db n" "n_pc n i = Some Reading"
    and "\<And>d. log_len n d + int (length frames) + e_replayBatch (dp_engine D) \<le> max_i64"
  shows "\<exists>n'. reachable accept sv D log_room empty_db n' \<and> n_world n' = readLoop D i frames (n_world n)
     \<and> n_pc n' = n_pc n \<and> n_pending n' = n_pending n \<and> (\<forall>d. log_len n' d \<le> log_len n d + int (length frames))"
  using assms(2-4)
proof (induction frames arbitrary: n)
  case Nil
  then show ?case by (intro exI [of _ n]) simp
next
  case (Cons f frames)
  obtain e data where f: "f = (e, data)" by fastforce
  have "log_len n d + 1 + e_replayBatch (dp_engine D) \<le> max_i64" for d using Cons.prems(3) [of d] by simp
  from receive_run [OF D Cons.prems(1,2) this] obtain n1 where n1: "reachable accept sv D log_room empty_db n1"
    "n_world n1 = receive D e i data (n_world n)" "n_pc n1 = n_pc n" "n_pending n1 = n_pending n"
    "\<And>d. log_len n1 d \<le> log_len n d + 1" by blast
  have "log_len n1 d + int (length frames) + e_replayBatch (dp_engine D) \<le> max_i64" for d
    using Cons.prems(3) [of d] n1(5) [of d] by simp
  from Cons.IH [OF n1(1) _ this] n1(3) Cons.prems(2) obtain n2 where n2: "reachable accept sv D log_room empty_db n2"
    "n_world n2 = readLoop D i frames (n_world n1)" "n_pc n2 = n_pc n1" "n_pending n2 = n_pending n1"
    "\<And>d. log_len n2 d \<le> log_len n1 d + int (length frames)" by auto
  have "log_len n2 d \<le> log_len n d + int (length (f # frames))" for d using n1(5) [of d] n2(5) [of d] by simp
  with n1 n2 f show ?case by (intro exI [of _ n2]) simp
qed

lemma connect_run:
  assumes "reachable accept sv D log_room empty_db n" "log_room (e_store (w_engine (n_world n)))"
    and "reserve D (n_world n) = (True, w1)" "handshake accept sv ae t r w1 = (Served i, w2)"
  shows "\<exists>n'. reachable accept sv D log_room empty_db n' \<and> n_world n' = tally D ConnectionOpened w2
     \<and> n_pc n' = (n_pc n)(i \<mapsto> Reading) \<and> n_from n' = n_from n \<and> n_acked n' = n_acked n
     \<and> w_engine (n_world n') = w_engine (n_world n)"
proof -
  let ?n1 = "step_world w1 (n\<lparr>n_pending := n_pending n + 1\<rparr>)"
  let ?n2 = "step_at i Reading (tally D ConnectionOpened w2) (?n1\<lparr>n_pending := n_pending n\<rparr>)"
  have eng: "w_engine w1 = w_engine (n_world n)" using assms(3) by (auto simp: reserve_def split: prod.splits)
  have 1: "reachable accept sv D log_room empty_db ?n1"
    by (rule further [where room = log_room, OF assms(1,2) step.reserve [OF assms(3)]])
  have "step accept sv D ?n1 ?n2"
    using step.serve [of ?n1 "n_pending n" accept sv ae t r i w2 D] assms(4) by (simp add: step_world_def)
  then have "reachable accept sv D log_room empty_db ?n2"
    using assms(2) eng by (intro further [where room = log_room, OF 1]) (simp_all add: step_world_def)
  moreover have "w_engine (tally D ConnectionOpened w2) = w_engine (n_world n)"
    using handshake_served [OF assms(4)] eng by (auto simp: tally_def)
  ultimately show ?thesis by (intro exI [of _ ?n2]) (simp add: step_world_def)
qed

text \<open>A request that gets a connection, and one that is refused after it got a slot.\<close>

lemma served_run:
  assumes "single_node D k" "reachable accept sv D log_room empty_db n" "log_room (e_store (w_engine (n_world n)))"
    and "\<And>d. log_len n d + int (length frames) + e_replayBatch (dp_engine D) \<le> max_i64"
    and "reserve D (n_world n) = (True, w1)" "handshake accept sv ae t r w1 = (Served i, w2)"
  shows "\<exists>n'. reachable accept sv D log_room empty_db n' \<and> n_world n' = serve D t' i frames w2"
proof -
  have rb: "0 < e_replayBatch (dp_engine D)" using assms(1) by (simp add: single_node_def)
  from connect_run [OF assms(2,3,5,6)] obtain n1 where n1: "reachable accept sv D log_room empty_db n1"
    "n_world n1 = tally D ConnectionOpened w2" "n_pc n1 = (n_pc n)(i \<mapsto> Reading)" "w_engine (n_world n1) = w_engine (n_world n)" by blast
  with readLoop_run [OF assms(1) n1(1), of i frames] assms(4) obtain n2 where n2: "reachable accept sv D log_room empty_db n2"
    "n_world n2 = readLoop D i frames (n_world n1)" "n_pc n2 = n_pc n1" "\<And>d. log_len n2 d \<le> log_len n1 d + int (length frames)" by auto
  have "log_len n2 d + e_replayBatch (dp_engine D) \<le> max_i64" for d
    using n2(4) [of d] assms(4) [of d] n1(4) by simp
  then have "log_room (e_store (w_engine (n_world n2)))" by (rule log_roomI [OF _ rb])
  moreover have "step accept sv D n2 (step_at i Left (serve_end D t' i (n_world n2)) n2)"
    using n2(3) n1(3) by (intro step.leave) simp
  ultimately have "reachable accept sv D log_room empty_db (step_at i Left (serve_end D t' i (n_world n2)) n2)"
    by (rule further [where room = log_room, OF n2(1)])
  then show ?thesis using n1(2) n2(2)
    by (intro exI [of _ "step_at i Left (serve_end D t' i (n_world n2)) n2"]) (simp add: serve_def)
qed

lemma refused_run:
  assumes "reachable accept sv D log_room empty_db n" "log_room (e_store (w_engine (n_world n)))"
    and "reserve D (n_world n) = (True, w1)" "handshake accept sv ae t r w1 = (resp, w2)" "\<nexists>i. resp = Served i"
  shows "\<exists>n'. reachable accept sv D log_room empty_db n' \<and> n_world n' = w2"
proof -
  let ?n1 = "step_world w1 (n\<lparr>n_pending := n_pending n + 1\<rparr>)"
  have eng: "w_engine w1 = w_engine (n_world n)" using assms(3) by (auto simp: reserve_def split: prod.splits)
  have 1: "reachable accept sv D log_room empty_db ?n1"
    using assms(3) by (intro further [where room = log_room, OF assms(1,2)] step.reserve) simp
  have "step accept sv D ?n1 (step_world w2 (?n1\<lparr>n_pending := n_pending n\<rparr>))"
    by (rule step.reject) (use assms(4,5) in auto)
  then have "reachable accept sv D log_room empty_db (step_world w2 (?n1\<lparr>n_pending := n_pending n\<rparr>))"
    using assms(2) eng by (intro further [where room = log_room, OF 1]) simp_all
  then show ?thesis by (intro exI [of _ "step_world w2 (?n1\<lparr>n_pending := n_pending n\<rparr>)"]) simp
qed

text \<open>
  C9: The request handler refines the steps. On a node with one database and its own hub,
  \<^verbatim>\<open>HandleSync\<close> run from any reachable state without interruption (admission, authentication,
  upgrade, each message handled in turn, and the end of \<^verbatim>\<open>serve\<close>) ends in a state that the
  steps of the concurrent server reach: whatever holds in all interleavings holds after it.
\<close>

theorem request_is_a_run:
  assumes "single_node D k" "reachable accept sv D log_room empty_db n"
    and "\<And>d. log_len n d + int (length frames) + e_replayBatch (dp_engine D) \<le> max_i64"
  shows "\<exists>n'. reachable accept sv D log_room empty_db n'
     \<and> n_world n' = snd (HandleSync accept sv D ae t t' r frames (n_world n))"
proof -
  have rb: "0 < e_replayBatch (dp_engine D)" using assms(1) by (simp add: single_node_def)
  have room: "log_room (e_store (w_engine (n_world n)))"
    by (rule log_roomI [of _ "int (length frames) + e_replayBatch (dp_engine D)"]) (use assms(3) rb in \<open>simp_all add: add.assoc\<close>)
  obtain ok w1 where w1: "reserve D (n_world n) = (ok, w1)" by fastforce
  obtain resp w2 where w2: "handshake accept sv ae t r w1 = (resp, w2)" by fastforce
  consider "\<not> ok" | i where "ok" "resp = Served i" | "ok" "\<nexists>i. resp = Served i" by blast
  then show ?thesis
  proof cases
    case 1
    then have "w1 = n_world n" using w1 by (auto simp: reserve_def tryRegister_def split: if_splits)
    then show ?thesis using assms(2) w1 1 by (intro exI [of _ n]) (simp add: HandleSync_def)
  next
    case (2 i)
    with served_run [OF assms(1,2) room assms(3), of w1 ae t r i w2 t'] w1 w2 show ?thesis by (simp add: HandleSync_def)
  next
    case 3
    then have "snd (HandleSync accept sv D ae t t' r frames (n_world n)) = w2"
      using w1 w2 by (cases resp) (auto simp: HandleSync_def)
    with refused_run [OF assms(2) room _ w2 3(2)] w1 3(1) show ?thesis by simp
  qed
qed

text \<open>
  C18: Slots and queues in every interleaving: the hub's count of active connections is the
  number of requests between admission and the end of their handler, it never exceeds the
  configured maximum, no send queue exceeds its bound, and only connections whose handler
  is still running are subscribed.
\<close>

theorem slots_and_queues:
  assumes "reachable accept sv D room s0 n"
  shows "h_active (w_hub (n_world n)) = int (n_pending n) + int (card (serving n)) \<and> finite (serving n)
     \<and> (0 < MaxConnections (dp_limits D) \<longrightarrow> h_active (w_hub (n_world n)) \<le> MaxConnections (dp_limits D))
     \<and> (\<forall>i c. w_conns (n_world n) i = Some c \<longrightarrow> length (cn_send c) \<le> sendQueueSize)
     \<and> (\<forall>d i. i \<in> set (targets (w_hub (n_world n)) d) \<longrightarrow> i \<in> serving n)"
proof -
  note ok = reachable_node_ok [OF assms]
  show ?thesis by (intro conjI allI impI node_okD [OF ok] serving_finite [OF ok]) (auto dest: node_okD(4) [OF ok] node_okD(5) [OF ok])
qed

section \<open>A concrete server\<close>

text \<open>
  SQLite, no authentication, two clients: the first subscribes, the second submits a change.
\<close>

definition demo :: "(db, bytes list) serverDeps" where
  "demo = \<lparr>dp_store = sqlite_store, dp_automerge = am_set, dp_engine = cfg0, dp_emitter = False, dp_metrics = False,
     dp_observer = False, dp_limits = c_Limits Default, dp_broadcast = hub_broadcaster\<rparr>"

definition demo_server :: Server where
  "demo_server = server_New noneAuth (c_CORS Default)"

definition demo_accept :: acceptor where
  "demo_accept r protos origins = Some []"

definition demo_request :: Request where
  "demo_request = \<lparr>r_Method = ''GET'', r_Path = ''/sync'', r_Header = [], r_Query = [], r_Body = [], r_RemoteAddr = ''10.0.0.1:5000''\<rparr>"

definition demo_env :: henv where
  "demo_env = \<lparr>he_engine = calm_e 1, he_pick = (\<lambda>_ _. True), he_now = 1\<rparr>"

definition demo_aenv :: aenv where
  "demo_aenv = \<lparr>t_lookup = 0, t_request = 0, t_store = 0, auth_net = (\<lambda>_. NoReply ContextCanceled)\<rparr>"

abbreviation sub_frame :: frame where
  "sub_frame \<equiv> Marshal_Inbound \<lparr>in_Type = ''subscribe'', in_DocID = ''doc'', in_SessionID = ''a'', in_Payload = [], in_LastSeq = 0\<rparr>"

abbreviation sync_frame :: frame where
  "sync_frame \<equiv> Marshal_Inbound \<lparr>in_Type = ''sync'', in_DocID = ''doc'', in_SessionID = ''b'', in_Payload = [5], in_LastSeq = 0\<rparr>"

definition demo_connect :: "(db, bytes list) world \<Rightarrow> sync_response \<times> (db, bytes list) world" where
  "demo_connect w = handshake demo_accept demo_server demo_aenv 0 demo_request (snd (reserve demo w))"

definition demo_world :: "(db, bytes list) world" where
  "demo_world = receive demo demo_env 1 sync_frame (receive demo demo_env 0 sub_frame
     (snd (demo_connect (snd (demo_connect (new_world (new_estate empty_db)))))))"

lemma demo_single: "single_node demo SQLite"
  by (simp add: single_node_def demo_def backend_ok_def store_of_def)

lemma demo_new_room: "log_room empty_db"
  by (simp add: log_room_def max_i64_def)

lemma demo_admits: "reserve demo w = (True, snd (reserve demo w))" if "h_active (w_hub w) < 1000"
  using that by (simp add: reserve_def tryRegister_def demo_def Default_def split: prod.splits)

lemma demo_serves: "demo_connect w = (Served (w_next w), snd (demo_connect w))"
  by (simp add: demo_connect_def handshake_def demo_accept_def demo_server_def server_New_def none_Authenticate_def reserve_def tryRegister_def Let_def
      split: prod.splits)

lemma e_store_new [simp]: "e_store (new_estate s) = s"
  by (simp add: new_estate_def)

lemma demo_connects:
  assumes "reachable demo_accept demo_server demo log_room empty_db n" "log_room (e_store (w_engine (n_world n)))"
    and "h_active (w_hub (n_world n)) < 1000"
  shows "\<exists>n'. reachable demo_accept demo_server demo log_room empty_db n' \<and> n_world n' = snd (demo_connect (n_world n))
     \<and> n_pc n' = (n_pc n)(w_next (n_world n) \<mapsto> Reading) \<and> n_from n' = n_from n \<and> n_acked n' = n_acked n
     \<and> w_engine (n_world n') = w_engine (n_world n)"
  using connect_run [OF assms(1,2) demo_admits [OF assms(3)] demo_serves [of "n_world n", unfolded demo_connect_def]]
  by (simp add: tally_def demo_def demo_connect_def)

lemma demo_frames:
  "Decode cd sub_frame = Inr \<lparr>in_Type = TypeSubscribe, in_DocID = ''doc'', in_SessionID = ''a'', in_Payload = [], in_LastSeq = 0\<rparr>"
  "Decode cd sync_frame = Inr \<lparr>in_Type = TypeSync, in_DocID = ''doc'', in_SessionID = ''b'', in_Payload = [5], in_LastSeq = 0\<rparr>"
  by (cases cd, code_simp)+

lemma demo_reached:
  "\<exists>n. reachable demo_accept demo_server demo log_room empty_db n \<and> n_world n = demo_world
     \<and> n_pc n = [0 \<mapsto> Reading, 1 \<mapsto> Reading] \<and> n_from n 0 ''doc'' = Some 0 \<and> (''b'', 1, [5]) \<in> n_acked n ''doc''"
proof -
  let ?R = "reachable demo_accept demo_server demo log_room empty_db"
  let ?w0 = "new_world (new_estate empty_db) :: (db, bytes list) world"
  let ?w2 = "snd (demo_connect (snd (demo_connect ?w0)))"
  let ?w3 = "receive demo demo_env 0 sub_frame ?w2"
  let ?m = "\<lparr>in_Type = TypeSync, in_DocID = ''doc'', in_SessionID = ''b'', in_Payload = [5], in_LastSeq = 0\<rparr>"
  have 0: "?R (new_node (new_estate empty_db))" by (rule start)
  have "h_active (w_hub ?w0) < 1000" by code_simp
  from demo_connects [OF 0] this obtain n1 where
    n1: "?R n1" "n_world n1 = snd (demo_connect ?w0)" "n_pc n1 = [0 \<mapsto> Reading]" "w_engine (n_world n1) = new_estate empty_db"
    by (auto simp: new_node_def demo_new_room new_world_def)
  have "h_active (w_hub (snd (demo_connect ?w0))) < 1000" "w_next (snd (demo_connect ?w0)) = 1" by code_simp+
  with demo_connects [OF n1(1)] n1 obtain n2 where
    n2: "?R n2" "n_world n2 = ?w2" "n_pc n2 = [0 \<mapsto> Reading, 1 \<mapsto> Reading]" "w_engine (n_world n2) = new_estate empty_db"
    by (auto simp: demo_new_room)
  have room2: "log_room (e_store (w_engine (n_world n2)))" using n2(4) demo_new_room by simp
  have none: "GetOpsSince (dp_store demo) (dbe (he_engine demo_env)) ''doc'' 0 (e_store (w_engine (n_world n2))) = Inr []"
    unfolding n2(4) by code_simp
  from subscribe_run [where room = log_room, OF _ demo_frames(1) _ _ room2, of 0 demo demo_env demo_accept demo_server] none n2
  obtain n3 where r3: "runs demo_accept demo_server demo log_room n2 n3"
    and n3: "n_world n3 = ?w3" "n_pc n3 = n_pc n2" "w_engine (n_world n3) = new_estate empty_db" "n_from n3 0 ''doc'' = Some 0"
    by (auto simp: demo_def max_i64_def)
  note n3' = reachable_runs [OF n2(1) r3]
  have room3: "log_room (e_store (w_engine (n_world n3)))" using n3(3) demo_new_room by simp
  obtain r w fx where sub: "submit demo demo_env 1 ?m (default_session 1 (in_DocID ?m) (in_SessionID ?m) (n_world n3)) = (r, w, fx)"
    by (metis prod_cases3)
  have "fst (submit demo demo_env 1 ?m (default_session 1 (in_DocID ?m) (in_SessionID ?m) ?w3)) = Inr 1" by code_simp
  then have r: "r = Inr 1" using sub n3(1) by simp
  have st: "store.stored db_inv db_view n3"
    using reachable_sound [OF n3', of SQLite] demo_single by (simp add: single_node_def)
  have "int (length (log_of (db_view (e_store (w_engine w))) d)) + 1 \<le> max_i64" for d
    using submit_log_len [OF demo_single st room3 sub, of d] n3(3) by (simp add: max_i64_def)
  then have "log_room (e_store (w_engine w))" by (rule log_roomI) simp
  from sync_run [where room = log_room, OF _ demo_frames(2) _ _ _ sub room3 this, of demo_accept demo_server] n3 n2(3) r
  obtain n4 where r4: "runs demo_accept demo_server demo log_room n3 n4" and n4: "n_world n4 = demo_world" "n_pc n4 = n_pc n3"
    "n_from n4 = n_from n3" "(''b'', 1, [5]) \<in> n_acked n4 ''doc''"
    by (auto simp: demo_def demo_world_def)
  with reachable_runs [OF n3' r4] n3 n2(3) show ?thesis by (intro exI [of _ n4]) simp
qed

theorem no_change_missed_witness: "handed (conn_at demo_world 0) ''doc'' ''b'' 1 [5]"
proof -
  obtain n where n: "reachable demo_accept demo_server demo log_room empty_db n" "n_world n = demo_world"
    "n_pc n = [0 \<mapsto> Reading, 1 \<mapsto> Reading]" "n_from n 0 ''doc'' = Some 0" "(''b'', 1, [5]) \<in> n_acked n ''doc''"
    using demo_reached by blast
  have k: "backend_ok SQLite" "dp_store demo = store_of SQLite" "0 < e_replayBatch (dp_engine demo)"
    using demo_single by (simp_all add: single_node_def)
  have "at_rest n" by (simp add: at_rest_def n(3))
  moreover have "\<not> is_done (conn_at demo_world 0)" "sessionFor (conn_at demo_world 0) ''doc'' \<noteq> ''b''" by code_simp+
  ultimately show ?thesis using no_change_missed [OF k n(1) _ n(4,5)] n(2) by simp
qed

theorem request_is_a_run_witness:
  "\<exists>n'. reachable demo_accept demo_server demo log_room empty_db n'
     \<and> n_world n' = snd (HandleSync demo_accept demo_server demo demo_aenv 0 9 demo_request [(demo_env, sync_frame)] (new_world (new_estate empty_db)))"
  using request_is_a_run [OF demo_single start, of "[(demo_env, sync_frame)]"]
  by (simp add: new_node_def new_world_def new_estate_def max_i64_def demo_def)

theorem slots_and_queues_witness:
  "h_active (w_hub demo_world) = 2 \<and> length (cn_send (conn_at demo_world 0)) \<le> sendQueueSize"
proof -
  obtain n where n: "reachable demo_accept demo_server demo log_room empty_db n" "n_world n = demo_world"
    using demo_reached by blast
  have "w_conns demo_world 0 = Some (conn_at demo_world 0)" by code_simp
  with slots_and_queues [OF n(1)] n(2) have "length (cn_send (conn_at demo_world 0)) \<le> sendQueueSize" by simp
  moreover have "h_active (w_hub demo_world) = 2" by code_simp
  ultimately show ?thesis by simp
qed

section \<open>A sync does not subscribe\<close>

text \<open>
  C31: A \<^verbatim>\<open>sync\<close> leaves the hub's subscribers as they are, although the protocol's description says that a
  \<^verbatim>\<open>sync\<close> without a prior \<^verbatim>\<open>subscribe\<close> subscribes the connection: such a connection is acknowledged
  its own changes and never receives those of others.
\<close>

theorem sync_does_not_subscribe:
  assumes "dp_broadcast D = hub_broadcaster"
  shows "w_hub (handleSync D e i m w) = w_hub w"
  using assms by (rule hb.sync_hub)

theorem sync_does_not_subscribe_witness:
  "w_hub (handleSync demo demo_env 1 \<lparr>in_Type = TypeSync, in_DocID = ''doc'', in_SessionID = ''b'', in_Payload = [5], in_LastSeq = 0\<rparr> (new_world (new_estate empty_db)))
   = newHub"
  by (subst sync_does_not_subscribe) (simp_all add: demo_def new_world_def)

end
