(* ===== verification/Gotime.thy ===== *)
theory Gotime
  imports Golib Webhook
begin

text \<open>
  What the program uses of package \<^verbatim>\<open>time\<close> beyond \<^const>\<open>RFC3339\<close>: the JSON form of a
  time (\<^verbatim>\<open>MarshalJSON\<close>, \<^verbatim>\<open>UnmarshalJSON\<close>) and \<^verbatim>\<open>time.Parse(time.RFC3339, s)\<close>. A time is its
  nanoseconds since 1970 in UTC.
\<close>

section \<open>Printing\<close>

definition giga :: int where "giga = 1000000000"

definition trim_zeros :: "string \<Rightarrow> string" where
  "trim_zeros s = rev (dropWhile (\<lambda>c. c = CHR ''0'') (rev s))"

definition RFC3339Nano :: "int \<Rightarrow> string" where
  "RFC3339Nano t =
     butlast (RFC3339 (t div giga))
     @ (if t mod giga = 0 then [] else ''.'' @ trim_zeros (pad0 9 (t mod giga))) @ ''Z''"

text \<open>\<^verbatim>\<open>MarshalJSON\<close> refuses years of more than four digits.\<close>

definition json_time :: "int \<Rightarrow> json option" where
  "json_time t =
     (case civil_from_days (t div giga div 86400) of (y, m, d) \<Rightarrow>
        if 0 \<le> y \<and> y \<le> 9999 then Some (JStr (RFC3339Nano t)) else None)"

section \<open>Parsing\<close>

definition is_leap :: "int \<Rightarrow> bool" where
  "is_leap y \<longleftrightarrow> y mod 4 = 0 \<and> (y mod 100 \<noteq> 0 \<or> y mod 400 = 0)"

definition daysIn :: "int \<Rightarrow> int \<Rightarrow> int" where
  "daysIn m y = (if m = 2 then (if is_leap y then 29 else 28) else if m \<in> {4, 6, 9, 11} then 30 else 31)"

text \<open>The day number of a civil date, counting years from March.\<close>

definition days_from_civil :: "int \<Rightarrow> int \<Rightarrow> int \<Rightarrow> int" where
  "days_from_civil y m d =
     (let y' = (if m \<le> 2 then y - 1 else y);
          era = y' div 400;
          yoe = y' mod 400;
          mp = (if m > 2 then m - 3 else m + 9);
          doy = (153 * mp + 2) div 5 + d - 1;
          doe = yoe * 365 + yoe div 4 - yoe div 100 + doy
      in era * 146097 + doe - 719468)"

text \<open>\<^verbatim>\<open>getnum\<close>: two digits, or one where the layout is not fixed.\<close>

definition getnum :: "bool \<Rightarrow> string \<Rightarrow> (int \<times> string) option" where
  "getnum fixed s =
     (case s of
        [] \<Rightarrow> None
      | a # rest \<Rightarrow>
          if \<not> is_digit a then None
          else case rest of
              b # rest' \<Rightarrow>
                if is_digit b then Some (int (digits_val 0 [a, b]), rest')
                else if fixed then None else Some (int (digits_val 0 [a]), rest)
            | [] \<Rightarrow> if fixed then None else Some (int (digits_val 0 [a]), []))"

definition expect :: "char \<Rightarrow> string \<Rightarrow> string option" where
  "expect c s = (case s of x # rest \<Rightarrow> if x = c then Some rest else None | [] \<Rightarrow> None)"

definition getyear :: "string \<Rightarrow> (int \<times> string) option" where
  "getyear s =
     (if 4 \<le> length s \<and> list_all is_digit (take 4 s) then Some (int (digits_val 0 (take 4 s)), drop 4 s) else None)"

text \<open>The fraction that may follow the seconds, at most nine digits of it, as nanoseconds.\<close>

definition getfrac :: "string \<Rightarrow> int \<times> string" where
  "getfrac s =
     (case s of
        c # x # rest \<Rightarrow>
          if (c = CHR ''.'' \<or> c = CHR '','') \<and> is_digit x
          then (let ds = takeWhile is_digit (x # rest); k = take 9 ds
                in (int (digits_val 0 k) * 10 ^ (9 - length k), drop (length ds) (x # rest)))
          else (0, s)
      | _ \<Rightarrow> (0, s))"

text \<open>\<^verbatim>\<open>Z07:00\<close>: the offset in seconds.\<close>

definition getzone :: "string \<Rightarrow> (int \<times> string) option" where
  "getzone s =
     (case s of
        [] \<Rightarrow> None
      | c # rest \<Rightarrow>
          if c = CHR ''Z'' then Some (0, rest)
          else if c = CHR ''+'' \<or> c = CHR ''-''
          then (case getnum True rest of None \<Rightarrow> None
            | Some (h, r1) \<Rightarrow>
                (case expect CHR '':'' r1 of None \<Rightarrow> None
                 | Some r2 \<Rightarrow>
                     (case getnum True r2 of None \<Rightarrow> None
                      | Some (m, r3) \<Rightarrow>
                          if 24 < h \<or> 60 < m then None
                          else Some ((if c = CHR ''-'' then -1 else 1) * (h * 3600 + m * 60), r3))))
          else None)"

text \<open>A field and the separator after it.\<close>

definition field_sep :: "(int \<times> string) option \<Rightarrow> char \<Rightarrow> (int \<times> string) option" where
  "field_sep r c = (case r of None \<Rightarrow> None | Some (n, s) \<Rightarrow> map_option (Pair n) (expect c s))"

definition parse_date :: "string \<Rightarrow> (int \<times> string) option" where
  "parse_date s =
     (case field_sep (getyear s) CHR ''-'' of None \<Rightarrow> None
      | Some (y, s1) \<Rightarrow>
          (case field_sep (getnum True s1) CHR ''-'' of None \<Rightarrow> None
           | Some (m, s2) \<Rightarrow>
               (case field_sep (getnum True s2) CHR ''T'' of None \<Rightarrow> None
                | Some (d, s3) \<Rightarrow>
                    if 1 \<le> m \<and> m \<le> 12 \<and> 1 \<le> d \<and> d \<le> daysIn m y then Some (days_from_civil y m d, s3) else None)))"

definition parse_clock :: "string \<Rightarrow> (int \<times> string) option" where
  "parse_clock s =
     (case field_sep (getnum False s) CHR '':'' of None \<Rightarrow> None
      | Some (h, s1) \<Rightarrow>
          (case field_sep (getnum True s1) CHR '':'' of None \<Rightarrow> None
           | Some (m, s2) \<Rightarrow>
               (case getnum True s2 of None \<Rightarrow> None
                | Some (sec, s3) \<Rightarrow>
                    if h < 24 \<and> m < 60 \<and> sec < 60 then Some (h * 3600 + m * 60 + sec, s3) else None)))"

text \<open>\<^verbatim>\<open>time.Parse(time.RFC3339, s)\<close>.\<close>

definition Parse_RFC3339 :: "string \<Rightarrow> int option" where
  "Parse_RFC3339 s =
     (case parse_date s of None \<Rightarrow> None
      | Some (days, s1) \<Rightarrow>
          (case parse_clock s1 of None \<Rightarrow> None
           | Some (secs, s2) \<Rightarrow>
               (case getfrac s2 of (ns, s3) \<Rightarrow>
                  (case getzone s3 of
                     Some (off, []) \<Rightarrow> Some ((days * 86400 + secs - off) * giga + ns)
                   | _ \<Rightarrow> None))))"

text \<open>
  \<^verbatim>\<open>UnmarshalJSON\<close>: as \<^const>\<open>Parse_RFC3339\<close>, with two digits for the hour, no comma before the
  fraction and an offset below 24:60.
\<close>

definition strict_RFC3339 :: "string \<Rightarrow> int option" where
  "strict_RFC3339 s =
     (if s ! 12 = CHR '':'' \<or> s ! 19 = CHR '','' then None
      else if last s \<noteq> CHR ''Z''
        \<and> (digits_val 0 (take 2 (drop (length s - 5) s)) \<ge> 24 \<or> digits_val 0 (drop (length s - 2) s) \<ge> 60) then None
      else Parse_RFC3339 s)"

definition dec_time :: "json \<Rightarrow> int \<Rightarrow> int option" where
  "dec_time j old =
     (case j of JStr s \<Rightarrow> (if Parse_RFC3339 s = None then None else strict_RFC3339 s) | JNull \<Rightarrow> Some old | _ \<Rightarrow> None)"

text \<open>The zero time, year 1.\<close>

definition zero_time :: int where
  "zero_time = - 62135596800 * giga"

end
