(* ===== verification/Cluster.thy ===== *)
theory Cluster
  imports Connection Gotime
begin

text \<open>
  \<^verbatim>\<open>internal/cluster\<close>: a node publishes every committed change on the document's Redis
  channel, delivers the changes of other nodes to its own hub, subscribes to the channels
  of the documents it serves, and keeps an entry in the node registry. Redis and its
  client library are the parameter \<open>redis\<close>; what the node does to Redis because of the
  server is the server's trace, run by \<open>run_outside\<close>.
\<close>

section \<open>The Redis client (redis.go)\<close>

text \<open>The calls the node makes, on a state of the service; \<open>Inr None\<close> of a \<^verbatim>\<open>GET\<close> is \<^verbatim>\<open>redis.Nil\<close>.\<close>

record 'r redis =
  rd_ParseURL :: "string \<Rightarrow> goerr option"
  rd_Ping :: "'r \<Rightarrow> goerr option"
  rd_Publish :: "string \<Rightarrow> string \<Rightarrow> 'r \<Rightarrow> goerr option \<times> 'r"
  rd_Subscribe :: "string \<Rightarrow> 'r \<Rightarrow> goerr option \<times> 'r"
  rd_Unsubscribe :: "string \<Rightarrow> 'r \<Rightarrow> goerr option \<times> 'r"
  rd_Set :: "string \<Rightarrow> string \<Rightarrow> int \<Rightarrow> 'r \<Rightarrow> goerr option \<times> 'r"
  rd_Scan :: "string \<Rightarrow> 'r \<Rightarrow> string list \<times> goerr option"
  rd_Get :: "string \<Rightarrow> 'r \<Rightarrow> string option res"
  rd_Del :: "string \<Rightarrow> 'r \<Rightarrow> goerr option \<times> 'r"
  rd_Close :: "'r \<Rightarrow> goerr option \<times> 'r"

definition docChannelPrefix :: string where "docChannelPrefix = ''opensynccrdt:doc:''"
definition nodeKeyPrefix :: string where "nodeKeyPrefix = ''opensynccrdt:nodes:''"

definition docChannel :: "string \<Rightarrow> string" where "docChannel docID = docChannelPrefix @ docID"
definition nodeKey :: "string \<Rightarrow> string" where "nodeKey nodeID = nodeKeyPrefix @ nodeID"

definition dialRedis :: "'r redis \<Rightarrow> string \<Rightarrow> 'r \<Rightarrow> goerr option" where
  "dialRedis R url r =
     (case rd_ParseURL R url of
        Some err \<Rightarrow> Some (Wrap ''parse redis url: '' err [])
      | None \<Rightarrow> (case rd_Ping R r of Some err \<Rightarrow> Some (Wrap ''ping redis: '' err []) | None \<Rightarrow> None))"

definition ttlDuration :: "int \<Rightarrow> int" where "ttlDuration ttlSeconds = i64 (ttlSeconds * second)"

definition setNode :: "'r redis \<Rightarrow> string \<Rightarrow> string \<Rightarrow> int \<Rightarrow> 'r \<Rightarrow> goerr option \<times> 'r" where
  "setNode R key val ttl r = rd_Set R key val (ttlDuration ttl) r"

text \<open>The loop of \<^verbatim>\<open>listNodeValues\<close>: a key that expired since the scan is skipped.\<close>

fun get_values :: "'r redis \<Rightarrow> string list \<Rightarrow> 'r \<Rightarrow> string list res" where
  "get_values R [] r = Inr []"
| "get_values R (k # ks) r =
     (case rd_Get R k r of
        Inl err \<Rightarrow> Inl err
      | Inr None \<Rightarrow> get_values R ks r
      | Inr (Some v) \<Rightarrow> bindE (get_values R ks r) (\<lambda>vs. Inr (v # vs)))"

definition listNodeValues :: "'r redis \<Rightarrow> 'r \<Rightarrow> string list res" where
  "listNodeValues R r =
     (case rd_Scan R (nodeKeyPrefix @ ''*'') r of (ks, serr) \<Rightarrow>
        bindE (get_values R ks r) (\<lambda>vs. case serr of Some err \<Rightarrow> Inl err | None \<Rightarrow> Inr vs))"

section \<open>Messages and registry entries (node.go)\<close>

record NodeInfo =
  ni_ID :: string
  ni_Addr :: string
  ni_StartedAt :: int

record wireMsg =
  wm_Origin :: string
  wm_DocID :: string
  wm_FromSession :: string
  wm_Seq :: int
  wm_Payload :: bytes

definition json_of_wireMsg :: "wireMsg \<Rightarrow> json" where
  "json_of_wireMsg m = JObj
     [(''origin'', JStr (wm_Origin m)), (''doc_id'', JStr (wm_DocID m)), (''from_session'', JStr (wm_FromSession m)),
      (''seq'', JInt (wm_Seq m)), (''payload'', JBytes (wm_Payload m))]"

definition set_wire_field :: "string \<times> json \<Rightarrow> wireMsg \<Rightarrow> wireMsg option" where
  "set_wire_field kv m =
     (let k = ToLower (fst kv); j = snd kv in
      if k = ''origin'' then map_option (\<lambda>s. m\<lparr>wm_Origin := s\<rparr>) (dec_string j (wm_Origin m))
      else if k = ''doc_id'' then map_option (\<lambda>s. m\<lparr>wm_DocID := s\<rparr>) (dec_string j (wm_DocID m))
      else if k = ''from_session'' then map_option (\<lambda>s. m\<lparr>wm_FromSession := s\<rparr>) (dec_string j (wm_FromSession m))
      else if k = ''seq'' then map_option (\<lambda>n. m\<lparr>wm_Seq := n\<rparr>) (dec_int64 j (wm_Seq m))
      else if k = ''payload'' then map_option (\<lambda>b. m\<lparr>wm_Payload := b\<rparr>) (dec_bytes j)
      else Some m)"

text \<open>The members of an object into a struct, one after the other.\<close>

fun set_fields :: "(string \<times> json \<Rightarrow> 'a \<Rightarrow> 'a option) \<Rightarrow> (string \<times> json) list \<Rightarrow> 'a \<Rightarrow> 'a option" where
  "set_fields f [] x = Some x"
| "set_fields f (kv # kvs) x = (case f kv x of None \<Rightarrow> None | Some y \<Rightarrow> set_fields f kvs y)"

definition unmarshal_struct :: "(string \<times> json \<Rightarrow> 'a \<Rightarrow> 'a option) \<Rightarrow> 'a \<Rightarrow> json \<Rightarrow> 'a option" where
  "unmarshal_struct f zero j = (case j of JObj ms \<Rightarrow> set_fields f ms zero | JNull \<Rightarrow> Some zero | _ \<Rightarrow> None)"

definition zero_wire :: wireMsg where
  "zero_wire = \<lparr>wm_Origin = [], wm_DocID = [], wm_FromSession = [], wm_Seq = 0, wm_Payload = []\<rparr>"

definition unmarshal_wire :: "string \<Rightarrow> wireMsg option" where
  "unmarshal_wire text = Option.bind (json_parse text) (unmarshal_struct set_wire_field zero_wire)"

text \<open>A registry entry; \<^verbatim>\<open>json.Marshal\<close> fails for a start time outside the four-digit years.\<close>

definition json_of_NodeInfo :: "NodeInfo \<Rightarrow> json option" where
  "json_of_NodeInfo i =
     map_option (\<lambda>t. JObj [(''id'', JStr (ni_ID i)), (''addr'', JStr (ni_Addr i)), (''started_at'', t)])
       (json_time (ni_StartedAt i))"

definition set_info_field :: "string \<times> json \<Rightarrow> NodeInfo \<Rightarrow> NodeInfo option" where
  "set_info_field kv i =
     (let k = ToLower (fst kv); j = snd kv in
      if k = ''id'' then map_option (\<lambda>s. i\<lparr>ni_ID := s\<rparr>) (dec_string j (ni_ID i))
      else if k = ''addr'' then map_option (\<lambda>s. i\<lparr>ni_Addr := s\<rparr>) (dec_string j (ni_Addr i))
      else if k = ''started_at'' then map_option (\<lambda>t. i\<lparr>ni_StartedAt := t\<rparr>) (dec_time j (ni_StartedAt i))
      else Some i)"

definition unmarshal_info :: "string \<Rightarrow> NodeInfo option" where
  "unmarshal_info text =
     Option.bind (json_parse text)
       (unmarshal_struct set_info_field \<lparr>ni_ID = [], ni_Addr = [], ni_StartedAt = zero_time\<rparr>)"

section \<open>The node\<close>

definition nodeTTL :: int where "nodeTTL = 30 * second"
definition heartbeatInterval :: int where "heartbeatInterval = 10 * second"

record Node =
  nd_id :: string
  nd_addr :: string
  nd_startedAt :: int

definition register :: "'r redis \<Rightarrow> Node \<Rightarrow> 'r \<Rightarrow> goerr option \<times> 'r" where
  "register R n r =
     (case json_of_NodeInfo \<lparr>ni_ID = nd_id n, ni_Addr = nd_addr n, ni_StartedAt = nd_startedAt n\<rparr> of
        None \<Rightarrow> (Some JsonErr, r)
      | Some j \<Rightarrow> setNode R (nodeKey (nd_id n)) (show_json j) (go_quot nodeTTL second) r)"

text \<open>\<^verbatim>\<open>New\<close>: the node and the state of Redis, or the error; on an error the client is closed.\<close>

definition cluster_New :: "'r redis \<Rightarrow> string \<Rightarrow> string \<Rightarrow> string \<Rightarrow> int \<Rightarrow> 'r \<Rightarrow> Node res \<times> 'r" where
  "cluster_New R url nodeID addr t r =
     (case dialRedis R url r of
        Some err \<Rightarrow> (Inl err, r)
      | None \<Rightarrow>
          (let n = \<lparr>nd_id = nodeID, nd_addr = addr, nd_startedAt = t\<rparr> in
           case register R n r of
             (Some err, r1) \<Rightarrow> (Inl (Wrap ''register node: '' err []), snd (rd_Close R r1))
           | (None, r1) \<Rightarrow> (Inr n, r1)))"

text \<open>One refresh for each tick; a failure is logged.\<close>

fun heartbeatLoop :: "'r redis \<Rightarrow> Node \<Rightarrow> nat \<Rightarrow> 'r \<Rightarrow> 'r" where
  "heartbeatLoop R n 0 r = r"
| "heartbeatLoop R n (Suc ticks) r = heartbeatLoop R n ticks (snd (register R n r))"

definition OnDocActive :: "'r redis \<Rightarrow> string \<Rightarrow> 'r \<Rightarrow> 'r" where
  "OnDocActive R docID r = snd (rd_Subscribe R (docChannel docID) r)"

definition OnDocInactive :: "'r redis \<Rightarrow> string \<Rightarrow> 'r \<Rightarrow> 'r" where
  "OnDocInactive R docID r = snd (rd_Unsubscribe R (docChannel docID) r)"

definition Nodes :: "'r redis \<Rightarrow> 'r \<Rightarrow> NodeInfo list res" where
  "Nodes R r = bindE (listNodeValues R r) (\<lambda>vs. Inr (List.map_filter unmarshal_info vs))"

definition cluster_Close :: "'r redis \<Rightarrow> Node \<Rightarrow> 'r \<Rightarrow> goerr option \<times> 'r" where
  "cluster_Close R n r = rd_Close R (snd (rd_Del R (nodeKey (nd_id n)) r))"

text \<open>
  \<^verbatim>\<open>Broadcast\<close>: the local hub first, then the channel. The message is published whether or not the call
  succeeds; a failure is logged.
\<close>

definition Node_Broadcast ::
  "Node \<Rightarrow> (nat \<Rightarrow> outmsg \<Rightarrow> bool) \<Rightarrow> string \<Rightarrow> string \<Rightarrow> ServerSync \<Rightarrow> ('s, 'd) world \<Rightarrow> ('s, 'd) world" where
  "Node_Broadcast n pick docID exceptSession msg w =
     outside [Published (docChannel docID)
         (show_json (json_of_wireMsg \<lparr>wm_Origin = nd_id n, wm_DocID = docID, wm_FromSession = ss_FromSession msg,
            wm_Seq = ss_Seq msg, wm_Payload = ss_Payload msg\<rparr>))]
       (hub_broadcaster pick docID exceptSession msg w)"

text \<open>One message of the receive loop, and the loop over those that arrive.\<close>

definition receive_message :: "Node \<Rightarrow> (nat \<Rightarrow> outmsg \<Rightarrow> bool) \<Rightarrow> string \<Rightarrow> ('s, 'd) world \<Rightarrow> ('s, 'd) world" where
  "receive_message n pick text w =
     (case unmarshal_wire text of
        None \<Rightarrow> w
      | Some wm \<Rightarrow>
          if wm_Origin wm = nd_id n then w
          else hub_broadcaster pick (wm_DocID wm) (wm_FromSession wm)
            (NewServerSync (wm_DocID wm) (wm_FromSession wm) (wm_Seq wm) (wm_Payload wm)) w)"

fun receiveLoop :: "Node \<Rightarrow> (nat \<Rightarrow> outmsg \<Rightarrow> bool) \<Rightarrow> (string \<times> string) list \<Rightarrow> ('s, 'd) world \<Rightarrow> ('s, 'd) world" where
  "receiveLoop n pick [] w = w"
| "receiveLoop n pick ((channel, text) # ms) w = receiveLoop n pick ms (receive_message n pick text w)"

text \<open>What the server's calls out do to Redis.\<close>

fun run_outside :: "'r redis \<Rightarrow> outside \<Rightarrow> 'r \<Rightarrow> 'r" where
  "run_outside R (Published channel text) r = snd (rd_Publish R channel text r)"
| "run_outside R (DocActive d) r = OnDocActive R d r"
| "run_outside R (DocInactive d) r = OnDocInactive R d r"
| "run_outside R (Sent fx) r = r"

text \<open>A node is a broadcaster too.\<close>

interpretation nb: broadcaster "Node_Broadcast n" for n
  by unfold_locales (simp_all add: Node_Broadcast_def outside_def hub_broadcaster_def)

end
