(* ===== verification/Cluster_Props.thy ===== *)
theory Cluster_Props
  imports Cluster Engine_Props
begin

text \<open>
  What clustering gives: a change published by one node is delivered by every other as it
  was delivered locally and is never published again, and the channels a node listens to
  are those of the documents it serves. And where it falls short: the order of the
  observer's notifications, and the cached documents of the other nodes.
\<close>

section \<open>Delivery across nodes\<close>

lemma ToLower_wire_keys [simp]:
  "ToLower ''origin'' = ''origin''" "ToLower ''from_session'' = ''from_session''" "ToLower ''seq'' = ''seq''"
  by (simp_all add: ToLower_def lower_char_def)

lemma unmarshal_marshal_wire:
  assumes "valid_utf8 (wm_Origin m)" "valid_utf8 (wm_DocID m)" "valid_utf8 (wm_FromSession m)" "i64_range (wm_Seq m)"
  shows "unmarshal_wire (show_json (json_of_wireMsg m)) = Some m"
proof -
  have "json_ok (json_of_wireMsg m)" using assms by (simp add: json_of_wireMsg_def i64_range_def)
  then have "json_parse (show_json (json_of_wireMsg m)) = Some (json_of_wireMsg m)" by (rule json_roundtrip)
  moreover have "unmarshal_struct set_wire_field zero_wire (json_of_wireMsg m) = Some m"
    using assms by (simp add: unmarshal_struct_def json_of_wireMsg_def set_wire_field_def zero_wire_def)
  ultimately show ?thesis by (simp add: unmarshal_wire_def)
qed

text \<open>
  C13: What one node publishes, every other node delivers. The broadcast of a committed change
  delivers it to the node's own subscribers as a single node would and publishes one text
  on the document's channel. A node that receives this text makes the same local broadcast,
  of the same message with the same sender excluded, unless it is the publisher itself,
  which ignores it; and receiving publishes nothing, so there are no loops.
\<close>

theorem cluster_delivery:
  assumes "valid_utf8 (nd_id a)" "valid_utf8 d" "valid_utf8 s" "i64_range q"
    and "w1 = Node_Broadcast a pick d s (NewServerSync d s q p) w"
  shows "w_conns w1 = w_conns (hub_broadcaster pick d s (NewServerSync d s q p) w)
     \<and> (\<exists>text. w_trace w1 = w_trace w @ [Published (docChannel d) text]
          \<and> (\<forall>b pick' w'. receive_message b pick' text w' =
               (if nd_id b = nd_id a then w' else hub_broadcaster pick' d s (NewServerSync d s q p) w'))
          \<and> (\<forall>b pick' w'. w_trace (receive_message b pick' text w') = w_trace w'))"
proof -
  let ?m = "\<lparr>wm_Origin = nd_id a, wm_DocID = d, wm_FromSession = s, wm_Seq = q, wm_Payload = p\<rparr>"
  have "unmarshal_wire (show_json (json_of_wireMsg ?m)) = Some ?m"
    using assms(1-4) by (intro unmarshal_marshal_wire) simp_all
  moreover have "w_trace w1 = w_trace w @ [Published (docChannel d) (show_json (json_of_wireMsg ?m))]"
    "w_conns w1 = w_conns (hub_broadcaster pick d s (NewServerSync d s q p) w)"
    by (simp_all add: assms(5) Node_Broadcast_def outside_def hub_broadcaster_def NewServerSync_def)
  ultimately show ?thesis
    by (intro conjI exI [of _ "show_json (json_of_wireMsg ?m)"]) (auto simp: receive_message_def hub_broadcaster_def)
qed

text \<open>Two nodes; the second serves one connection that is subscribed to the document.\<close>

definition node_a :: Node where "node_a = \<lparr>nd_id = ''a'', nd_addr = ''10.0.0.1:8080'', nd_startedAt = 0\<rparr>"
definition node_b :: Node where "node_b = \<lparr>nd_id = ''b'', nd_addr = ''10.0.0.2:8080'', nd_startedAt = 0\<rparr>"

definition serving_world :: "(db, bytes list) world" where
  "serving_world =
     \<lparr>w_hub = fst (subscribe ''doc'' 0 newHub), w_conns = [0 \<mapsto> (newConn JSONCodec no_identity [] 0)\<lparr>cn_subs := [(''doc'', ''bob'')]\<rparr>],
      w_engine = new_estate empty_db, w_metrics = metrics_New, w_cache = Map.empty, w_trace = [], w_next = 1\<rparr>"

theorem cluster_delivery_witness:
  "\<exists>text. w_trace (Node_Broadcast node_a (\<lambda>_ _. True) ''doc'' ''ann'' (NewServerSync ''doc'' ''ann'' 1 [5]) serving_world)
        = [Published ''opensynccrdt:doc:doc'' text]
      \<and> cn_send (conn_at (receive_message node_b (\<lambda>_ _. True) text serving_world) 0)
        = [Encode JSONCodec (OutSync (NewServerSync ''doc'' ''ann'' 1 [5]))]"
proof -
  let ?w = "hub_broadcaster (\<lambda>_ _. True) ''doc'' ''ann'' (NewServerSync ''doc'' ''ann'' 1 [5]) serving_world"
  have "valid_utf8 (nd_id node_a)" "valid_utf8 ''doc''" "valid_utf8 ''ann''" "i64_range 1"
    by (simp_all add: node_a_def i64_range_def max_i64_def)
  from cluster_delivery [OF this refl, of "\<lambda>_ _. True" "[5]" serving_world] obtain tx where
    1: "w_trace (Node_Broadcast node_a (\<lambda>_ _. True) ''doc'' ''ann'' (NewServerSync ''doc'' ''ann'' 1 [5]) serving_world)
       = w_trace serving_world @ [Published (docChannel ''doc'') tx]"
    and 2: "\<forall>b pick' w'. receive_message b pick' tx w' =
       (if nd_id b = nd_id node_a then w' else hub_broadcaster pick' ''doc'' ''ann'' (NewServerSync ''doc'' ''ann'' 1 [5]) (w' :: (db, bytes list) world))"
    by blast
  have "receive_message node_b (\<lambda>_ _. True) tx serving_world = ?w"
    unfolding spec [OF spec [OF spec [OF 2]]] by (simp add: node_a_def node_b_def)
  moreover have "cn_send (conn_at ?w 0) = [Encode JSONCodec (OutSync (NewServerSync ''doc'' ''ann'' 1 [5]))]" by code_simp
  ultimately show ?thesis using 1 by (intro exI [of _ tx]) (simp add: serving_world_def docChannel_def docChannelPrefix_def)
qed

section \<open>Channels and served documents\<close>

text \<open>The documented behaviour of \<^verbatim>\<open>SUBSCRIBE\<close> and \<^verbatim>\<open>UNSUBSCRIBE\<close>, for a service that answers.\<close>

definition pubsub_laws :: "'r redis \<Rightarrow> ('r \<Rightarrow> string set) \<Rightarrow> bool" where
  "pubsub_laws R chans \<longleftrightarrow>
     (\<forall>c r. chans (snd (rd_Subscribe R c r)) = insert c (chans r))
     \<and> (\<forall>c r. chans (snd (rd_Unsubscribe R c r)) = chans r - {c})
     \<and> (\<forall>c m r. chans (snd (rd_Publish R c m r)) = chans r)"

lemma docChannel_inj: "inj docChannel"
  by (rule injI) (simp add: docChannel_def)

definition active_docs :: "hub \<Rightarrow> string set" where
  "active_docs h = {d. targets h d \<noteq> []}"

definition follows :: "('r \<Rightarrow> string set) \<Rightarrow> hub \<Rightarrow> 'r \<Rightarrow> bool" where
  "follows chans h r \<longleftrightarrow> hub_ok h \<and> chans r = docChannel ` active_docs h"

lemma active_dom: "docs_ok_hub docs \<Longrightarrow> h_docs h = docs \<Longrightarrow> active_docs h = dom docs"
  by (auto simp: active_docs_def targets_def docs_ok_hub_def split: option.splits)

lemma remove_from_emptied:
  "set (snd (remove_from c ds docs)) = dom docs - dom (fst (remove_from c ds docs))"
proof (induction ds arbitrary: docs)
  case (Cons d ds)
  have sub: "dom (fst (remove_from c ds docs')) \<subseteq> dom docs'" for docs'
  proof (induction ds arbitrary: docs')
    case (Cons x xs)
    have "dom (drop_one c x docs') \<subseteq> dom docs'" by (auto simp: drop_one_def split: option.splits if_splits)
    with Cons.IH show ?case unfolding remove_from_Cons by blast
  qed simp
  show ?case
  proof (cases "docs d")
    case (Some cs)
    show ?thesis
    proof (cases "filter (\<lambda>x. x \<noteq> c) cs = []")
      case True
      let ?rm = "remove_from c ds (docs(d := None))"
      have "dom (docs(d := None)) = dom docs - {d}" by simp
      then have "set (snd ?rm) = dom docs - {d} - dom (fst ?rm)" unfolding Cons.IH by (rule arg_cong)
      moreover have "remove_from c (d # ds) docs = (fst ?rm, d # snd ?rm)" using Some True by (simp add: case_prod_beta Let_def)
      moreover have "d \<in> dom docs" "d \<notin> dom (fst ?rm)" using Some sub [of "docs(d := None)"] by auto
      ultimately show ?thesis by auto
    next
      case False
      then have "dom (docs(d \<mapsto> filter (\<lambda>x. x \<noteq> c) cs)) = dom docs" using Some by auto
      moreover have "remove_from c (d # ds) docs = remove_from c ds (docs(d \<mapsto> filter (\<lambda>x. x \<noteq> c) cs))"
        using False Some by (simp add: Let_def)
      ultimately show ?thesis by (simp only: Cons.IH)
    qed
  qed (simp add: Cons.IH)
qed simp

lemma fold_inactive:
  "pubsub_laws R chans \<Longrightarrow> chans (fold (run_outside R) (map DocInactive ds) r) = chans r - docChannel ` set ds"
  by (induction ds arbitrary: r) (auto simp: pubsub_laws_def OnDocInactive_def)

text \<open>
  The part of \<^verbatim>\<open>hub.subscribe\<close> and of \<^verbatim>\<open>hub.deregister\<close> that runs under the hub's lock: the new hub
  and the notifications that are left to be made when the lock is released.
\<close>

definition subscribe_locked :: "nat \<Rightarrow> string \<Rightarrow> hub \<Rightarrow> hub \<times> outside list" where
  "subscribe_locked cid d h = (case subscribe d cid h of (h', first) \<Rightarrow> (h', if first then [DocActive d] else []))"

definition deregister_locked :: "nat \<Rightarrow> conn \<Rightarrow> hub \<Rightarrow> hub \<times> outside list" where
  "deregister_locked cid c h = (case deregister cid c h of (h', emptied) \<Rightarrow> (h', map DocInactive emptied))"

text \<open>The channels follow the hub once the notifications of a change are made.\<close>

lemma subscribe_follows:
  assumes "pubsub_laws R chans" "follows chans h r" "subscribe_locked cid d h = (h', ns)"
  shows "follows chans h' (fold (run_outside R) ns r)"
proof -
  have ok: "docs_ok_hub (h_docs h)" "hub_ok h" using assms(2) by (simp_all add: follows_def hub_ok_def)
  have "active_docs (fst (subscribe d cid h)) = insert d (active_docs h)"
    using set_targets_subscribe [of d cid h] by (auto simp: active_docs_def simp flip: set_empty split: if_splits)
  moreover have "snd (subscribe d cid h) \<or> d \<in> active_docs h"
    using active_dom [OF ok(1) refl] by (auto simp: subscribe_def Let_def)
  ultimately show ?thesis
    using assms subscribe_ok [OF ok(2), of d cid]
    by (cases "snd (subscribe d cid h)")
       (auto simp: follows_def subscribe_locked_def case_prod_beta pubsub_laws_def OnDocActive_def)
qed

lemma deregister_follows:
  assumes "pubsub_laws R chans" "follows chans h r" "deregister_locked cid c h = (h', ns)"
  shows "follows chans h' (fold (run_outside R) ns r)"
proof -
  have ok: "docs_ok_hub (h_docs h)" "hub_ok h" using assms(2) by (simp_all add: follows_def hub_ok_def)
  let ?rm = "remove_from cid (map fst (subscriptions c)) (h_docs h)"
  have h': "h_docs (fst (deregister cid c h)) = fst ?rm" "snd (deregister cid c h) = snd ?rm"
    by (simp_all add: deregister_def case_prod_beta)
  have "active_docs (fst (deregister cid c h)) = dom (fst ?rm)"
    by (rule active_dom [OF remove_from_ok [OF ok(1)] h'(1)])
  moreover have "dom (fst ?rm) = dom (h_docs h) - set (snd ?rm)"
  proof -
    have "dom (fst ?rm) \<subseteq> dom (h_docs h)"
    proof
      fix d
      assume "d \<in> dom (fst ?rm)"
      then have "members (fst ?rm) d \<noteq> []" using remove_from_ok [OF ok(1)] by (auto simp: members_def docs_ok_hub_def)
      then have "members (h_docs h) d \<noteq> []" unfolding remove_from_members by (auto split: if_splits)
      then show "d \<in> dom (h_docs h)" by (auto simp: members_def split: option.splits)
    qed
    then show ?thesis using remove_from_emptied [of cid "map fst (subscriptions c)" "h_docs h"] by blast
  qed
  ultimately have "docChannel ` active_docs (fst (deregister cid c h)) = docChannel ` active_docs h - docChannel ` set (snd ?rm)"
    using docChannel_inj active_dom [OF ok(1) refl] by (simp add: image_set_diff)
  then show ?thesis
    using assms(2,3) fold_inactive [OF assms(1)] deregister_ok [OF ok(2), of cid c] h'(2)
    by (auto simp: follows_def deregister_locked_def case_prod_beta)
qed

text \<open>A change of the hub by a connection whose notifications are made at once.\<close>

datatype hub_op = HSubscribe nat string | HDeregister nat

fun run_hub_op :: "('s, 'd) serverDeps \<Rightarrow> hub_op \<Rightarrow> ('s, 'd) world \<Rightarrow> ('s, 'd) world" where
  "run_hub_op D (HSubscribe cid d) w = hub_subscribe D cid d w"
| "run_hub_op D (HDeregister cid) w = hub_deregister D cid w"

lemma hub_calls_locked:
  assumes "dp_observer D"
  shows "hub_subscribe D cid d w = (case subscribe_locked cid d (w_hub w) of (h, ns) \<Rightarrow> outside ns (w\<lparr>w_hub := h\<rparr>))"
    and "hub_deregister D cid w = (case deregister_locked cid (conn_at w cid) (w_hub w) of (h, ns) \<Rightarrow> outside ns (w\<lparr>w_hub := h\<rparr>))"
  using assms by (simp_all add: hub_subscribe_def hub_deregister_def subscribe_locked_def deregister_locked_def outside_def case_prod_beta)

lemma hub_op_follows:
  assumes "pubsub_laws R chans" "dp_observer D" "follows chans (w_hub w) (fold (run_outside R) (w_trace w) r)"
  shows "follows chans (w_hub (run_hub_op D op w)) (fold (run_outside R) (w_trace (run_hub_op D op w)) r)"
  using subscribe_follows [OF assms(1,3)] deregister_follows [OF assms(1,3)]
  by (cases op) (simp_all add: hub_calls_locked [OF assms(2)] outside_def split: prod.split)

text \<open>
  C19: A node listens to exactly the channels of the documents it serves. After any sequence of
  subscriptions and disconnections, when each notification reaches Redis before the next
  change of the hub, the node's channels are those of the documents with a local
  subscriber: it misses no traffic for them and gets none for others.
\<close>

theorem channels_follow_hub:
  assumes "pubsub_laws R chans" "dp_observer D" "chans r = {}" "w_hub w = newHub" "w_trace w = []"
    and "w' = fold (run_hub_op D) ops w"
  shows "chans (fold (run_outside R) (w_trace w') r) = docChannel ` {d. targets (w_hub w') d \<noteq> []}"
proof -
  have "follows chans (w_hub w') (fold (run_outside R) (w_trace w') r)"
    if "follows chans (w_hub w) (fold (run_outside R) (w_trace w) r)" "w' = fold (run_hub_op D) ops w" for w w'
    using that
  proof (induction ops arbitrary: w)
    case (Cons op ops)
    show ?case by (rule Cons.IH [OF hub_op_follows [OF assms(1,2) Cons.prems(1)]]) (use Cons.prems(2) in simp)
  qed simp
  moreover have "follows chans (w_hub w) (fold (run_outside R) (w_trace w) r)"
    using assms(3-5) by (simp add: follows_def active_docs_def targets_def newHub_def hub_ok_def docs_ok_hub_def)
  ultimately show ?thesis using assms(6) by (auto simp: follows_def active_docs_def)
qed

text \<open>A service in memory: the channels, the messages published, the keys.\<close>

type_synonym mem = "string set \<times> (string \<times> string) list \<times> (string \<times> string) list"

definition mem_redis :: "mem redis" where
  "mem_redis =
     \<lparr>rd_ParseURL = (\<lambda>_. None), rd_Ping = (\<lambda>_. None),
      rd_Publish = (\<lambda>c m (cs, ms, kv). (None, cs, ms @ [(c, m)], kv)),
      rd_Subscribe = (\<lambda>c (cs, ms, kv). (None, insert c cs, ms, kv)),
      rd_Unsubscribe = (\<lambda>c (cs, ms, kv). (None, cs - {c}, ms, kv)),
      rd_Set = (\<lambda>k v ttl (cs, ms, kv). (None, cs, ms, map_put k v kv)),
      rd_Scan = (\<lambda>pat (cs, ms, kv). (filter (\<lambda>k. HasPrefix k (butlast pat)) (map fst kv), None)),
      rd_Get = (\<lambda>k (cs, ms, kv). Inr (map_of kv k)),
      rd_Del = (\<lambda>k (cs, ms, kv). (None, cs, ms, filter (\<lambda>(k', _). k' \<noteq> k) kv)),
      rd_Close = (\<lambda>r. (None, r))\<rparr>"

lemma mem_redis_pubsub: "pubsub_laws mem_redis fst"
  by (simp add: pubsub_laws_def mem_redis_def case_prod_beta)

definition observed :: "(db, bytes list) serverDeps" where
  "observed = \<lparr>dp_store = sqlite_store, dp_automerge = am_set, dp_engine = cfg0, dp_emitter = False, dp_metrics = False,
     dp_observer = True, dp_limits = c_Limits Default, dp_broadcast = Node_Broadcast node_a\<rparr>"

definition two_conns :: "(db, bytes list) world" where
  "two_conns = serving_world\<lparr>w_hub := newHub, w_conns :=
     [0 \<mapsto> (newConn JSONCodec no_identity [] 0)\<lparr>cn_subs := [(''doc'', ''bob''), (''x'', ''bob'')]\<rparr>, 1 \<mapsto> newConn JSONCodec no_identity [] 0]\<rparr>"

theorem channels_follow_hub_witness:
  "fst (fold (run_outside mem_redis)
      (w_trace (fold (run_hub_op observed) [HSubscribe 0 ''doc'', HSubscribe 0 ''x'', HSubscribe 1 ''x'', HDeregister 0] two_conns)) ({}, [], []))
   = {''opensynccrdt:doc:x''}"
proof -
  let ?ops = "[HSubscribe 0 ''doc'', HSubscribe 0 ''x'', HSubscribe 1 ''x'', HDeregister 0]"
  let ?h = "w_hub (fold (run_hub_op observed) ?ops two_conns)"
  have t: "targets ?h d = (if d = ''x'' then [1] else [])" for d
    by (simp add: targets_def two_conns_def hub_subscribe_def hub_deregister_def subscribe_def deregister_def newHub_def
        outside_def observed_def conn_at_def subscriptions_def Let_def)
  have "fst (fold (run_outside mem_redis) (w_trace (fold (run_hub_op observed) ?ops two_conns)) ({}, [], []))
      = docChannel ` {d. targets ?h d \<noteq> []}"
    by (rule channels_follow_hub [OF mem_redis_pubsub _ _ _ _ refl]) (simp_all add: observed_def two_conns_def serving_world_def)
  then show ?thesis unfolding t by (simp add: docChannel_def docChannelPrefix_def)
qed

subsection \<open>The observer's notifications overtake each other\<close>

text \<open>
  The hub with its connections, each served by a goroutine of its own, the notifications each
  goroutine still has to make, and Redis. A goroutine changes the hub under the lock and
  makes its notifications afterwards, one by one, before it goes on; in between, the others
  run.
\<close>

record 'r hub_state =
  hs_hub :: hub
  hs_conns :: conns
  hs_pending :: "nat \<Rightarrow> outside list"
  hs_redis :: 'r

inductive hub_step :: "'r redis \<Rightarrow> 'r hub_state \<Rightarrow> 'r hub_state \<Rightarrow> bool" for R where
  lock_subscribe: "hs_conns s i = Some c \<Longrightarrow> hs_pending s i = [] \<Longrightarrow> subscribe_locked i d (hs_hub s) = (h, ns) \<Longrightarrow>
    hub_step R s (s\<lparr>hs_hub := h, hs_conns := (hs_conns s)(i \<mapsto> c\<lparr>cn_subs := map_put d u (cn_subs c)\<rparr>),
      hs_pending := (hs_pending s)(i := ns)\<rparr>)"
| lock_deregister: "hs_conns s i = Some c \<Longrightarrow> hs_pending s i = [] \<Longrightarrow> deregister_locked i c (hs_hub s) = (h, ns) \<Longrightarrow>
    hub_step R s (s\<lparr>hs_hub := h, hs_conns := (hs_conns s)(i := None), hs_pending := (hs_pending s)(i := ns)\<rparr>)"
| notify: "hs_pending s i = x # xs \<Longrightarrow>
    hub_step R s (s\<lparr>hs_redis := run_outside R x (hs_redis s), hs_pending := (hs_pending s)(i := xs)\<rparr>)"

text \<open>
  The steps there would be if the lock were kept until the notifications are made: while one
  is left, nothing but notifications happens.
\<close>

definition held_step :: "'r redis \<Rightarrow> 'r hub_state \<Rightarrow> 'r hub_state \<Rightarrow> bool" where
  "held_step R s s' \<longleftrightarrow> hub_step R s s' \<and> ((\<forall>k. hs_pending s k = []) \<or> hs_hub s' = hs_hub s \<and> hs_conns s' = hs_conns s)"

definition hub_start :: "'r hub_state \<Rightarrow> bool" where
  "hub_start s \<longleftrightarrow> hs_hub s = newHub \<and> (\<forall>k. hs_pending s k = []) \<and> (\<forall>i c. hs_conns s i = Some c \<longrightarrow> cn_subs c = [])"

text \<open>With the lock held, one goroutine at most has notifications left, and after them the channels are right.\<close>

definition held_ok :: "'r redis \<Rightarrow> ('r \<Rightarrow> string set) \<Rightarrow> 'r hub_state \<Rightarrow> bool" where
  "held_ok R chans s \<longleftrightarrow> (\<exists>i. (\<forall>k. k \<noteq> i \<longrightarrow> hs_pending s k = [])
     \<and> follows chans (hs_hub s) (fold (run_outside R) (hs_pending s i) (hs_redis s)))"

lemma held_ok_changed:
  assumes "\<forall>k. hs_pending s k = []" "follows chans h (fold (run_outside R) ns (hs_redis s))"
  shows "held_ok R chans (s\<lparr>hs_hub := h, hs_conns := cs, hs_pending := (hs_pending s)(i := ns)\<rparr>)"
  unfolding held_ok_def using assms by (intro exI [of _ i]) simp

lemma held_step_ok:
  assumes "pubsub_laws R chans" "held_ok R chans s" "held_step R s s'"
  shows "held_ok R chans s'"
proof -
  obtain i where i: "\<forall>k. k \<noteq> i \<longrightarrow> hs_pending s k = []"
    "follows chans (hs_hub s) (fold (run_outside R) (hs_pending s i) (hs_redis s))" using assms(2) by (auto simp: held_ok_def)
  from assms(3) have "hub_step R s s'" and held: "(\<forall>k. hs_pending s k = []) \<or> hs_hub s' = hs_hub s \<and> hs_conns s' = hs_conns s"
    by (simp_all add: held_step_def)
  then show ?thesis
  proof cases
    case (lock_subscribe j c d h ns u)
    show ?thesis
    proof (cases "\<forall>k. hs_pending s k = []")
      case True
      have "follows chans h (fold (run_outside R) ns (hs_redis s))"
        using subscribe_follows [OF assms(1) _ lock_subscribe(4)] i(2) True by simp
      then show ?thesis unfolding lock_subscribe(1) by (rule held_ok_changed [OF True])
    next
      case False
      with held have "hs_hub s' = hs_hub s" by blast
      then have "h = hs_hub s" using lock_subscribe(1) by simp
      moreover have "h_docs h d \<noteq> None" using lock_subscribe(4) by (auto simp: subscribe_locked_def subscribe_def Let_def)
      ultimately have "ns = []" using lock_subscribe(4) by (auto simp: subscribe_locked_def subscribe_def Let_def)
      then have "hs_pending s' = hs_pending s" using lock_subscribe(1,3) by (simp add: fun_upd_idem)
      then show ?thesis unfolding held_ok_def using i \<open>h = hs_hub s\<close> lock_subscribe(1) by (intro exI [of _ i]) simp
    qed
  next
    case (lock_deregister j c h ns)
    have True: "\<forall>k. hs_pending s k = []" using held lock_deregister(1,2) by (auto simp: fun_eq_iff) (metis option.discI)
    have "follows chans h (fold (run_outside R) ns (hs_redis s))"
      using deregister_follows [OF assms(1) _ lock_deregister(4)] i(2) True by simp
    then show ?thesis unfolding lock_deregister(1) by (rule held_ok_changed [OF True])
  next
    case (notify j x xs)
    then have "j = i" using i(1) by auto
    then show ?thesis unfolding held_ok_def using i notify by (intro exI [of _ i]) simp
  qed
qed

lemma held_reach:
  assumes "pubsub_laws R chans" "(held_step R)\<^sup>*\<^sup>* s s'" "held_ok R chans s" "\<forall>k. hs_pending s' k = []"
  shows "chans (hs_redis s') = docChannel ` {d. targets (hs_hub s') d \<noteq> []}"
proof -
  have "held_ok R chans s'" using assms(2,3)
    by (induction rule: rtranclp_induct) (auto intro: held_step_ok [OF assms(1)])
  then show ?thesis using assms(4) by (auto simp: held_ok_def follows_def active_docs_def)
qed

lemma hub_start_ok:
  assumes "hub_start s" "chans (hs_redis s) = {}"
  shows "held_ok R chans s"
  using assms by (simp add: hub_start_def held_ok_def follows_def active_docs_def targets_def newHub_def hub_ok_def docs_ok_hub_def)

text \<open>The last subscriber leaves, another connection subscribes, and its notification is made first.\<close>

lemma overtaking_run:
  assumes "pubsub_laws R chans" "hub_start s" "hs_conns s i = Some ci" "hs_conns s j = Some cj" "i \<noteq> j"
  shows "\<exists>s'. (hub_step R)\<^sup>*\<^sup>* s s' \<and> (\<forall>k. hs_pending s' k = []) \<and> targets (hs_hub s') d = [j]
     \<and> docChannel d \<notin> chans (hs_redis s')"
proof -
  have s: "hs_hub s = newHub" "hs_pending s k = []" "cn_subs ci = []" for k using assms(2,3) by (auto simp: hub_start_def)
  define h1 where "h1 = newHub\<lparr>h_docs := [d \<mapsto> [i]]\<rparr>"
  define h2 where "h2 = newHub\<lparr>h_docs := [d \<mapsto> [j]]\<rparr>"
  define s1 where "s1 = s\<lparr>hs_hub := h1, hs_conns := (hs_conns s)(i \<mapsto> ci\<lparr>cn_subs := map_put d [] (cn_subs ci)\<rparr>),
    hs_pending := (hs_pending s)(i := [DocActive d])\<rparr>"
  define s2 where "s2 = s1\<lparr>hs_redis := run_outside R (DocActive d) (hs_redis s1), hs_pending := (hs_pending s1)(i := [])\<rparr>"
  define s3 where "s3 = s2\<lparr>hs_hub := newHub, hs_conns := (hs_conns s2)(i := None), hs_pending := (hs_pending s2)(i := [DocInactive d])\<rparr>"
  define s4 where "s4 = s3\<lparr>hs_hub := h2, hs_conns := (hs_conns s3)(j \<mapsto> cj\<lparr>cn_subs := map_put d [] (cn_subs cj)\<rparr>),
    hs_pending := (hs_pending s3)(j := [DocActive d])\<rparr>"
  define s5 where "s5 = s4\<lparr>hs_redis := run_outside R (DocActive d) (hs_redis s4), hs_pending := (hs_pending s4)(j := [])\<rparr>"
  define s6 where "s6 = s5\<lparr>hs_redis := run_outside R (DocInactive d) (hs_redis s5), hs_pending := (hs_pending s5)(i := [])\<rparr>"
  have "hub_step R s s1" unfolding s1_def
    by (rule lock_subscribe) (use assms(3) s in \<open>simp_all add: h1_def subscribe_locked_def subscribe_def newHub_def\<close>)
  moreover have "hub_step R s1 s2" unfolding s2_def by (rule notify) (simp add: s1_def)
  moreover have "hub_step R s2 s3" unfolding s3_def
    by (rule lock_deregister [where c = "ci\<lparr>cn_subs := map_put d [] (cn_subs ci)\<rparr>"])
      (simp_all add: s2_def s1_def h1_def deregister_locked_def deregister_def newHub_def subscriptions_def map_put_def s(3))
  moreover have "hub_step R s3 s4" unfolding s4_def
    by (rule lock_subscribe) (use assms(4,5) s in
      \<open>simp_all add: s3_def s2_def s1_def h2_def subscribe_locked_def subscribe_def newHub_def\<close>)
  moreover have "hub_step R s4 s5" unfolding s5_def by (rule notify) (simp add: s4_def)
  moreover have "hub_step R s5 s6" unfolding s6_def by (rule notify) (use assms(5) in \<open>simp add: s5_def s4_def s3_def\<close>)
  ultimately have "(hub_step R)\<^sup>*\<^sup>* s s6" by (meson converse_rtranclp_into_rtranclp rtranclp.rtrancl_refl)
  moreover have "\<forall>k. hs_pending s6 k = []" using s(2) by (simp add: s6_def s5_def s4_def s3_def s2_def s1_def)
  moreover have "targets (hs_hub s6) d = [j]" by (simp add: s6_def s5_def s4_def h2_def targets_def)
  moreover have "docChannel d \<notin> chans (hs_redis s6)" using assms(1) by (simp add: s6_def pubsub_laws_def OnDocInactive_def)
  ultimately show ?thesis by blast
qed

text \<open>
  C35: The notifications are made after the hub's lock is released, so they can overtake each
  other. From any start with two open connections there is a run of the steps the code
  makes after which no notification is left, the hub has a subscriber of the document, and
  the node has left its channel: the subscriber gets no change of another node. The lock is
  the cause: if it were kept until the notifications are made, then in every run the
  channels would be those of the served documents whenever no notification is left.
\<close>

theorem observer_overtaken:
  assumes "pubsub_laws R chans" "hub_start s" "chans (hs_redis s) = {}"
    and "hs_conns s i = Some ci" "hs_conns s j = Some cj" "i \<noteq> j"
  shows "(\<exists>s'. (hub_step R)\<^sup>*\<^sup>* s s' \<and> (\<forall>k. hs_pending s' k = []) \<and> targets (hs_hub s') d = [j]
       \<and> docChannel d \<notin> chans (hs_redis s'))
     \<and> (\<forall>s'. (held_step R)\<^sup>*\<^sup>* s s' \<longrightarrow> (\<forall>k. hs_pending s' k = []) \<longrightarrow>
          chans (hs_redis s') = docChannel ` {d. targets (hs_hub s') d \<noteq> []})"
  using overtaking_run [OF assms(1,2,4-6), of d] held_reach [OF assms(1) _ hub_start_ok [where chans = chans, OF assms(2,3)]]
  by blast

definition two_open :: "mem hub_state" where
  "two_open = \<lparr>hs_hub = newHub, hs_conns = [0 \<mapsto> newConn JSONCodec no_identity [] 0, 1 \<mapsto> newConn JSONCodec no_identity [] 0],
     hs_pending = (\<lambda>_. []), hs_redis = ({}, [], [])\<rparr>"

theorem observer_overtaken_witness:
  "\<exists>s. (hub_step mem_redis)\<^sup>*\<^sup>* two_open s \<and> hs_pending s 0 = [] \<and> hs_pending s 1 = [] \<and> targets (hs_hub s) ''doc'' = [1]
     \<and> ''opensynccrdt:doc:doc'' \<notin> fst (hs_redis s)"
proof -
  have "hub_start two_open" by (simp add: hub_start_def two_open_def newConn_def)
  moreover have "fst (hs_redis two_open) = {}" "hs_conns two_open 0 = Some (newConn JSONCodec no_identity [] 0)"
    "hs_conns two_open 1 = Some (newConn JSONCodec no_identity [] 0)" by (simp_all add: two_open_def)
  ultimately show ?thesis
    using observer_overtaken [OF mem_redis_pubsub, of two_open 0 _ 1 _ "''doc''"] by (auto simp: docChannel_def docChannelPrefix_def)
qed

section \<open>The registry\<close>

text \<open>
  The documented behaviour of \<^verbatim>\<open>SCAN\<close> and \<^verbatim>\<open>GET\<close> over the keys that are alive, at the one pattern the
  node scans: the registry's prefix, which has no glob character, and a star.
\<close>

definition keys_laws :: "'r redis \<Rightarrow> ('r \<Rightarrow> string \<rightharpoonup> string) \<Rightarrow> bool" where
  "keys_laws R kv \<longleftrightarrow>
     (\<forall>r. snd (rd_Scan R (nodeKeyPrefix @ ''*'') r) = None \<longrightarrow>
        {k. HasPrefix k nodeKeyPrefix \<and> kv r k \<noteq> None} \<subseteq> set (fst (rd_Scan R (nodeKeyPrefix @ ''*'') r))
        \<and> (\<forall>k \<in> set (fst (rd_Scan R (nodeKeyPrefix @ ''*'') r)). HasPrefix k nodeKeyPrefix))
     \<and> (\<forall>k r v. rd_Get R k r = Inr v \<longrightarrow> v = kv r k)"

lemma get_values_set:
  assumes "keys_laws R kv" "get_values R ks r = Inr vs"
  shows "set vs = {v. \<exists>k \<in> set ks. kv r k = Some v}"
  using assms(2)
proof (induction ks arbitrary: vs)
  case (Cons k ks)
  from Cons.prems obtain v where v: "rd_Get R k r = Inr v" by (cases "rd_Get R k r") auto
  then have kv: "v = kv r k" using assms(1) by (simp add: keys_laws_def)
  show ?case
  proof (cases v)
    case None
    with Cons v kv show ?thesis by auto
  next
    case (Some x)
    with Cons.prems v obtain vs' where "get_values R ks r = Inr vs'" "vs = x # vs'" by (auto simp: bindE_Inr_iff)
    with Cons.IH Some kv show ?thesis by auto
  qed
qed simp

text \<open>
  C39: The node list is the registry: when it is returned, it holds exactly the entries of the live
  registry keys that decode; a key that expired during the listing and an entry that is not
  readable are left out without failing the request.
\<close>

theorem nodes_are_registry:
  assumes "keys_laws R kv" "Nodes R r = Inr infos"
  shows "set infos = {i. \<exists>k v. HasPrefix k nodeKeyPrefix \<and> kv r k = Some v \<and> unmarshal_info v = Some i}"
proof -
  obtain ks serr where sc: "rd_Scan R (nodeKeyPrefix @ ''*'') r = (ks, serr)" by fastforce
  from assms(2) sc obtain vs where vs: "get_values R ks r = Inr vs" "serr = None" "infos = List.map_filter unmarshal_info vs"
    by (auto simp: Nodes_def listNodeValues_def bindE_Inr_iff split: option.splits)
  have ks: "{k. HasPrefix k nodeKeyPrefix \<and> kv r k \<noteq> None} \<subseteq> set ks \<and> (\<forall>k \<in> set ks. HasPrefix k nodeKeyPrefix)"
    using conjunct1 [OF assms(1) [unfolded keys_laws_def], THEN spec, of r] sc vs(2) by simp
  have "i \<in> set infos \<longleftrightarrow> (\<exists>v \<in> set vs. unmarshal_info v = Some i)" for i
    by (auto simp: vs(3) List.map_filter_def image_iff)
  also have "(\<exists>v \<in> set vs. unmarshal_info v = Some i) \<longleftrightarrow> (\<exists>k v. HasPrefix k nodeKeyPrefix \<and> kv r k = Some v \<and> unmarshal_info v = Some i)" for i
  proof
    assume "\<exists>v \<in> set vs. unmarshal_info v = Some i"
    then obtain k v where "k \<in> set ks" "kv r k = Some v" "unmarshal_info v = Some i"
      unfolding get_values_set [OF assms(1) vs(1)] by blast
    with ks show "\<exists>k v. HasPrefix k nodeKeyPrefix \<and> kv r k = Some v \<and> unmarshal_info v = Some i" by blast
  next
    assume "\<exists>k v. HasPrefix k nodeKeyPrefix \<and> kv r k = Some v \<and> unmarshal_info v = Some i"
    then obtain k v where k: "HasPrefix k nodeKeyPrefix" "kv r k = Some v" "unmarshal_info v = Some i" by blast
    then have "k \<in> set ks" using ks by auto
    with k show "\<exists>v \<in> set vs. unmarshal_info v = Some i"
      unfolding get_values_set [OF assms(1) vs(1)] by blast
  qed
  finally show ?thesis by blast
qed

lemma mem_redis_keys: "keys_laws mem_redis (\<lambda>r. map_of (snd (snd r)))"
  unfolding keys_laws_def
proof (intro conjI allI impI)
  fix r :: mem
  show "{k. HasPrefix k nodeKeyPrefix \<and> map_of (snd (snd r)) k \<noteq> None} \<subseteq> set (fst (rd_Scan mem_redis (nodeKeyPrefix @ ''*'') r))"
    by (simp add: mem_redis_def case_prod_beta subset_iff map_of_eq_None_iff del: not_None_eq)
  show "\<forall>k \<in> set (fst (rd_Scan mem_redis (nodeKeyPrefix @ ''*'') r)). HasPrefix k nodeKeyPrefix"
    by (simp add: mem_redis_def case_prod_beta)
qed (simp add: mem_redis_def case_prod_beta)

definition two_nodes :: mem where
  "two_nodes = snd (register mem_redis node_b (snd (register mem_redis node_a ({}, [], [(nodeKey ''c'', ''junk''), (''k'', ''v'')]))))"

theorem nodes_are_registry_witness:
  "\<exists>infos. Nodes mem_redis two_nodes = Inr infos \<and> map ni_ID infos = [''a'', ''b'']
     \<and> set infos = {i. \<exists>k v. HasPrefix k nodeKeyPrefix \<and> map_of (snd (snd two_nodes)) k = Some v \<and> unmarshal_info v = Some i}"
proof -
  have "\<not> isl (Nodes mem_redis two_nodes)" "map ni_ID (projr (Nodes mem_redis two_nodes)) = [''a'', ''b'']" by code_simp+
  then obtain infos where 1: "Nodes mem_redis two_nodes = Inr infos" "map ni_ID infos = [''a'', ''b'']"
    by (cases "Nodes mem_redis two_nodes") auto
  have "set infos = {i. \<exists>k v. HasPrefix k nodeKeyPrefix \<and> map_of (snd (snd two_nodes)) k = Some v \<and> unmarshal_info v = Some i}"
    using nodes_are_registry [OF mem_redis_keys 1(1)] by (simp add: case_prod_beta)
  with 1 show ?thesis by (intro exI [of _ infos] conjI)
qed

section \<open>Cached documents of other nodes\<close>

lemma receiveLoop_engine: "w_engine (receiveLoop n pick ms w) = w_engine w"
proof (induction ms arbitrary: w)
  case (Cons m ms)
  obtain ch tx where m: "m = (ch, tx)" by fastforce
  have "w_engine (receive_message n pick tx w) = w_engine w"
    by (simp add: receive_message_def hub_broadcaster_def split: option.split)
  with Cons show ?case by (simp add: m)
qed simp

text \<open>
  C36: A snapshot can lose the acknowledged change of another node. A node never applies the
  changes of other nodes to the documents it has cached, and a snapshot is taken from the
  cache. Two nodes share a database and merge automatically: this node has the document
  cached as \<open>x\<close>, another node commits \<open>pb\<close>, whatever messages this node then receives,
  and this node commits \<open>p\<close> at a number due for a snapshot, which is stored. If \<open>pb\<close> carries
  changes that are in neither \<open>x\<close> nor \<open>p\<close>, then the log has \<open>pb\<close>, and yet every export that an
  engine makes after a restart, while no database call fails, is \<open>x\<close> and \<open>p\<close> without them.
\<close>

theorem cluster_snapshot_loses_change:
  assumes "backend_ok k" "automerge_laws A content changes" "e_resolver c = None"
    and "db_inv (e_store (w_engine w))" "e_docs (w_engine w) d = Some x"
    and "int (length (log_of (db_view (e_store (w_engine w))) d)) + 2 \<le> max_i64"
    and "\<forall>j \<in> dom (snaps_of (db_view (e_store (w_engine w))) d). j \<le> int (length (log_of (db_view (e_store (w_engine w))) d))"
    and "Submit (store_of k) A cb eb d ub uidb pb \<lparr>e_store = e_store (w_engine w), e_docs = docsb\<rparr> = (Inr qb, stb, fxb)"
    and "w1 = receiveLoop n pick ms (w\<lparr>w_engine := (w_engine w)\<lparr>e_store := e_store stb\<rparr>\<rparr>)"
    and "Submit (store_of k) A c e d u uid p (w_engine w1) = (Inr q, st, fx)" "due c q"
    and "fault_free (dbe e)" "fault_free (dbe e')" "\<not> changes pb \<subseteq> content x \<union> changes p"
  shows "(\<exists>o' \<in> set (log_of (db_view (e_store st)) d). op_Seq o' = qb \<and> op_Payload o' = pb)
     \<and> (\<exists>b st' y. Export (store_of k) A e' d (new_estate (e_store st)) = (Inr b, st') \<and> crdt_Load A b = Inr y
          \<and> content y = content x \<union> changes p \<and> \<not> changes pb \<subseteq> content y)"
proof -
  note S = backend_store [OF assms(1)]
  let ?b = "\<lparr>e_store = e_store (w_engine w), e_docs = docsb\<rparr>"
  have eng: "w_engine w1 = (w_engine w)\<lparr>e_store := e_store stb\<rparr>" by (simp add: assms(9) receiveLoop_engine)
  have "int (length (log_of (db_view (e_store ?b)) d)) < max_i64" using assms(6) by simp
  from store.submit_snaps_le [OF S _ this _ assms(8)] assms(4,7) obtain t where b: "db_inv (e_store stb)"
    "log_of (db_view (e_store stb)) d = log_of (db_view (e_store (w_engine w))) d @
       [\<lparr>op_Seq = qb, op_DocID = d, op_SessionID = ub, op_Payload = pb, op_CreatedAt = t\<rparr>]"
    "\<forall>j \<in> dom (snaps_of (db_view (e_store stb)) d). j \<le> int (length (log_of (db_view (e_store stb)) d))" by auto
  have b1: "db_inv (e_store (w_engine w1))" "int (length (log_of (db_view (e_store (w_engine w1))) d)) < max_i64"
    "\<forall>j \<in> dom (snaps_of (db_view (e_store (w_engine w1))) d). j \<le> int (length (log_of (db_view (e_store (w_engine w1))) d))"
    "e_docs (w_engine w1) d = Some x"
    using b assms(5,6) by (simp_all add: eng)
  from store.submit_snaps_le [OF S b1(1-3) assms(10)]
  have "set (log_of (db_view (e_store stb)) d) \<subseteq> set (log_of (db_view (e_store st)) d)" by (auto simp: eng)
  then have "\<exists>o' \<in> set (log_of (db_view (e_store st)) d). op_Seq o' = qb \<and> op_Payload o' = pb"
    unfolding b(2) by (intro bexI [of _ "\<lparr>op_Seq = qb, op_DocID = d, op_SessionID = ub, op_Payload = pb, op_CreatedAt = t\<rparr>"]) auto
  moreover from store.due_export [OF S assms(2,3) b1(1-3) b1(4) assms(10-13), of "new_estate (e_store st)"] obtain b' st' y where
    "Export (store_of k) A e' d (new_estate (e_store st)) = (Inr b', st')" "crdt_Load A b' = Inr y" "content y = content x \<union> changes p"
    by (auto simp: new_estate_def)
  ultimately show ?thesis using assms(14) by auto
qed

text \<open>Three changes of two nodes, the snapshot due at the third.\<close>

definition cfg3 :: Engine where
  "cfg3 = NewEngine \<lparr>o_SnapshotInterval = 3, o_Resolver = None, o_ReplayBatchSize = 0, o_Emitter = True\<rparr>"

definition world_a :: "(db, bytes list) world" where
  "world_a = serving_world\<lparr>w_engine := fst (snd (Submit pg_store am_set cfg3 (calm_e 1) ''doc'' ''ann'' [] [1] (new_estate empty_db)))\<rparr>"

theorem cluster_snapshot_loses_change_witness:
  "\<exists>st b st' y. fst (snd (Submit (store_of Postgres) am_set cfg3 (calm_e 3) ''doc'' ''ann'' [] [3]
       ((w_engine world_a)\<lparr>e_store := e_store (fst (snd (Submit (store_of Postgres) am_set cfg3 (calm_e 2) ''doc'' ''bob'' [] [2]
          \<lparr>e_store = e_store (w_engine world_a), e_docs = Map.empty\<rparr>)))\<rparr>))) = st
     \<and> map op_Payload (log_of (db_view (e_store st)) ''doc'') = [[1], [2], [3]]
     \<and> Export (store_of Postgres) am_set (calm_e 4) ''doc'' (new_estate (e_store st)) = (Inr b, st')
     \<and> crdt_Load am_set b = Inr y \<and> set y = {[1], [3]}"
proof -
  let ?subb = "Submit (store_of Postgres) am_set cfg3 (calm_e 2) ''doc'' ''bob'' [] [2] \<lparr>e_store = e_store (w_engine world_a), e_docs = Map.empty\<rparr>"
  let ?eng = "(w_engine world_a)\<lparr>e_store := e_store (fst (snd ?subb))\<rparr>"
  let ?sub = "Submit (store_of Postgres) am_set cfg3 (calm_e 3) ''doc'' ''ann'' [] [3] ?eng"
  have "fst ?subb = Inr 2" "fst ?sub = Inr 3" by code_simp+
  then have sub: "?subb = (Inr 2, fst (snd ?subb), snd (snd ?subb))" "?sub = (Inr 3, fst (snd ?sub), snd (snd ?sub))"
    by (simp_all add: prod_eq_iff)
  have log: "map op_Payload (log_of (db_view (e_store (fst (snd ?sub)))) ''doc'') = [[1], [2], [3]]" by code_simp
  have len: "length (log_of (db_view (e_store (w_engine world_a))) ''doc'') = 1" by code_simp
  have x: "e_docs (w_engine world_a) ''doc'' = Some [[1]]" by code_simp
  have ok: "backend_ok Postgres" "e_resolver cfg3 = None" "due cfg3 3"
    by (simp_all add: backend_ok_def cfg3_def NewEngine_def due_def)
  have inv: "db_inv (e_store (w_engine world_a))"
    using reach_weak(1) [OF ok(1) am_set_laws ok(2), of "[(calm_e 1, OSubmit ''doc'' ''ann'' [] [1])]"]
    by (simp add: store.eng_ok_def [OF backend_store [OF ok(1)]] world_a_def max_i64_def store_of_def)
  have "snapshots (e_store (w_engine world_a)) = []" by code_simp
  then have sn: "dom (snaps_of (db_view (e_store (w_engine world_a))) ''doc'') = {}"
    using inv by (simp add: snap_rows_def snap_map_def)
  define w1 where "w1 = receiveLoop node_a (\<lambda>_ _. True) [] (world_a\<lparr>w_engine := ?eng\<rparr>)"
  have w1: "w_engine w1 = ?eng" by (simp add: w1_def)
  have n: "int (length (log_of (db_view (e_store (w_engine world_a))) ''doc'')) + 2 \<le> max_i64" by (simp only: len) (simp add: max_i64_def)
  have le: "\<forall>j \<in> dom (snaps_of (db_view (e_store (w_engine world_a))) ''doc'').
      j \<le> int (length (log_of (db_view (e_store (w_engine world_a))) ''doc''))" by (simp only: sn ball_empty)
  have new: "\<not> {[2]} \<subseteq> set [[1]] \<union> {[3] :: bytes}" by simp
  from cluster_snapshot_loses_change [OF ok(1) am_set_laws ok(2) inv x n le sub(1) w1_def
      sub(2) [folded w1] ok(3) calm_e_fault_free calm_e_fault_free new, of 4]
  obtain b st' y where "Export (store_of Postgres) am_set (calm_e 4) ''doc'' (new_estate (e_store (fst (snd ?sub)))) = (Inr b, st')"
    "crdt_Load am_set b = Inr y" "set y = set [[1]] \<union> {[3]}" unfolding w1 by blast
  with log show ?thesis by (intro exI [of _ "fst (snd ?sub)"] exI [of _ b] exI [of _ st'] exI [of _ y] conjI refl) (assumption+, simp add: insert_commute)
qed

end
