(* ===== verification/Api.thy ===== *)
theory Api
  imports Server Cluster Sql
begin

text \<open>
  \<^verbatim>\<open>internal/api\<close>: the management API, the probes and the middleware around them. A handler
  takes the request and the world and returns the response and the world; the routes and
  the choice of one follow \<^verbatim>\<open>http.ServeMux\<close> (methods, wildcards, cleaned paths). Logging is
  left out.
\<close>

section \<open>Responses\<close>

record response =
  rs_Status :: int
  rs_Header :: "(string \<times> string) list"
  rs_Body :: string

text \<open>\<^verbatim>\<open>writeJSON\<close>: a value that \<^verbatim>\<open>encoding/json\<close> refuses leaves the body empty.\<close>

definition writeJSON :: "int \<Rightarrow> json option \<Rightarrow> response" where
  "writeJSON status v =
     \<lparr>rs_Status = status, rs_Header = [(''Content-Type'', ''application/json'')],
      rs_Body = (case v of Some j \<Rightarrow> show_json j @ [CHR 0x0A] | None \<Rightarrow> [])\<rparr>"

definition writeError :: "int \<Rightarrow> string \<Rightarrow> response" where
  "writeError status msg = writeJSON status (Some (JObj [(''error'', JStr msg)]))"

text \<open>\<^verbatim>\<open>http.Error\<close>.\<close>

definition http_Error :: "string \<Rightarrow> int \<Rightarrow> response" where
  "http_Error msg status =
     \<lparr>rs_Status = status,
      rs_Header = [(''Content-Type'', ''text/plain; charset=utf-8''), (''X-Content-Type-Options'', ''nosniff'')],
      rs_Body = msg @ [CHR 0x0A]\<rparr>"

section \<open>Document views (documents.go)\<close>

text \<open>The entries of a map, the first of a key counting.\<close>

definition entries :: "strmap \<Rightarrow> strmap" where
  "entries m = map (\<lambda>k. (k, the (map_of m k))) (remdups (map fst m))"

definition json_of_strmap :: "strmap \<Rightarrow> json" where
  "json_of_strmap m = JObj (map (\<lambda>(k, v). (k, JStr v)) (sort_key fst (entries m)))"

definition millis_time :: "int \<Rightarrow> json option" where
  "millis_time t = json_time (t * 1000000)"

text \<open>\<^verbatim>\<open>toDocView\<close> and the JSON form of the view.\<close>

definition toDocView :: "Document \<Rightarrow> json option" where
  "toDocView d =
     (case (millis_time (doc_CreatedAt d), millis_time (doc_UpdatedAt d)) of
        (Some c, Some u) \<Rightarrow>
          Some (JObj [(''id'', JStr (doc_ID d)), (''metadata'', json_of_strmap (doc_Metadata d)),
            (''latest_seq'', JInt (doc_LatestSeq d)), (''created_at'', c), (''updated_at'', u)])
      | _ \<Rightarrow> None)"

definition opView :: "StoredOp \<Rightarrow> json option" where
  "opView x =
     map_option (\<lambda>t. JObj [(''seq'', JInt (op_Seq x)), (''session_id'', JStr (op_SessionID x)),
         (''payload'', JBytes (op_Payload x)), (''created_at'', t)])
       (millis_time (op_CreatedAt x))"

definition json_list :: "('a \<Rightarrow> json option) \<Rightarrow> 'a list \<Rightarrow> json option" where
  "json_list f xs = map_option JArr (those (map f xs))"

definition atoiDefault :: "string \<Rightarrow> int \<Rightarrow> int" where
  "atoiDefault s def = (if s = [] then def else case ParseInt s of None \<Rightarrow> def | Some n \<Rightarrow> n)"

section \<open>The API (api.go)\<close>

record ('s, 'd) API =
  a_deps :: "('s, 'd) serverDeps"
  a_cfg :: Config
  a_startedAt :: int
  a_nodeID :: string
  a_cluster :: bool

text \<open>
  What a request meets outside: the engine's environment, what the cluster registry answers, the printing of
  a duration in seconds by the verb \<^verbatim>\<open>%g\<close>.
\<close>

record apienv =
  ap_engine :: eenv
  ap_nodes :: "NodeInfo list res"
  ap_fmt_g :: "int \<Rightarrow> string"

type_synonym ('s, 'd) handler = "Request \<Rightarrow> ('s, 'd) world \<Rightarrow> response \<times> ('s, 'd) world"

abbreviation world_store :: "('s, 'd) world \<Rightarrow> 's" where
  "world_store w \<equiv> e_store (w_engine w)"

definition set_store :: "'s \<Rightarrow> ('s, 'd) world \<Rightarrow> ('s, 'd) world" where
  "set_store s w = w\<lparr>w_engine := (w_engine w)\<lparr>e_store := s\<rparr>\<rparr>"

section \<open>Handlers (documents.go)\<close>

text \<open>The body of \<^verbatim>\<open>POST /api/v1/docs\<close>.\<close>

record create_body =
  cb_DocID :: string
  cb_Metadata :: strmap

definition set_create_field :: "string \<times> json \<Rightarrow> create_body \<Rightarrow> create_body option" where
  "set_create_field kv b =
     (let k = ToLower (fst kv); j = snd kv in
      if k = ''doc_id'' then map_option (\<lambda>s. b\<lparr>cb_DocID := s\<rparr>) (dec_string j (cb_DocID b))
      else if k = ''metadata'' then
        (case j of
           JObj ms \<Rightarrow> map_option (\<lambda>m. b\<lparr>cb_Metadata := m\<rparr>) (dec_strmap ms (cb_Metadata b))
         | JNull \<Rightarrow> Some (b\<lparr>cb_Metadata := []\<rparr>)
         | _ \<Rightarrow> None)
      else Some b)"

definition decode_create :: "string \<Rightarrow> create_body option" where
  "decode_create text =
     Option.bind (json_Decode text) (unmarshal_struct set_create_field \<lparr>cb_DocID = [], cb_Metadata = []\<rparr>)"

definition docError :: "goerr \<Rightarrow> response" where
  "docError err =
     (if errors_Is err ErrDocumentNotFound then writeError 404 ''document not found''
      else writeError 500 ''internal error'')"

definition handleCreateDoc :: "('s, 'd) API \<Rightarrow> apienv \<Rightarrow> ('s, 'd) handler" where
  "handleCreateDoc A e r w =
     (case decode_create (r_Body r) of
        None \<Rightarrow> (writeError 400 ''invalid JSON body'', w)
      | Some b \<Rightarrow>
          if cb_DocID b = [] then (writeError 400 ''doc_id is required'', w)
          else
            (case CreateDocument (dp_store (a_deps A)) (dbe (ap_engine e)) (cb_DocID b) (entries (cb_Metadata b)) (world_store w) of
               (Inl err, s) \<Rightarrow>
                 (if errors_Is err ErrDocumentExists then writeError 409 ''document already exists''
                  else writeError 500 ''failed to create document'', set_store s w)
             | (Inr _, s) \<Rightarrow>
                 (case GetDocument (dp_store (a_deps A)) (dbe (ap_engine e)) (cb_DocID b) s of
                    Inl err \<Rightarrow> (writeError 500 ''failed to load created document'', set_store s w)
                  | Inr doc \<Rightarrow> (writeJSON 201 (toDocView doc), set_store s w))))"

text \<open>The filter of a listing, or nothing where \<^verbatim>\<open>updated_since\<close> is no time.\<close>

definition list_filter :: "Request \<Rightarrow> DocumentFilter option" where
  "list_filter r =
     (let f = \<lparr>f_UpdatedSince = None, f_Limit = atoiDefault (Query_Get r ''limit'') 0,
               f_Offset = atoiDefault (Query_Get r ''offset'') 0\<rparr>;
          since = Query_Get r ''updated_since''
      in if since = [] then Some f
         else map_option (\<lambda>t. f\<lparr>f_UpdatedSince := (if t = zero_time then None else Some (t div 1000000))\<rparr>)
           (Parse_RFC3339 since))"

definition handleListDocs :: "('s, 'd) API \<Rightarrow> apienv \<Rightarrow> ('s, 'd) handler" where
  "handleListDocs A e r w =
     (case list_filter r of
        None \<Rightarrow> (writeError 400 ''updated_since must be RFC3339'', w)
      | Some f \<Rightarrow>
          (case ListDocuments (dp_store (a_deps A)) (dbe (ap_engine e)) f (world_store w) of
             Inl err \<Rightarrow> (writeError 500 ''failed to list documents'', w)
           | Inr docs \<Rightarrow> (writeJSON 200 (map_option (\<lambda>js. JObj [(''documents'', js)]) (json_list toDocView docs)), w)))"

definition handleGetDoc :: "('s, 'd) API \<Rightarrow> apienv \<Rightarrow> string \<Rightarrow> ('s, 'd) handler" where
  "handleGetDoc A e i r w =
     (case GetDocument (dp_store (a_deps A)) (dbe (ap_engine e)) i (world_store w) of
        Inl err \<Rightarrow> (docError err, w)
      | Inr doc \<Rightarrow> (writeJSON 200 (toDocView doc), w))"

text \<open>
  \<^verbatim>\<open>handleDeleteDoc\<close> in its two actions: the rows are deleted, and then, with no lock around the
  two, the cached document is dropped, the event sent and the answer written.
\<close>

definition delete_rows :: "('s, 'd) API \<Rightarrow> apienv \<Rightarrow> string \<Rightarrow> ('s, 'd) world \<Rightarrow> unit res \<times> ('s, 'd) world" where
  "delete_rows A e i w = apsnd (\<lambda>s. set_store s w) (DeleteDocument (dp_store (a_deps A)) (dbe (ap_engine e)) i (world_store w))"

definition delete_finish :: "('s, 'd) API \<Rightarrow> string \<Rightarrow> ('s, 'd) world \<Rightarrow> response \<times> ('s, 'd) world" where
  "delete_finish A i w =
     (writeJSON 200 (Some (JObj [(''deleted'', JBool True), (''doc_id'', JStr i)])),
      conn_emit (a_deps A) ''on_document_deleted'' [(''doc_id'', JStr i), (''user_id'', JNull)]
        (w\<lparr>w_engine := Forget i (w_engine w)\<rparr>))"

definition handleDeleteDoc :: "('s, 'd) API \<Rightarrow> apienv \<Rightarrow> string \<Rightarrow> ('s, 'd) handler" where
  "handleDeleteDoc A e i r w =
     (case delete_rows A e i w of
        (Inl err, w1) \<Rightarrow> (docError err, w1)
      | (Inr _, w1) \<Rightarrow> delete_finish A i w1)"

definition handleHistory :: "('s, 'd) API \<Rightarrow> apienv \<Rightarrow> string \<Rightarrow> ('s, 'd) handler" where
  "handleHistory A e i r w =
     (case GetDocument (dp_store (a_deps A)) (dbe (ap_engine e)) i (world_store w) of
        Inl err \<Rightarrow> (docError err, w)
      | Inr _ \<Rightarrow>
          (let after = atoiDefault (Query_Get r ''after'') 0; limit = atoiDefault (Query_Get r ''limit'') 0 in
           case GetOpsSince (dp_store (a_deps A)) (dbe (ap_engine e)) i after (world_store w) of
             Inl err \<Rightarrow> (writeError 500 ''failed to load history'', w)
           | Inr ops \<Rightarrow>
               (let ops' = (if 0 < limit \<and> limit < int (length ops) then take (nat limit) ops else ops) in
                (writeJSON 200 (map_option (\<lambda>js. JObj [(''doc_id'', JStr i), (''ops'', js)]) (json_list opView ops')), w))))"

definition handleSnapshot :: "('s, 'd) API \<Rightarrow> apienv \<Rightarrow> string \<Rightarrow> ('s, 'd) handler" where
  "handleSnapshot A e i r w =
     (case GetDocument (dp_store (a_deps A)) (dbe (ap_engine e)) i (world_store w) of
        Inl err \<Rightarrow> (docError err, w)
      | Inr _ \<Rightarrow>
          (case Snapshot (dp_store (a_deps A)) (dp_automerge (a_deps A)) (ap_engine e) i (w_engine w) of
             (Inl err, st) \<Rightarrow> (writeError 500 ''failed to snapshot'', w\<lparr>w_engine := st\<rparr>)
           | (Inr q, st) \<Rightarrow> (writeJSON 200 (Some (JObj [(''doc_id'', JStr i), (''seq'', JInt q)])), w\<lparr>w_engine := st\<rparr>)))"

definition handleExport :: "('s, 'd) API \<Rightarrow> apienv \<Rightarrow> string \<Rightarrow> ('s, 'd) handler" where
  "handleExport A e i r w =
     (case GetDocument (dp_store (a_deps A)) (dbe (ap_engine e)) i (world_store w) of
        Inl err \<Rightarrow> (docError err, w)
      | Inr _ \<Rightarrow>
          (case Export (dp_store (a_deps A)) (dp_automerge (a_deps A)) (ap_engine e) i (w_engine w) of
             (Inl err, st) \<Rightarrow> (writeError 500 ''failed to export'', w\<lparr>w_engine := st\<rparr>)
           | (Inr b, st) \<Rightarrow> (writeJSON 200 (Some (JObj [(''doc_id'', JStr i), (''state'', JBytes b)])), w\<lparr>w_engine := st\<rparr>)))"

section \<open>Probes, metrics, nodes (health.go, metrics.go)\<close>

definition handleHealth :: "('s, 'd) handler" where
  "handleHealth r w = (writeJSON 200 (Some (JObj [(''status'', JStr ''ok'')])), w)"

definition handleReady :: "('s, 'd) API \<Rightarrow> apienv \<Rightarrow> ('s, 'd) handler" where
  "handleReady A e r w =
     (case HealthCheck (dp_store (a_deps A)) (dbe (ap_engine e)) (world_store w) of
        Inl err \<Rightarrow> (writeJSON 503 (Some (JObj [(''error'', JStr (err_Error err)), (''status'', JStr ''unavailable'')])), w)
      | Inr _ \<Rightarrow> (writeJSON 200 (Some (JObj [(''status'', JStr ''ready'')])), w))"

definition handleMetrics :: "('s, 'd) API \<Rightarrow> apienv \<Rightarrow> ('s, 'd) handler" where
  "handleMetrics A e r w =
     (\<lparr>rs_Status = 200, rs_Header = [(''Content-Type'', ''text/plain; version=0.0.4; charset=utf-8'')],
       rs_Body = (if dp_metrics (a_deps A) then Render (ap_fmt_g e) (w_metrics w) else [])\<rparr>, w)"

definition node_view :: "string \<Rightarrow> string \<Rightarrow> int \<Rightarrow> json" where
  "node_view nodeID addr t =
     JObj [(''addr'', JStr addr), (''id'', JStr nodeID), (''started_at'', JStr (RFC3339 (t div giga)))]"

definition handleNodes :: "('s, 'd) API \<Rightarrow> apienv \<Rightarrow> ('s, 'd) handler" where
  "handleNodes A e r w =
     (if a_cluster A then
        (case ap_nodes e of
           Inl err \<Rightarrow> (writeError 503 ''cluster registry unavailable'', w)
         | Inr infos \<Rightarrow>
             (writeJSON 200 (Some (JObj [(''cluster_mode'', JBool True),
                (''nodes'', JArr (map (\<lambda>n. node_view (ni_ID n) (ni_Addr n) (ni_StartedAt n)) infos))])), w))
      else
        (writeJSON 200 (Some (JObj [(''cluster_mode'', JBool (ClusterMode (c_Cluster (a_cfg A)))),
           (''nodes'', JArr [node_view (a_nodeID A) (Addr (a_cfg A)) (a_startedAt A)])])), w))"

end
