(* ===== verification/Gourl.thy ===== *)
theory Gourl
  imports Golib
begin

text \<open>
  What the program uses of \<^verbatim>\<open>path\<close>, \<^verbatim>\<open>path/filepath\<close> and \<^verbatim>\<open>net/url\<close>: cleaned paths, parsed
  and printed URLs, query values.
\<close>

section \<open>Paths\<close>

text \<open>\<^verbatim>\<open>path.Clean\<close>: the segments, with the ones already kept in reverse.\<close>

fun clean_segs :: "bool \<Rightarrow> string list \<Rightarrow> string list \<Rightarrow> string list" where
  "clean_segs rooted acc [] = rev acc"
| "clean_segs rooted acc (s # ss) =
     (if s = [] \<or> s = ''.'' then clean_segs rooted acc ss
      else if s = ''..'' then
        (case acc of
           [] \<Rightarrow> clean_segs rooted (if rooted then [] else [''..'']) ss
         | a # as \<Rightarrow> if a = ''..'' then clean_segs rooted (''..'' # acc) ss else clean_segs rooted as ss)
      else clean_segs rooted (s # acc) ss)"

definition path_Clean :: "string \<Rightarrow> string" where
  "path_Clean p =
     (let rooted = (p \<noteq> [] \<and> hd p = CHR ''/'');
          out = Join (clean_segs rooted [] (split_on CHR ''/'' p)) ''/''
      in if rooted then ''/'' @ out else if out = [] then ''.'' else out)"

text \<open>\<^verbatim>\<open>filepath.Join\<close> of two elements on Unix: empty elements are left out.\<close>

definition filepath_Join :: "string \<Rightarrow> string \<Rightarrow> string" where
  "filepath_Join a b =
     (case filter (\<lambda>s. s \<noteq> []) [a, b] of [] \<Rightarrow> [] | ss \<Rightarrow> path_Clean (Join ss ''/''))"

section \<open>Escaping (net/url)\<close>

datatype encoding = encodePath | encodeHost | encodeZone | encodeUserPassword | encodeQueryComponent | encodeFragment

definition is_alnum :: "char \<Rightarrow> bool" where
  "is_alnum c \<longleftrightarrow> (let n = of_char c :: nat in (48 \<le> n \<and> n \<le> 57) \<or> (65 \<le> n \<and> n \<le> 90) \<or> (97 \<le> n \<and> n \<le> 122))"

definition shouldEscape :: "char \<Rightarrow> encoding \<Rightarrow> bool" where
  "shouldEscape c mode =
     (if is_alnum c then False
      else if (mode = encodeHost \<or> mode = encodeZone) \<and> c \<in> set (''!$&()*+,;=:[]<>'' @ [CHR 0x27, CHR 0x22]) then False
      else if c \<in> set ''-_.~'' then False
      else if c \<in> set ''$&+,/:;=?@'' then
        (case mode of
           encodePath \<Rightarrow> c = CHR ''?''
         | encodeUserPassword \<Rightarrow> c \<in> set ''@/?:''
         | encodeQueryComponent \<Rightarrow> True
         | encodeFragment \<Rightarrow> False
         | _ \<Rightarrow> True)
      else if mode = encodeFragment \<and> c \<in> set ''!()*'' then False
      else True)"

definition upper_hex :: "nat \<Rightarrow> char" where
  "upper_hex d = (if d < 10 then char_of (48 + d) else char_of (55 + d))"

definition escape_char :: "encoding \<Rightarrow> char \<Rightarrow> string" where
  "escape_char mode c =
     (if shouldEscape c mode then
        (if c = CHR '' '' \<and> mode = encodeQueryComponent then ''+''
         else [CHR ''%'', upper_hex (of_char c div 16), upper_hex (of_char c mod 16)])
      else [c])"

definition escape :: "string \<Rightarrow> encoding \<Rightarrow> string" where
  "escape s mode = concat (map (escape_char mode) s)"

definition EscapeError :: "string \<Rightarrow> goerr" where
  "EscapeError s = Msg (''invalid URL escape '' @ Quote (take 3 s))"

text \<open>\<^verbatim>\<open>unescape\<close>; in a host only bytes beyond ASCII and \<^verbatim>\<open>%25\<close> may be escaped.\<close>

fun unescape :: "encoding \<Rightarrow> string \<Rightarrow> string res" where
  "unescape mode [] = Inr []"
| "unescape mode (c # cs) =
     (if c = CHR ''%'' then
        (case cs of
           a # b # rest \<Rightarrow>
             (case (hex_val a, hex_val b) of
                (Some x, Some y) \<Rightarrow>
                  if mode = encodeHost \<and> x < 8 \<and> [a, b] \<noteq> ''25'' then Inl (EscapeError (c # cs))
                  else if mode = encodeZone \<and> [a, b] \<noteq> ''25'' \<and> 16 * x + y \<noteq> 32 \<and> shouldEscape (char_of (16 * x + y)) encodeHost
                  then Inl (EscapeError (c # cs))
                  else bindE (unescape mode rest) (\<lambda>t. Inr (char_of (16 * x + y) # t))
              | _ \<Rightarrow> Inl (EscapeError (c # cs)))
         | _ \<Rightarrow> Inl (EscapeError (c # cs)))
      else if c = CHR ''+'' then
        bindE (unescape mode cs) (\<lambda>t. Inr ((if mode = encodeQueryComponent then CHR '' '' else c) # t))
      else if (mode = encodeHost \<or> mode = encodeZone) \<and> (of_char c :: nat) < 128 \<and> shouldEscape c mode
      then Inl (Msg (''invalid character '' @ Quote [c] @ '' in host name''))
      else bindE (unescape mode cs) (\<lambda>t. Inr (c # t)))"

definition validEncoded :: "string \<Rightarrow> encoding \<Rightarrow> bool" where
  "validEncoded s mode = list_all (\<lambda>c. c \<in> set (''!$&()*+,;=:@[]%'' @ [CHR 0x27]) \<or> \<not> shouldEscape c mode) s"

section \<open>Cutting strings\<close>

text \<open>\<^verbatim>\<open>strings.Cut\<close> at a byte, and the split at its last occurrence (the byte stays with the end).\<close>

definition Cut :: "string \<Rightarrow> char \<Rightarrow> string \<times> string" where
  "Cut s b = (takeWhile (\<lambda>c. c \<noteq> b) s, tl (dropWhile (\<lambda>c. c \<noteq> b) s))"

definition last_split :: "char \<Rightarrow> string \<Rightarrow> (string \<times> string) option" where
  "last_split b s =
     (if b \<in> set s
      then Some (rev (tl (dropWhile (\<lambda>c. c \<noteq> b) (rev s))), b # rev (takeWhile (\<lambda>c. c \<noteq> b) (rev s)))
      else None)"

text \<open>\<^verbatim>\<open>strings.Index\<close> of a substring, as the split before it.\<close>

fun index_split :: "string \<Rightarrow> string \<Rightarrow> (string \<times> string) option" where
  "index_split p [] = (if p = [] then Some ([], []) else None)"
| "index_split p (c # cs) =
     (if HasPrefix (c # cs) p then Some ([], c # cs) else map_option (apfst (Cons c)) (index_split p cs))"

section \<open>URLs\<close>

record Userinfo =
  ui_Username :: string
  ui_Password :: "string option"

record url =
  u_Scheme :: string
  u_Opaque :: string
  u_User :: "Userinfo option"
  u_Host :: string
  u_Path :: string
  u_RawPath :: string
  u_OmitHost :: bool
  u_ForceQuery :: bool
  u_RawQuery :: string
  u_Fragment :: string
  u_RawFragment :: string

definition zero_url :: url where
  "zero_url = \<lparr>u_Scheme = [], u_Opaque = [], u_User = None, u_Host = [], u_Path = [], u_RawPath = [], u_OmitHost = False,
     u_ForceQuery = False, u_RawQuery = [], u_Fragment = [], u_RawFragment = []\<rparr>"

definition validOptionalPort :: "string \<Rightarrow> bool" where
  "validOptionalPort port =
     (case port of [] \<Rightarrow> True | c # ds \<Rightarrow> c = CHR '':'' \<and> list_all (\<lambda>d. 48 \<le> (of_char d :: nat) \<and> (of_char d :: nat) \<le> 57) ds)"

definition parseHost :: "string \<Rightarrow> string res" where
  "parseHost host =
     (if HasPrefix host ''['' then
        (case last_split CHR '']'' host of
           None \<Rightarrow> Inl (Msg (''missing '' @ [CHR 0x27, CHR '']'', CHR 0x27] @ '' in host''))
         | Some (before, rest) \<Rightarrow>
             if \<not> validOptionalPort (tl rest) then Inl (Msg (''invalid port '' @ Quote (tl rest) @ '' after host''))
             else
               (case index_split ''%25'' before of
                  Some (h1, h2) \<Rightarrow>
                    bindE (unescape encodeHost h1) (\<lambda>t1. bindE (unescape encodeZone h2) (\<lambda>t2.
                      bindE (unescape encodeHost rest) (\<lambda>t3. Inr (t1 @ t2 @ t3))))
                | None \<Rightarrow> unescape encodeHost host))
      else
        (case last_split CHR '':'' host of
           Some (_, port) \<Rightarrow>
             if \<not> validOptionalPort port then Inl (Msg (''invalid port '' @ Quote port @ '' after host''))
             else unescape encodeHost host
         | None \<Rightarrow> unescape encodeHost host))"

text \<open>\<^verbatim>\<open>validUserinfo\<close>.\<close>

definition validUserinfo :: "string \<Rightarrow> bool" where
  "validUserinfo s = list_all (\<lambda>c. is_alnum c \<or> c \<in> set (''-._:~!$&()*+,;=%@'' @ [CHR 0x27])) s"

definition parseAuthority :: "string \<Rightarrow> (Userinfo option \<times> string) res" where
  "parseAuthority authority =
     (case last_split CHR ''@'' authority of
        None \<Rightarrow> bindE (parseHost authority) (\<lambda>h. Inr (None, h))
      | Some (userinfo, rest) \<Rightarrow>
          bindE (parseHost (tl rest)) (\<lambda>h.
            if \<not> validUserinfo userinfo then Inl (Msg ''net/url: invalid userinfo'')
            else if CHR '':'' \<notin> set userinfo
            then bindE (unescape encodeUserPassword userinfo) (\<lambda>n. Inr (Some \<lparr>ui_Username = n, ui_Password = None\<rparr>, h))
            else
              (let (username, password) = Cut userinfo CHR '':'' in
               bindE (unescape encodeUserPassword username) (\<lambda>n. bindE (unescape encodeUserPassword password) (\<lambda>pw.
                 Inr (Some \<lparr>ui_Username = n, ui_Password = Some pw\<rparr>, h))))))"

text \<open>\<^verbatim>\<open>getScheme\<close>: the characters before the first one that no scheme has.\<close>

definition is_letter :: "char \<Rightarrow> bool" where
  "is_letter c \<longleftrightarrow> (let n = of_char c :: nat in (65 \<le> n \<and> n \<le> 90) \<or> (97 \<le> n \<and> n \<le> 122))"

definition getScheme :: "string \<Rightarrow> (string \<times> string) res" where
  "getScheme raw =
     (let scheme = takeWhile (\<lambda>c. is_alnum c \<or> c \<in> set ''+-.'') raw; rest = drop (length scheme) raw in
      if scheme \<noteq> [] \<and> \<not> is_letter (hd scheme) then Inr ([], raw)
      else
        (case rest of
           c # after \<Rightarrow>
             if c = CHR '':'' then (if scheme = [] then Inl (Msg ''missing protocol scheme'') else Inr (scheme, after))
             else Inr ([], raw)
         | [] \<Rightarrow> Inr ([], raw)))"

definition setPath :: "string \<Rightarrow> url \<Rightarrow> url res" where
  "setPath p u =
     bindE (unescape encodePath p) (\<lambda>path.
       Inr (u\<lparr>u_Path := path, u_RawPath := (if p = escape path encodePath then [] else p)\<rparr>))"

definition setFragment :: "string \<Rightarrow> url \<Rightarrow> url res" where
  "setFragment f u =
     bindE (unescape encodeFragment f) (\<lambda>frag.
       Inr (u\<lparr>u_Fragment := frag, u_RawFragment := (if f = escape frag encodeFragment then [] else f)\<rparr>))"

text \<open>The part of \<^verbatim>\<open>parse\<close> after the scheme and the query are split off.\<close>

definition parse_rest :: "string \<Rightarrow> url \<Rightarrow> url res" where
  "parse_rest rest u =
     (if \<not> HasPrefix rest ''/'' \<and> u_Scheme u \<noteq> [] then Inr (u\<lparr>u_Opaque := rest\<rparr>)
      else if \<not> HasPrefix rest ''/'' \<and> CHR '':'' \<in> set (fst (Cut rest CHR ''/''))
      then Inl (Msg ''first path segment in URL cannot contain colon'')
      else if (u_Scheme u \<noteq> [] \<or> \<not> HasPrefix rest ''///'') \<and> HasPrefix rest ''//'' then
        (let authority = takeWhile (\<lambda>c. c \<noteq> CHR ''/'') (drop 2 rest) in
         bindE (parseAuthority authority) (\<lambda>(user, host).
           setPath (drop (2 + length authority) rest) (u\<lparr>u_User := user, u_Host := host\<rparr>)))
      else setPath rest (u\<lparr>u_OmitHost := (u_Scheme u \<noteq> [] \<and> HasPrefix rest ''/'')\<rparr>))"

definition url_parse :: "string \<Rightarrow> url res" where
  "url_parse raw =
     (if list_ex (\<lambda>c. (of_char c :: nat) < 32 \<or> (of_char c :: nat) = 127) raw
      then Inl (Msg ''net/url: invalid control character in URL'')
      else if raw = ''*'' then Inr (zero_url\<lparr>u_Path := ''*''\<rparr>)
      else
        bindE (getScheme raw) (\<lambda>(scheme, rest).
          let u = zero_url\<lparr>u_Scheme := ToLower scheme\<rparr> in
          if HasSuffix rest ''?'' \<and> CHR ''?'' \<notin> set (butlast rest)
          then parse_rest (butlast rest) (u\<lparr>u_ForceQuery := True\<rparr>)
          else let (rest', q) = Cut rest CHR ''?'' in parse_rest rest' (u\<lparr>u_RawQuery := q\<rparr>)))"

text \<open>\<^verbatim>\<open>url.Parse\<close>, whose error is a \<^verbatim>\<open>url.Error\<close>.\<close>

definition url_error :: "string \<Rightarrow> goerr \<Rightarrow> goerr" where
  "url_error raw err = Wrap (''parse '' @ Quote raw @ '': '') err []"

definition url_Parse :: "string \<Rightarrow> url res" where
  "url_Parse raw =
     (let (main, frag) = Cut raw CHR ''#'' in
      case url_parse main of
        Inl err \<Rightarrow> Inl (url_error main err)
      | Inr u \<Rightarrow>
          if frag = [] then Inr u
          else (case setFragment frag u of Inl err \<Rightarrow> Inl (url_error raw err) | Inr u' \<Rightarrow> Inr u'))"

text \<open>\<^verbatim>\<open>Hostname\<close> and \<^verbatim>\<open>Port\<close> by \<^verbatim>\<open>splitHostPort\<close>.\<close>

definition splitHostPort :: "string \<Rightarrow> string \<times> string" where
  "splitHostPort hostPort =
     (let (host, port) =
        (case last_split CHR '':'' hostPort of
           Some (h, p) \<Rightarrow> if validOptionalPort p then (h, tl p) else (hostPort, [])
         | None \<Rightarrow> (hostPort, []))
      in (if HasPrefix host ''['' \<and> HasSuffix host '']'' then butlast (tl host) else host, port))"

definition Hostname :: "url \<Rightarrow> string" where "Hostname u = fst (splitHostPort (u_Host u))"
definition url_Port :: "url \<Rightarrow> string" where "url_Port u = snd (splitHostPort (u_Host u))"

section \<open>Query values\<close>

text \<open>\<^verbatim>\<open>url.Values\<close>; \<^verbatim>\<open>Query\<close> drops the pairs it cannot read.\<close>

type_synonym query_values = "(string \<times> string list) list"

definition Query_add :: "string \<Rightarrow> query_values \<Rightarrow> query_values" where
  "Query_add pair m =
     (if pair = [] \<or> CHR '';'' \<in> set pair then m
      else
        (let (k, v) = Cut pair CHR ''='' in
         case (unescape encodeQueryComponent k, unescape encodeQueryComponent v) of
           (Inr k', Inr v') \<Rightarrow> map_put k' (map_get [] m k' @ [v']) m
         | _ \<Rightarrow> m))"

definition url_Query :: "url \<Rightarrow> query_values" where
  "url_Query u = fold Query_add (split_on CHR ''&'' (u_RawQuery u)) []"

definition Values_Get :: "query_values \<Rightarrow> string \<Rightarrow> string" where
  "Values_Get m k = (case map_get [] m k of [] \<Rightarrow> [] | v # _ \<Rightarrow> v)"

definition Values_Set :: "string \<Rightarrow> string \<Rightarrow> query_values \<Rightarrow> query_values" where
  "Values_Set k v m = map_put k [v] m"

definition Values_Encode :: "query_values \<Rightarrow> string" where
  "Values_Encode m =
     Join (concat (map (\<lambda>(k, vs). map (\<lambda>v. escape k encodeQueryComponent @ ''='' @ escape v encodeQueryComponent) vs)
       (sort_key fst m))) ''&''"

section \<open>Printing\<close>

definition EscapedPath :: "url \<Rightarrow> string" where
  "EscapedPath u =
     (if u_RawPath u \<noteq> [] \<and> validEncoded (u_RawPath u) encodePath \<and> unescape encodePath (u_RawPath u) = Inr (u_Path u)
      then u_RawPath u
      else if u_Path u = ''*'' then ''*''
      else escape (u_Path u) encodePath)"

definition EscapedFragment :: "url \<Rightarrow> string" where
  "EscapedFragment u =
     (if u_RawFragment u \<noteq> [] \<and> validEncoded (u_RawFragment u) encodeFragment
         \<and> unescape encodeFragment (u_RawFragment u) = Inr (u_Fragment u)
      then u_RawFragment u
      else escape (u_Fragment u) encodeFragment)"

definition Userinfo_String :: "Userinfo \<Rightarrow> string" where
  "Userinfo_String ui =
     escape (ui_Username ui) encodeUserPassword
     @ (case ui_Password ui of None \<Rightarrow> [] | Some pw \<Rightarrow> '':'' @ escape pw encodeUserPassword)"

definition url_authority :: "url \<Rightarrow> string" where
  "url_authority u =
     (if u_Scheme u = [] \<and> u_Host u = [] \<and> u_User u = None then []
      else if u_OmitHost u \<and> u_Host u = [] \<and> u_User u = None then []
      else
        (if u_Host u \<noteq> [] \<or> u_Path u \<noteq> [] \<or> u_User u \<noteq> None then ''//'' else [])
        @ (case u_User u of None \<Rightarrow> [] | Some ui \<Rightarrow> Userinfo_String ui @ ''@'')
        @ escape (u_Host u) encodeHost)"

definition url_String :: "url \<Rightarrow> string" where
  "url_String u =
     (let scheme = (if u_Scheme u = [] then [] else u_Scheme u @ '':'');
          body =
            (if u_Opaque u \<noteq> [] then scheme @ u_Opaque u
             else
               (let path = EscapedPath u;
                    front = scheme @ url_authority u
                      @ (if path \<noteq> [] \<and> hd path \<noteq> CHR ''/'' \<and> u_Host u \<noteq> [] then ''/'' else []);
                    dot = (if front = [] \<and> CHR '':'' \<in> set (fst (Cut path CHR ''/'')) then ''./'' else [])
                in front @ dot @ path))
      in body
         @ (if u_ForceQuery u \<or> u_RawQuery u \<noteq> [] then ''?'' @ u_RawQuery u else [])
         @ (if u_Fragment u \<noteq> [] then ''#'' @ EscapedFragment u else []))"

end
