(* ===== verification/Router.thy ===== *)
theory Router
  imports Api Gourl
begin

text \<open>
  \<^verbatim>\<open>api.Register\<close>, \<^verbatim>\<open>router.go\<close> and what they use of \<^verbatim>\<open>http.ServeMux\<close>: the routes, the
  management key, CORS, recovery from panics, and the complete handler with the \<^verbatim>\<open>/sync\<close>
  endpoint.
\<close>

section \<open>Paths\<close>

text \<open>The \<^verbatim>\<open>cleanPath\<close> of \<^verbatim>\<open>net/http\<close>, which keeps a trailing slash.\<close>

definition cleanPath :: "string \<Rightarrow> string" where
  "cleanPath p0 =
     (if p0 = [] then ''/''
      else
        (let p = (if hd p0 = CHR ''/'' then p0 else ''/'' @ p0); np = path_Clean p in
         if last p = CHR ''/'' \<and> np \<noteq> ''/'' then np @ ''/'' else np))"

fun PathUnescape :: "string \<Rightarrow> string" where
  "PathUnescape (c # a # b # rest) =
     (if c = CHR ''%'' then
        (case (hex_val a, hex_val b) of
           (Some x, Some y) \<Rightarrow> char_of (16 * x + y) # PathUnescape rest
         | _ \<Rightarrow> c # PathUnescape (a # b # rest))
      else c # PathUnescape (a # b # rest))"
| "PathUnescape s = s"

text \<open>The segments of a clean path; a trailing slash is the segment \<^verbatim>\<open>/\<close>.\<close>

definition path_segs :: "string \<Rightarrow> string list" where
  "path_segs p = map (\<lambda>s. if s = [] then ''/'' else PathUnescape s) (tl (split_on CHR ''/'' p))"

section \<open>Routes\<close>

datatype seg = Lit string | Wild

fun match_segs :: "seg list \<Rightarrow> string list \<Rightarrow> string list option" where
  "match_segs [] [] = Some []"
| "match_segs (Lit l # ps) (s # ss) = (if l = s then match_segs ps ss else None)"
| "match_segs (Wild # ps) (s # ss) = (if s = ''/'' then None else map_option (Cons s) (match_segs ps ss))"
| "match_segs _ _ = None"

datatype endpoint =
    Health | Ready | CreateDoc | ListDocs | GetDoc | DeleteDoc | History | SnapshotDoc | ExportDoc
  | MetricsText | NodeList | SyncEndpoint

record route =
  rt_Method :: string
  rt_Path :: "seg list"
  rt_Endpoint :: endpoint

definition api_v1 :: "string list \<Rightarrow> seg list" where
  "api_v1 ps = Lit ''api'' # Lit ''v1'' # map Lit ps"

definition doc_path :: "string list \<Rightarrow> seg list" where
  "doc_path ps = api_v1 [''docs''] @ Wild # map Lit ps"

definition management_routes :: "route list" where
  "management_routes =
     [\<lparr>rt_Method = ''POST'', rt_Path = api_v1 [''docs''], rt_Endpoint = CreateDoc\<rparr>,
      \<lparr>rt_Method = ''GET'', rt_Path = api_v1 [''docs''], rt_Endpoint = ListDocs\<rparr>,
      \<lparr>rt_Method = ''GET'', rt_Path = doc_path [], rt_Endpoint = GetDoc\<rparr>,
      \<lparr>rt_Method = ''DELETE'', rt_Path = doc_path [], rt_Endpoint = DeleteDoc\<rparr>,
      \<lparr>rt_Method = ''GET'', rt_Path = doc_path [''history''], rt_Endpoint = History\<rparr>,
      \<lparr>rt_Method = ''POST'', rt_Path = doc_path [''snapshot''], rt_Endpoint = SnapshotDoc\<rparr>,
      \<lparr>rt_Method = ''GET'', rt_Path = doc_path [''export''], rt_Endpoint = ExportDoc\<rparr>,
      \<lparr>rt_Method = ''GET'', rt_Path = api_v1 [''metrics''], rt_Endpoint = MetricsText\<rparr>,
      \<lparr>rt_Method = ''GET'', rt_Path = api_v1 [''nodes''], rt_Endpoint = NodeList\<rparr>]"

definition Register :: "Config \<Rightarrow> route list" where
  "Register cfg =
     [\<lparr>rt_Method = ''GET'', rt_Path = [Lit ''health''], rt_Endpoint = Health\<rparr>,
      \<lparr>rt_Method = ''GET'', rt_Path = [Lit ''ready''], rt_Endpoint = Ready\<rparr>]
     @ (if MgmtEnabled (c_Management cfg) then management_routes else [])"

definition all_routes :: "Config \<Rightarrow> route list" where
  "all_routes cfg = Register cfg @ [\<lparr>rt_Method = [], rt_Path = [Lit ''sync''], rt_Endpoint = SyncEndpoint\<rparr>]"

text \<open>A pattern without a method takes every method; \<^verbatim>\<open>GET\<close> takes \<^verbatim>\<open>HEAD\<close> too.\<close>

definition takes_method :: "route \<Rightarrow> string \<Rightarrow> bool" where
  "takes_method rt m \<longleftrightarrow> rt_Method rt = [] \<or> rt_Method rt = m \<or> (rt_Method rt = ''GET'' \<and> m = ''HEAD'')"

text \<open>The routes of this program never match a request twice, so the first match is the one.\<close>

fun find_route :: "route list \<Rightarrow> string \<Rightarrow> string list \<Rightarrow> (endpoint \<times> string list) option" where
  "find_route [] m ss = None"
| "find_route (rt # rts) m ss =
     (case match_segs (rt_Path rt) ss of
        Some vs \<Rightarrow> if takes_method rt m then Some (rt_Endpoint rt, vs) else find_route rts m ss
      | None \<Rightarrow> find_route rts m ss)"

definition allowed_methods :: "route list \<Rightarrow> string list \<Rightarrow> string list" where
  "allowed_methods rts ss =
     sort (remdups (concat (map (\<lambda>rt. if rt_Method rt = ''GET'' then [''GET'', ''HEAD''] else [rt_Method rt])
       (filter (\<lambda>rt. match_segs (rt_Path rt) ss \<noteq> None) rts))))"

section \<open>Serving a route\<close>

text \<open>
  A response, or the answer of the \<^verbatim>\<open>/sync\<close> endpoint, which takes the connection or refuses it,
  with the headers the middleware had set on the writer before.
\<close>

datatype http_reply =
    Responded response
  | Upgraded "(string \<times> string) list" sync_response

text \<open>What a request to \<^verbatim>\<open>/sync\<close> meets: the authenticator's environment, the clock, the frames it reads.\<close>

record syncenv =
  sy_auth :: aenv
  sy_start :: int
  sy_end :: int
  sy_frames :: "(henv \<times> frame) list"

text \<open>The management key. A request without it does not reach the handler.\<close>

definition requireKey :: "Config \<Rightarrow> ('s, 'd) handler \<Rightarrow> ('s, 'd) handler" where
  "requireKey cfg nxt r w =
     (if MgmtKey (c_Management cfg) = [] then nxt r w
      else if Header_Get r ''Authorization'' \<noteq> ''Bearer '' @ MgmtKey (c_Management cfg)
      then (writeError 401 ''missing or invalid management API key'', w)
      else nxt r w)"

definition doc_handler :: "(string \<Rightarrow> ('s, 'd) handler) \<Rightarrow> string list \<Rightarrow> ('s, 'd) handler" where
  "doc_handler h vs = h (case vs of v # _ \<Rightarrow> v | [] \<Rightarrow> [])"

fun management :: "('s, 'd) API \<Rightarrow> apienv \<Rightarrow> endpoint \<Rightarrow> string list \<Rightarrow> ('s, 'd) handler" where
  "management A e CreateDoc vs = handleCreateDoc A e"
| "management A e ListDocs vs = handleListDocs A e"
| "management A e GetDoc vs = doc_handler (handleGetDoc A e) vs"
| "management A e DeleteDoc vs = doc_handler (handleDeleteDoc A e) vs"
| "management A e History vs = doc_handler (handleHistory A e) vs"
| "management A e SnapshotDoc vs = doc_handler (handleSnapshot A e) vs"
| "management A e ExportDoc vs = doc_handler (handleExport A e) vs"
| "management A e MetricsText vs = handleMetrics A e"
| "management A e ep vs = handleNodes A e"

definition serve_route ::
  "acceptor \<Rightarrow> Server \<Rightarrow> ('s, 'd) API \<Rightarrow> apienv \<Rightarrow> syncenv \<Rightarrow> endpoint \<Rightarrow> string list \<Rightarrow> Request
     \<Rightarrow> ('s, 'd) world \<Rightarrow> http_reply \<times> ('s, 'd) world" where
  "serve_route accept sv A e se ep vs r w =
     (case ep of
        Health \<Rightarrow> apfst Responded (handleHealth r w)
      | Ready \<Rightarrow> apfst Responded (handleReady A e r w)
      | SyncEndpoint \<Rightarrow>
          apfst (Upgraded []) (HandleSync accept sv (a_deps A) (sy_auth se) (sy_start se) (sy_end se) r (sy_frames se) w)
      | _ \<Rightarrow> apfst Responded (requireKey (a_cfg A) (management A e ep vs) r w))"

text \<open>
  The multiplexer: an unclean path is redirected (location and body are left out), an unknown
  one is not found, and a known one with another method is refused.
\<close>

definition serve_mux ::
  "acceptor \<Rightarrow> Server \<Rightarrow> ('s, 'd) API \<Rightarrow> apienv \<Rightarrow> syncenv \<Rightarrow> Request \<Rightarrow> ('s, 'd) world \<Rightarrow> http_reply \<times> ('s, 'd) world" where
  "serve_mux accept sv A e se r w =
     (if r_Method r \<noteq> ''CONNECT'' \<and> cleanPath (r_Path r) \<noteq> r_Path r
      then (Responded \<lparr>rs_Status = 301, rs_Header = [], rs_Body = []\<rparr>, w)
      else
        (let ss = path_segs (r_Path r) in
         case find_route (all_routes (a_cfg A)) (r_Method r) ss of
           Some (ep, vs) \<Rightarrow> serve_route accept sv A e se ep vs r w
         | None \<Rightarrow>
             (let ms = allowed_methods (all_routes (a_cfg A)) ss in
              (Responded (if ms = [] then http_Error ''404 page not found'' 404
                 else (http_Error ''Method Not Allowed'' 405)\<lparr>rs_Header :=
                   (''Allow'', Join ms '', '') # rs_Header (http_Error ''Method Not Allowed'' 405)\<rparr>), w))))"

section \<open>Middleware (router.go)\<close>

text \<open>
  \<^const>\<open>EqualFold\<close> folds ASCII letters, which is \<^verbatim>\<open>strings.EqualFold\<close> on ASCII origins: those a
  browser sends. The folding of other letters is left out.
\<close>

fun matchOrigin :: "string list \<Rightarrow> string \<Rightarrow> string" where
  "matchOrigin [] origin = []"
| "matchOrigin (a # allowed) origin =
     (if a = ''*'' then ''*''
      else if origin \<noteq> [] \<and> EqualFold a origin then origin
      else matchOrigin allowed origin)"

fun add_headers :: "(string \<times> string) list \<Rightarrow> http_reply \<Rightarrow> http_reply" where
  "add_headers hs (Responded rs) = Responded (rs\<lparr>rs_Header := hs @ rs_Header rs\<rparr>)"
| "add_headers hs (Upgraded hs' sr) = Upgraded (hs @ hs') sr"

definition cors_headers :: "string list \<Rightarrow> string \<Rightarrow> (string \<times> string) list" where
  "cors_headers allowed origin =
     (let allow = matchOrigin allowed origin in
      if allow = [] then []
      else [(''Access-Control-Allow-Origin'', allow), (''Vary'', ''Origin''),
            (''Access-Control-Allow-Methods'', ''GET, POST, DELETE, OPTIONS''),
            (''Access-Control-Allow-Headers'', ''Authorization, Content-Type'')])"

text \<open>A handler that may panic: \<open>Inl\<close> is the panic, with the headers set on the writer before it.\<close>

type_synonym ('s, 'd) chain =
  "Request \<Rightarrow> ('s, 'd) world \<Rightarrow> ((string \<times> string) list + http_reply) \<times> ('s, 'd) world"

definition cors :: "Config \<Rightarrow> ('s, 'd) chain \<Rightarrow> ('s, 'd) chain" where
  "cors cfg nxt r w =
     (let hs = cors_headers (AllowedOrigins (c_CORS cfg)) (Header_Get r ''Origin'') in
      if r_Method r = ''OPTIONS''
      then (Inr (add_headers hs (Responded \<lparr>rs_Status = 204, rs_Header = [], rs_Body = []\<rparr>)), w)
      else apfst (map_sum (append hs) (add_headers hs)) (nxt r w))"

definition recover :: "('s, 'd) chain \<Rightarrow> Request \<Rightarrow> ('s, 'd) world \<Rightarrow> http_reply \<times> ('s, 'd) world" where
  "recover nxt r w =
     (case nxt r w of
        (Inl hs, w1) \<Rightarrow> (add_headers hs (Responded (writeError 500 ''internal error'')), w1)
      | (Inr rp, w1) \<Rightarrow> (rp, w1))"

definition Handler ::
  "acceptor \<Rightarrow> Server \<Rightarrow> ('s, 'd) API \<Rightarrow> apienv \<Rightarrow> syncenv \<Rightarrow> Request \<Rightarrow> ('s, 'd) world \<Rightarrow> http_reply \<times> ('s, 'd) world" where
  "Handler accept sv A e se =
     recover (cors (a_cfg A) (\<lambda>r w. apfst Inr (serve_mux accept sv A e se r w)))"

end
