(* ===== verification/Api_Props.thy ===== *)
theory Api_Props
  imports Router Engine_Props
begin

text \<open>
  What the management API promises: nothing is read or changed without the key, a request
  has one route, a missing document is reported as such, what a response shows is what
  the store and the engine hold, and other origins learn nothing through CORS. And one
  order of calls in which a deleted document comes back.
\<close>

section \<open>Routing\<close>

lemma find_routeD:
  "find_route rts m ss = Some (ep, vs) \<Longrightarrow> \<exists>rt \<in> set rts. rt_Endpoint rt = ep \<and> match_segs (rt_Path rt) ss = Some vs \<and> takes_method rt m"
  by (induction rts) (auto split: option.splits if_splits)

lemma match_Lit [simp]: "match_segs [Lit l] ss = Some vs \<longleftrightarrow> ss = [l] \<and> vs = []"
  by (cases ss rule: list.exhaust; cases "tl ss") auto

text \<open>Patterns that have a path in common agree position by position.\<close>

fun compatible :: "seg list \<Rightarrow> seg list \<Rightarrow> bool" where
  "compatible [] [] = True"
| "compatible (Lit a # ps) (Lit b # qs) = (a = b \<and> compatible ps qs)"
| "compatible (p # ps) (q # qs) = compatible ps qs"
| "compatible _ _ = False"

lemma match_Cons: "match_segs (p # ps) ss \<noteq> None \<Longrightarrow> \<exists>s ss'. ss = s # ss' \<and> match_segs ps ss' \<noteq> None \<and> (\<forall>l. p = Lit l \<longrightarrow> s = l)"
  by (cases ss; cases p) (auto split: if_splits)

lemma match_compatible: "match_segs ps ss \<noteq> None \<Longrightarrow> match_segs qs ss \<noteq> None \<Longrightarrow> compatible ps qs"
proof (induction ps arbitrary: qs ss)
  case Nil
  then show ?case by (cases ss; cases qs) (auto dest: match_Cons)
next
  case (Cons p ps)
  from match_Cons [OF Cons.prems(1)] obtain s ss' where ss: "ss = s # ss'" "match_segs ps ss' \<noteq> None" "\<forall>l. p = Lit l \<longrightarrow> s = l" by blast
  with Cons.prems(2) obtain q qs' where qs: "qs = q # qs'" by (cases qs) auto
  from match_Cons [OF Cons.prems(2) [unfolded qs ss(1)]] have q: "match_segs qs' ss' \<noteq> None" "\<forall>l. q = Lit l \<longrightarrow> s = l" by auto
  show ?case using Cons.IH [OF ss(2) q(1)] ss(3) q(2) by (cases p; cases q) (simp_all add: qs)
qed

definition overlapping :: "route \<Rightarrow> route \<Rightarrow> bool" where
  "overlapping rt rt' \<longleftrightarrow> compatible (rt_Path rt) (rt_Path rt')
     \<and> (rt_Method rt = [] \<or> rt_Method rt' = [] \<or> rt_Method rt = rt_Method rt')"

definition every_route :: "route list" where
  "every_route = all_routes (Default\<lparr>c_Management := (c_Management Default)\<lparr>MgmtEnabled := True\<rparr>\<rparr>)"

lemma no_overlap: "list_all (\<lambda>rt. list_all (\<lambda>rt'. overlapping rt rt' \<longrightarrow> rt = rt') every_route) every_route"
  by code_simp

lemma all_routes_sub: "set (all_routes cfg) \<subseteq> set every_route"
  by (auto simp: every_route_def all_routes_def Register_def split: if_splits)

lemma takes_method_overlap:
  assumes "takes_method rt m" "takes_method rt' m" "rt_Method rt \<noteq> ''HEAD''" "rt_Method rt' \<noteq> ''HEAD''"
  shows "rt_Method rt = [] \<or> rt_Method rt' = [] \<or> rt_Method rt = rt_Method rt'"
  using assms by (auto simp: takes_method_def)

lemma no_head: "list_all (\<lambda>rt. rt_Method rt \<noteq> ''HEAD'') every_route"
  by code_simp

text \<open>
  C37: A request has at most one route, whatever the configuration: two routes of the multiplexer
  that match the same path and accept the same method are the same. So the handler
  that serves a request does not depend on the order of registration.
\<close>

theorem one_route:
  assumes "rt \<in> set (all_routes cfg)" "rt' \<in> set (all_routes cfg)"
    and "match_segs (rt_Path rt) ss \<noteq> None" "match_segs (rt_Path rt') ss \<noteq> None"
    and "takes_method rt m" "takes_method rt' m"
  shows "rt = rt'"
proof -
  have in_all: "rt \<in> set every_route" "rt' \<in> set every_route" using assms(1,2) all_routes_sub by blast+
  then have "rt_Method rt \<noteq> ''HEAD''" "rt_Method rt' \<noteq> ''HEAD''" using no_head by (simp_all add: list_all_iff)
  then have "overlapping rt rt'"
    using match_compatible [OF assms(3,4)] takes_method_overlap [OF assms(5,6)] by (simp add: overlapping_def)
  then show ?thesis using no_overlap in_all by (simp add: list_all_iff)
qed

theorem one_route_witness:
  "\<lparr>rt_Method = ''GET'', rt_Path = doc_path [''export''], rt_Endpoint = ExportDoc\<rparr> = all_routes Default ! 8
     \<and> match_segs (rt_Path (all_routes Default ! 8)) [''api'', ''v1'', ''docs'', ''x'', ''export''] = Some [''x'']
     \<and> takes_method (all_routes Default ! 8) ''HEAD''"
proof -
  let ?rt = "\<lparr>rt_Method = ''GET'', rt_Path = doc_path [''export''], rt_Endpoint = ExportDoc\<rparr>"
  let ?ss = "[''api'', ''v1'', ''docs'', ''x'', ''export'']"
  have len: "8 < length (all_routes Default)" by code_simp
  have 8: "match_segs (rt_Path (all_routes Default ! 8)) ?ss = Some [''x'']" "takes_method (all_routes Default ! 8) ''HEAD''"
    by code_simp+
  have "?rt \<in> set (all_routes Default)" by (simp add: all_routes_def Register_def Default_def management_routes_def)
  moreover have "match_segs (rt_Path ?rt) ?ss \<noteq> None" "takes_method ?rt ''HEAD''" by code_simp+
  ultimately have "?rt = all_routes Default ! 8" using one_route [OF _ nth_mem [OF len]] 8 by simp
  with 8 show ?thesis by blast
qed

section \<open>The management key\<close>

lemma requireKey_refuses:
  assumes "MgmtKey (c_Management cfg) \<noteq> []" "Header_Get r ''Authorization'' \<noteq> ''Bearer '' @ MgmtKey (c_Management cfg)"
  shows "requireKey cfg nxt r w = (writeError 401 ''missing or invalid management API key'', w)"
  using assms by (simp add: requireKey_def)

lemma writeError_sel [simp]: "rs_Status (writeError k msg) = k" "rs_Status (writeJSON k v) = k" "rs_Status (http_Error msg k) = k"
  by (simp_all add: writeError_def writeJSON_def http_Error_def)

lemma mux_endpoint:
  assumes "find_route (all_routes cfg) m ss = Some (ep, vs)"
  shows "(ep = Health \<longrightarrow> ss = [''health'']) \<and> (ep = Ready \<longrightarrow> ss = [''ready'']) \<and> (ep = SyncEndpoint \<longrightarrow> ss = [''sync''])
     \<and> (ep \<notin> {Health, Ready, SyncEndpoint} \<longrightarrow> MgmtEnabled (c_Management cfg))"
proof -
  from find_routeD [OF assms] obtain rt where rt: "rt \<in> set (all_routes cfg)" "rt_Endpoint rt = ep" "match_segs (rt_Path rt) ss = Some vs"
    by blast
  from rt(1) consider "rt = \<lparr>rt_Method = ''GET'', rt_Path = [Lit ''health''], rt_Endpoint = Health\<rparr>"
    | "rt = \<lparr>rt_Method = ''GET'', rt_Path = [Lit ''ready''], rt_Endpoint = Ready\<rparr>"
    | "rt = \<lparr>rt_Method = [], rt_Path = [Lit ''sync''], rt_Endpoint = SyncEndpoint\<rparr>"
    | "rt \<in> set management_routes" "MgmtEnabled (c_Management cfg)"
    by (auto simp: all_routes_def Register_def split: if_splits)
  then show ?thesis
  proof cases
    case 4
    have "list_all (\<lambda>rt. rt_Endpoint rt \<notin> {Health, Ready, SyncEndpoint}) management_routes" by code_simp
    then have "ep \<notin> {Health, Ready, SyncEndpoint}" using 4(1) rt(2) by (auto simp: list_all_iff)
    then show ?thesis using 4(2) by blast
  qed (use rt(2,3) in auto)
qed

definition unauthorised :: "Config \<Rightarrow> Request \<Rightarrow> bool" where
  "unauthorised cfg r \<longleftrightarrow> \<not> MgmtEnabled (c_Management cfg)
     \<or> (MgmtKey (c_Management cfg) \<noteq> [] \<and> Header_Get r ''Authorization'' \<noteq> ''Bearer '' @ MgmtKey (c_Management cfg))"

lemma mux_unauthorised:
  assumes "unauthorised (a_cfg A) r" "serve_mux accept sv A e se r w = (rp, w')"
  shows "case rp of Upgraded _ _ \<Rightarrow> path_segs (r_Path r) = [''sync'']
     | Responded rs \<Rightarrow> w' = w \<and> (rs_Status rs \<in> {200, 201} \<longrightarrow> path_segs (r_Path r) \<in> {[''health''], [''ready'']})"
proof (cases "r_Method r \<noteq> ''CONNECT'' \<and> cleanPath (r_Path r) \<noteq> r_Path r")
  case True
  then show ?thesis using assms(2) by (auto simp: serve_mux_def)
next
  case False
  let ?ss = "path_segs (r_Path r)"
  show ?thesis
  proof (cases "find_route (all_routes (a_cfg A)) (r_Method r) ?ss")
    case None
    then show ?thesis using assms(2) False by (auto simp: serve_mux_def Let_def http_Error_def split: if_splits)
  next
    case (Some x)
    obtain ep vs where x: "x = (ep, vs)" by fastforce
    note ep = mux_endpoint [OF Some [unfolded x]]
    have s: "serve_route accept sv A e se ep vs r w = (rp, w')" using assms(2) False Some x by (simp add: serve_mux_def Let_def split: if_splits)
    consider "ep = Health" | "ep = Ready" | "ep = SyncEndpoint" | "ep \<notin> {Health, Ready, SyncEndpoint}" by blast
    then show ?thesis
    proof cases
      case 1
      then show ?thesis using s ep by (auto simp: serve_route_def handleHealth_def)
    next
      case 2
      then show ?thesis using s ep by (auto simp: serve_route_def handleReady_def split: sum.splits)
    next
      case 3
      then show ?thesis using s ep by (auto simp: serve_route_def apfst_def map_prod_def split: prod.splits)
    next
      case 4
      with ep assms(1) have "MgmtKey (c_Management (a_cfg A)) \<noteq> []"
        "Header_Get r ''Authorization'' \<noteq> ''Bearer '' @ MgmtKey (c_Management (a_cfg A))" by (auto simp: unauthorised_def)
      note refused = requireKey_refuses [OF this]
      from 4 s have "(rp, w') = apfst Responded (requireKey (a_cfg A) (management A e ep vs) r w)"
        by (cases ep) (simp_all add: serve_route_def)
      then show ?thesis by (simp add: refused)
    qed
  qed
qed

text \<open>
  C11: Nothing is managed without the key. With the management API switched off, or with a key
  set and a request that does not carry exactly it as bearer token, the complete handler answers
  without changing the store, the cached documents, the connections or the metrics and
  without calling out, and reports success only for the probes; the \<^verbatim>\<open>/sync\<close>
  endpoint has an authentication of its own.
\<close>

theorem management_needs_key:
  assumes "unauthorised (a_cfg A) r" "Handler accept sv A e se r w = (rp, w')"
  shows "case rp of Upgraded _ _ \<Rightarrow> path_segs (r_Path r) = [''sync'']
     | Responded rs \<Rightarrow> w' = w \<and> (rs_Status rs \<in> {200, 201} \<longrightarrow> path_segs (r_Path r) \<in> {[''health''], [''ready'']})"
proof (cases "r_Method r = ''OPTIONS''")
  case True
  then show ?thesis using assms(2) by (auto simp: Handler_def recover_def cors_def Let_def)
next
  case False
  obtain rp0 w0 where m: "serve_mux accept sv A e se r w = (rp0, w0)" by fastforce
  have "w' = w0" "rp = add_headers (cors_headers (AllowedOrigins (c_CORS (a_cfg A))) (Header_Get r ''Origin'')) rp0"
    using assms(2) m False by (auto simp: Handler_def recover_def cors_def Let_def)
  with mux_unauthorised [OF assms(1) m] show ?thesis by (cases rp0) simp_all
qed

text \<open>An API over SQLite whose management key is \<^verbatim>\<open>s3cret\<close>, and requests to it.\<close>

definition keyed :: Config where
  "keyed = Default\<lparr>c_Management := \<lparr>MgmtEnabled = True, MgmtKey = ''s3cret''\<rparr>\<rparr>"

definition demo_api :: "(db, bytes list) API" where
  "demo_api = \<lparr>a_deps = \<lparr>dp_store = sqlite_store, dp_automerge = am_set, dp_engine = cfg0, dp_emitter = True, dp_metrics = True,
       dp_observer = False, dp_limits = c_Limits Default, dp_broadcast = hub_broadcaster\<rparr>,
     a_cfg = keyed, a_startedAt = 0, a_nodeID = ''n'', a_cluster = False\<rparr>"

definition demo_apienv :: apienv where
  "demo_apienv = \<lparr>ap_engine = calm_e 9, ap_nodes = Inr [], ap_fmt_g = (\<lambda>_. ''0'')\<rparr>"

definition demo_syncenv :: syncenv where
  "demo_syncenv = \<lparr>sy_auth = \<lparr>t_lookup = 0, t_request = 0, t_store = 0, auth_net = (\<lambda>_. NoReply ContextCanceled)\<rparr>,
     sy_start = 0, sy_end = 0, sy_frames = []\<rparr>"

definition api_request :: "string \<Rightarrow> string \<Rightarrow> (string \<times> string) list \<Rightarrow> Request" where
  "api_request m p hs = \<lparr>r_Method = m, r_Path = p, r_Header = hs, r_Query = [], r_Body = [], r_RemoteAddr = ''10.0.0.9:4000''\<rparr>"

definition api_world :: "(db, bytes list) world" where
  "api_world = new_world (new_estate db2)"

theorem management_needs_key_witness:
  "snd (Handler (\<lambda>_ _ _. None) (server_New noneAuth (c_CORS Default)) demo_api demo_apienv demo_syncenv
      (api_request ''DELETE'' ''/api/v1/docs/doc'' [(''Authorization'', ''Bearer guess'')]) api_world) = api_world"
proof -
  let ?r = "api_request ''DELETE'' ''/api/v1/docs/doc'' [(''Authorization'', ''Bearer guess'')]"
  let ?h = "Handler (\<lambda>_ _ _. None) (server_New noneAuth (c_CORS Default)) demo_api demo_apienv demo_syncenv ?r api_world"
  have u: "unauthorised (a_cfg demo_api) ?r" and p: "path_segs (r_Path ?r) \<noteq> [''sync'']" by code_simp+
  have "?h = (fst ?h, snd ?h)" by simp
  from management_needs_key [OF u this] show ?thesis using p by (cases "fst ?h") auto
qed

section \<open>Missing documents\<close>

lemma get_error:
  assumes "backend_ok k" "GetDocument (store_of k) e d b = Inl err" "errors_Is err ErrDocumentNotFound"
  shows "err = ErrDocumentNotFound"
  using assms(2,3) unfolding sql_backend.sql_get [OF backend_sql [OF assms(1)]]
  by (auto simp: bindE_def query_def drv_def scanDocument_def unmarshalMetadata_def split: sum.splits option.splits outcome.splits if_splits)

lemma get_missing_live:
  assumes "backend_ok k" "fault_free e" "d \<notin> doc_ids b"
  shows "GetDocument (store_of k) e d b = Inl ErrDocumentNotFound"
  using assms(2,3) select_doc_None [of d b] unfolding sql_backend.sql_get [OF backend_sql [OF assms(1)]]
  by (simp add: scanDocument_def)

lemma delete_error:
  assumes "backend_ok k" "DeleteDocument (store_of k) e d b = (Inl err, b')" "errors_Is err ErrDocumentNotFound"
  shows "err = ErrDocumentNotFound"
  using assms(2,3)
  by (cases k) (auto simp: store_of_def backend_defs Let_def case_prod_beta exec_def bindE_def query_def drv_def
      split: option.splits sum.splits outcome.splits if_splits)

lemma delete_nothing: "db_inv b \<Longrightarrow> d \<notin> doc_ids b \<Longrightarrow> sql_delete_doc binary d b = (0, b)"
  by (auto simp: sql_delete_doc_def db_inv_def doc_ids_def filter_empty_conv filter_id_conv intro!: db.equality)

lemma delete_missing_live:
  assumes "backend_ok k" "fault_free e" "d \<notin> doc_ids b" "db_inv b"
  shows "DeleteDocument (store_of k) e d b = (Inl ErrDocumentNotFound, b)"
proof (cases k)
  case (MySQL c)
  with assms(1) have "inj c" by (simp add: backend_ok_def)
  from inj_collation [OF this] assms(2) delete_nothing [OF assms(4,3)] show ?thesis
    by (simp add: MySQL store_of_def mysql_DeleteDocument_def exec_def)
qed (use assms(2) delete_nothing [OF assms(4,3)] in
    \<open>simp_all add: store_of_def sqlite_DeleteDocument_def pg_DeleteDocument_def exec_def\<close>)

lemma set_store_id [simp]: "set_store (world_store w) w = w"
  by (simp add: set_store_def)

text \<open>What a 404 means, and when it is given, for one response.\<close>

definition says_missing :: "string \<Rightarrow> apienv \<Rightarrow> (db, 'd) world \<Rightarrow> response \<Rightarrow> (db, 'd) world \<Rightarrow> bool" where
  "says_missing d e w rs w' \<longleftrightarrow>
     (rs_Status rs = 404 \<longrightarrow> db_view (world_store w) d = None \<and> db_view (world_store w') = db_view (world_store w))
     \<and> (fault_free (dbe (ap_engine e)) \<and> db_view (world_store w) d = None \<longrightarrow> rs = writeError 404 ''document not found'' \<and> w' = w)"

lemma view_None: "db_view b d = None \<longleftrightarrow> d \<notin> doc_ids b"
  by (metis dom_db_view domIff)

lemma delete_says_missing:
  assumes "backend_ok k" "dp_store (a_deps A) = store_of k" "db_inv (world_store w)" "handleDeleteDoc A e d r w = (rs, w')"
  shows "says_missing d e w rs w'"
proof -
  note S = backend_store [OF assms(1)]
  obtain x s where x: "DeleteDocument (store_of k) (dbe (ap_engine e)) d (world_store w) = (x, s)" by fastforce
  show ?thesis
  proof (cases x)
    case (Inl err)
    have h: "rs = docError err" "w' = set_store s w" using assms(2,4) x Inl by (simp_all add: handleDeleteDoc_def delete_rows_def)
    have "db_view (world_store w) d = None \<and> db_view s = db_view (world_store w)" if "errors_Is err ErrDocumentNotFound"
      using delete_error [OF assms(1) x [unfolded Inl] that] store.delete_missing [OF S assms(3)] x Inl by blast
    moreover have "err = ErrDocumentNotFound \<and> s = world_store w" if "fault_free (dbe (ap_engine e))" "db_view (world_store w) d = None"
      using delete_missing_live [OF assms(1) that(1) _ assms(3), of d] that(2) view_None x Inl by simp
    ultimately show ?thesis using h by (auto simp: says_missing_def docError_def set_store_def split: if_splits)
  next
    case (Inr u)
    have "rs_Status rs = 200" using assms(2,4) x Inr by (auto simp: handleDeleteDoc_def delete_rows_def delete_finish_def writeJSON_def)
    moreover have "d \<in> dom (db_view (world_store w))" using store.delete_ok [OF S assms(3)] x Inr by (metis old.unit.exhaust)
    ultimately show ?thesis by (auto simp: says_missing_def view_None)
  qed
qed

text \<open>The other endpoints look the document up first.\<close>

lemma lookup_says_missing:
  assumes "backend_ok k" "dp_store (a_deps A) = store_of k" "db_inv (world_store w)"
    and "ep \<in> {GetDoc, History, SnapshotDoc, ExportDoc}" "management A e ep [d] r w = (rs, w')"
  shows "says_missing d e w rs w'"
proof -
  note S = backend_store [OF assms(1)]
  obtain g where g: "GetDocument (store_of k) (dbe (ap_engine e)) d (world_store w) = g" by blast
  have get: "db_view (world_store w) d = None" if "g = Inl err" "errors_Is err ErrDocumentNotFound" for err
    using get_error [OF assms(1) g [unfolded that(1)] that(2)] g that(1) store.get_missing [OF S assms(3)] by blast
  have miss: "g = Inl ErrDocumentNotFound" if "fault_free (dbe (ap_engine e))" "db_view (world_store w) d = None"
    using get_missing_live [OF assms(1) that(1)] that(2) g view_None by simp
  show ?thesis
  proof (cases g)
    case (Inl err)
    then have "rs = docError err" "w' = w"
      using assms(2,4,5) g by (auto simp: doc_handler_def handleGetDoc_def handleHistory_def handleSnapshot_def handleExport_def)
    then show ?thesis using get [OF Inl] miss Inl by (auto simp: says_missing_def docError_def split: if_splits)
  next
    case (Inr doc)
    then have "rs_Status rs \<noteq> 404"
      using assms(2,4,5) g by (auto simp: doc_handler_def handleGetDoc_def handleHistory_def handleSnapshot_def handleExport_def
          Let_def split: sum.splits prod.splits)
    moreover have "d \<in> dom (db_view (world_store w))" using store.get_ok [OF S assms(3)] g Inr by blast
    ultimately show ?thesis by (auto simp: says_missing_def view_None)
  qed
qed

text \<open>
  C20: A response of 404 means that the document does not exist, on each of the endpoints of
  one document, over each backend and under any failures; and a missing document gives
  exactly this response, with nothing changed, whenever the database answers.
\<close>

theorem missing_document:
  assumes "backend_ok k" "dp_store (a_deps A) = store_of k" "db_inv (world_store w)"
    and "ep \<in> {GetDoc, DeleteDoc, History, SnapshotDoc, ExportDoc}" "management A e ep [d] r w = (rs, w')"
  shows "(rs_Status rs = 404 \<longrightarrow> db_view (world_store w) d = None \<and> db_view (world_store w') = db_view (world_store w))
     \<and> (fault_free (dbe (ap_engine e)) \<and> db_view (world_store w) d = None \<longrightarrow> rs = writeError 404 ''document not found'' \<and> w' = w)"
proof (cases "ep = DeleteDoc")
  case True
  then have "handleDeleteDoc A e d r w = (rs, w')" using assms(5) by (simp add: doc_handler_def)
  from delete_says_missing [OF assms(1-3) this] show ?thesis unfolding says_missing_def .
next
  case False
  then have "ep \<in> {GetDoc, History, SnapshotDoc, ExportDoc}" using assms(4) by blast
  from lookup_says_missing [OF assms(1-3) this assms(5)] show ?thesis unfolding says_missing_def .
qed

theorem missing_document_witness:
  "management demo_api demo_apienv ExportDoc [''nope''] (api_request ''GET'' ''/api/v1/docs/nope/export'' []) api_world
   = (writeError 404 ''document not found'', api_world)"
proof -
  let ?r = "api_request ''GET'' ''/api/v1/docs/nope/export'' []"
  have "backend_ok SQLite" "dp_store (a_deps demo_api) = store_of SQLite" "db_inv (world_store api_world)"
    "db_view (world_store api_world) ''nope'' = None" "fault_free (dbe (ap_engine demo_apienv))"
    using db2_inv by (simp_all add: backend_ok_def demo_api_def store_of_def api_world_def new_world_def new_estate_def db_view_def db2_ops
        demo_apienv_def)
  with missing_document [where k = SQLite and A = demo_api and w = api_world and d = "''nope''" and e = demo_apienv and ep = ExportDoc and r = ?r, OF _ _ _ _ prod.collapse [symmetric]]
  show ?thesis by (simp add: prod_eq_iff)
qed

section \<open>Documents over HTTP\<close>

text \<open>
  C15: An export over HTTP is the document. Without a conflict resolver configured (automatic
  merging), on one node, after any history of engine calls in which no submit and no
  deletion failed, a successful \<^verbatim>\<open>GET .../export\<close> answers with the base64 text of a state that
  loads to exactly the changes of the committed log, and leaves the database as it was.
\<close>

theorem http_export:
  assumes "backend_ok k" "automerge_laws (dp_automerge (a_deps A)) content changes" "e_resolver (dp_engine (a_deps A)) = None"
    and "int (length ops) \<le> max_i64" "dp_store (a_deps A) = store_of k"
    and "no_failure (store_of k) (dp_automerge (a_deps A)) (dp_engine (a_deps A)) ops (new_estate empty_db)"
    and "w_engine w = run_eops (store_of k) (dp_automerge (a_deps A)) (dp_engine (a_deps A)) ops (new_estate empty_db)"
    and "handleExport A e d r w = (rs, w')" "rs_Status rs = 200"
  shows "world_store w' = world_store w
     \<and> (\<exists>b x. rs_Body rs = show_json (JObj [(''doc_id'', JStr d), (''state'', JStr (b64_EncodeToString b))]) @ [CHR 0x0A]
          \<and> crdt_Load (dp_automerge (a_deps A)) b = Inr x
          \<and> content x = log_changes changes (db_view (world_store w)) d)"
proof -
  have ok: "store.eng_ok db_inv db_view True (dp_automerge (a_deps A)) content changes (w_engine w)"
    using reach_ok(1) [where ex = True, OF assms(1-4,6)] by (simp add: assms(7))
  obtain x st where x: "Export (store_of k) (dp_automerge (a_deps A)) (ap_engine e) d (w_engine w) = (x, st)" by fastforce
  note ex = store.export_call_ok [OF backend_store [OF assms(1)] assms(2) ok x]
  have "docError err \<noteq> rs" for err using assms(9) by (auto simp: docError_def)
  then obtain b where b: "x = Inr b" "rs = writeJSON 200 (Some (JObj [(''doc_id'', JStr d), (''state'', JBytes b)]))" "w' = w\<lparr>w_engine := st\<rparr>"
    using assms(5,8,9) x by (auto simp: handleExport_def split: sum.splits)
  with ex show ?thesis by (auto simp: covers_def writeJSON_def JBytes_def)
qed

theorem http_export_witness:
  "\<exists>b x. rs_Body (fst (handleExport demo_api demo_apienv ''doc'' (api_request ''GET'' ''/api/v1/docs/doc/export'' [])
        (new_world (run_eops sqlite_store am_set cfg0 hist (new_estate empty_db)))))
      = show_json (JObj [(''doc_id'', JStr ''doc''), (''state'', JStr (b64_EncodeToString b))]) @ [CHR 0x0A]
     \<and> crdt_Load am_set b = Inr x \<and> set x = {[5], [6]}"
proof -
  let ?st = "run_eops (store_of SQLite) am_set cfg0 hist (new_estate empty_db)"
  let ?w = "new_world ?st"
  let ?h = "handleExport demo_api demo_apienv ''doc'' (api_request ''GET'' ''/api/v1/docs/doc/export'' []) ?w"
  have A: "dp_automerge (a_deps demo_api) = am_set" "dp_engine (a_deps demo_api) = cfg0" "dp_store (a_deps demo_api) = store_of SQLite"
    "ap_engine demo_apienv = calm_e 9" by (simp_all add: demo_api_def store_of_def demo_apienv_def)
  have w: "w_engine ?w = ?st" by (simp add: new_world_def)
  have ok: "backend_ok SQLite" "int (length hist) \<le> max_i64" by (simp_all add: backend_ok_def hist_def max_i64_def)
  have nf: "no_failure (store_of SQLite) am_set cfg0 hist (new_estate empty_db)" by code_simp
  have "\<not> isl (GetDocument (store_of SQLite) (dbe (calm_e 9)) ''doc'' (e_store ?st))"
    "\<not> isl (fst (Export (store_of SQLite) am_set (calm_e 9) ''doc'' ?st))" by code_simp+
  then have st: "rs_Status (fst ?h) = 200" by (auto simp: handleExport_def A w isl_def split: sum.splits prod.splits)
  have h: "?h = (fst ?h, snd ?h)" by simp
  from http_export [where A = demo_api and w = ?w, unfolded A, OF ok(1) am_set_laws cfg0_sel(1) ok(2) refl nf w h st]
  obtain b x where b: "rs_Body (fst ?h) = show_json (JObj [(''doc_id'', JStr ''doc''), (''state'', JStr (b64_EncodeToString b))]) @ [CHR 0x0A]"
    "crdt_Load am_set b = Inr x" "set x = log_changes (\<lambda>p. {p}) (db_view (world_store ?w)) ''doc''" by blast
  have "map op_Payload (log_of (db_view (e_store ?st)) ''doc'') = [[5], [6]]" by code_simp
  then have "log_changes (\<lambda>p. {p}) (db_view (e_store ?st)) ''doc'' = {[5], [6]}"
    by (auto simp: log_changes_def map_eq_Cons_conv)
  with b show ?thesis by (intro exI [of _ b] exI [of _ x]) (simp add: store_of_def new_world_def)
qed

section \<open>Other origins\<close>

lemma matchOrigin_allowed:
  "matchOrigin allowed origin = v \<Longrightarrow> v \<noteq> [] \<Longrightarrow>
     (v = ''*'' \<and> ''*'' \<in> set allowed) \<or> (v = origin \<and> (\<exists>a \<in> set allowed. EqualFold a origin))"
  by (induction allowed) (auto split: if_splits)

lemma cors_headers_origin:
  "(''Access-Control-Allow-Origin'', v) \<in> set (cors_headers allowed origin) \<Longrightarrow> v = matchOrigin allowed origin \<and> v \<noteq> []"
  by (auto simp: cors_headers_def Let_def split: if_splits)

text \<open>
  C38: CORS opens the API to the configured origins only. A response allows an origin only if the
  configuration has a wildcard or an entry equal to the request's origin up to case, in
  which case exactly that origin is echoed; a preflight request gets 204 and reaches no handler.
\<close>

theorem cors_allows_configured:
  assumes "cors cfg nxt r w = (Inr (Responded rs), w')"
    and "\<And>rs' w'. nxt r w = (Inr (Responded rs'), w') \<Longrightarrow> ''Access-Control-Allow-Origin'' \<notin> fst ` set (rs_Header rs')"
  shows "(\<forall>v. (''Access-Control-Allow-Origin'', v) \<in> set (rs_Header rs) \<longrightarrow>
          (v = ''*'' \<and> ''*'' \<in> set (AllowedOrigins (c_CORS cfg)))
          \<or> (v = Header_Get r ''Origin'' \<and> (\<exists>a \<in> set (AllowedOrigins (c_CORS cfg)). EqualFold a (Header_Get r ''Origin''))))
     \<and> (r_Method r = ''OPTIONS'' \<longrightarrow> rs_Status rs = 204 \<and> rs_Body rs = [] \<and> w' = w)"
proof -
  let ?hs = "cors_headers (AllowedOrigins (c_CORS cfg)) (Header_Get r ''Origin'')"
  have origin: "(v = ''*'' \<and> ''*'' \<in> set (AllowedOrigins (c_CORS cfg)))
          \<or> (v = Header_Get r ''Origin'' \<and> (\<exists>a \<in> set (AllowedOrigins (c_CORS cfg)). EqualFold a (Header_Get r ''Origin'')))"
    if "(''Access-Control-Allow-Origin'', v) \<in> set ?hs" for v
    using cors_headers_origin [OF that] matchOrigin_allowed [of "AllowedOrigins (c_CORS cfg)" "Header_Get r ''Origin''" v] by blast
  show ?thesis
  proof (cases "r_Method r = ''OPTIONS''")
    case True
    then have "rs = \<lparr>rs_Status = 204, rs_Header = ?hs, rs_Body = []\<rparr>" "w' = w"
      using assms(1) by (auto simp: cors_def Let_def)
    then have "set (rs_Header rs) = set ?hs" "rs_Status rs = 204" "rs_Body rs = []" by simp_all
    then show ?thesis using origin \<open>w' = w\<close> by blast
  next
    case False
    obtain x w1 where x: "nxt r w = (x, w1)" by fastforce
    with False assms(1) obtain rp where rp: "x = Inr rp" "add_headers ?hs rp = Responded rs"
      by (cases x) (auto simp: cors_def Let_def)
    then obtain rs' where rs': "rp = Responded rs'" "rs_Header rs = ?hs @ rs_Header rs'" by (cases rp) auto
    then have "''Access-Control-Allow-Origin'' \<notin> fst ` set (rs_Header rs')" using assms(2) x rp(1) by blast
    then have "(''Access-Control-Allow-Origin'', v) \<notin> set (rs_Header rs')" for v by (metis fst_conv image_eqI)
    then have "(''Access-Control-Allow-Origin'', v) \<in> set (rs_Header rs) \<Longrightarrow> (''Access-Control-Allow-Origin'', v) \<in> set ?hs" for v
      unfolding rs'(2) set_append by blast
    with origin False show ?thesis by blast
  qed
qed

theorem cors_allows_configured_witness:
  "let cfg = Default\<lparr>c_CORS := \<lparr>AllowedOrigins = [''https://App.example'']\<rparr>\<rparr>;
       r = api_request ''OPTIONS'' ''/api/v1/docs'' [(''Origin'', ''https://app.example'')];
       rs = \<lparr>rs_Status = 204, rs_Header = cors_headers [''https://App.example''] ''https://app.example'', rs_Body = []\<rparr>
   in cors cfg (\<lambda>r w. (Inr (Responded (writeError 500 [])), w)) r api_world = (Inr (Responded rs), api_world)
     \<and> (''Access-Control-Allow-Origin'', ''https://app.example'') \<in> set (rs_Header rs)
     \<and> EqualFold ''https://App.example'' ''https://app.example''"
proof -
  let ?cfg = "Default\<lparr>c_CORS := \<lparr>AllowedOrigins = [''https://App.example'']\<rparr>\<rparr>"
  let ?r = "api_request ''OPTIONS'' ''/api/v1/docs'' [(''Origin'', ''https://app.example'')]"
  let ?rs = "\<lparr>rs_Status = 204, rs_Header = cors_headers [''https://App.example''] ''https://app.example'', rs_Body = []\<rparr>"
  let ?nxt = "\<lambda>r w. (Inr (Responded (writeError 500 [])), w)"
  have g: "Header_Get ?r ''Origin'' = ''https://app.example''" by code_simp
  then have c: "cors ?cfg ?nxt ?r api_world = (Inr (Responded ?rs), api_world)"
    by (simp add: cors_def api_request_def)
  have h: "(''Access-Control-Allow-Origin'', ''https://app.example'') \<in> set (rs_Header ?rs)" by code_simp
  have "''Access-Control-Allow-Origin'' \<notin> fst ` set (rs_Header rs')" if "?nxt ?r api_world = (Inr (Responded rs'), w'')" for rs' w''
    using that by (auto simp: writeError_def writeJSON_def)
  from cors_allows_configured [OF c this] h g
  have "EqualFold ''https://App.example'' ''https://app.example''" by (simp del: response.simps)
  with c h show ?thesis by simp
qed

section \<open>A deletion overtaken by a change\<close>

text \<open>
  A deletion while other requests are served: the handler's two actions, with any number of
  messages of clients and of snapshots through the API handled before, between and after
  them.
\<close>

datatype delete_pc = AtRows | AtForget | Answered response

inductive delete_step ::
  "('s, 'd) API \<Rightarrow> apienv \<Rightarrow> string \<Rightarrow> delete_pc \<times> ('s, 'd) world \<Rightarrow> delete_pc \<times> ('s, 'd) world \<Rightarrow> bool" for A e d where
  rows_deleted: "delete_rows A e d w = (Inr (), w1) \<Longrightarrow> delete_step A e d (AtRows, w) (AtForget, w1)"
| rows_refused: "delete_rows A e d w = (Inl err, w1) \<Longrightarrow> delete_step A e d (AtRows, w) (Answered (docError err), w1)"
| forgotten: "delete_finish A d w = (rs, w1) \<Longrightarrow> delete_step A e d (AtForget, w) (Answered rs, w1)"
| client_sync: "delete_step A e d (pc, w) (pc, handleSync (a_deps A) he i m w)"
| snapshot_request: "delete_step A e d (pc, w) (pc, snd (handleSnapshot A e' d' r w))"

text \<open>Alone, the steps are the handler.\<close>

lemma delete_steps_handler:
  assumes "handleDeleteDoc A e d r w = (rs, w')"
  shows "(delete_step A e d)\<^sup>*\<^sup>* (AtRows, w) (Answered rs, w')"
proof -
  obtain x w1 where x: "delete_rows A e d w = (x, w1)" by fastforce
  show ?thesis
  proof (cases x)
    case (Inl err)
    with x assms have "rs = docError err" "w' = w1" by (simp_all add: handleDeleteDoc_def)
    then show ?thesis using rows_refused [OF x [unfolded Inl]] by (simp add: r_into_rtranclp)
  next
    case (Inr y)
    with x have "delete_step A e d (AtRows, w) (AtForget, w1)" by (intro rows_deleted) simp
    moreover have "delete_step A e d (AtForget, w1) (Answered rs, w')"
      using x Inr assms by (intro forgotten) (simp add: handleDeleteDoc_def)
    ultimately show ?thesis by (meson converse_rtranclp_into_rtranclp r_into_rtranclp)
  qed
qed

lemma conn_calls_engine [simp]:
  "w_engine (reply e cid msg w) = w_engine w" "w_engine (conn_emit D ev flds w) = w_engine w" "w_engine (tally D f w) = w_engine w"
  by (simp_all add: reply_def upd_conn_def conn_emit_def outside_def tally_def)

lemma sync_engine:
  assumes "dp_broadcast D = hub_broadcaster" "in_DocID m \<noteq> []"
    and "Submit (dp_store D) (dp_automerge D) (dp_engine D) (he_engine he) (in_DocID m) (in_SessionID m)
      (UserID (cn_identity (conn_at (default_session i (in_DocID m) (in_SessionID m) w) i))) (in_Payload m) (w_engine w) = (Inr q, st, fx)"
  shows "w_engine (handleSync D he i m w) = st"
proof -
  have "w_engine (default_session i (in_DocID m) (in_SessionID m) w) = w_engine w" by (simp add: default_session_def upd_conn_def)
  with assms show ?thesis
    by (simp add: handleSync_def submit_def submit_done_def hb.effects_engine [OF assms(1)] Let_def)
qed

text \<open>A submit with a snapshot after it, to a document whose rows are gone and that is still cached.\<close>

lemma revived:
  assumes "backend_ok k" "automerge_laws A content changes" "e_resolver c = None"
    and "db_inv (e_store st)" "db_view (e_store st) d = None" "e_docs st d = Some x"
    and "fst (crdt_Apply A x p) = None" "d \<noteq> []" "p \<noteq> []" "fault_free (dbe e1)" "fault_free (dbe e2)"
  shows "\<exists>st1 fx st2. Submit (store_of k) A c e1 d u uid p st = (Inr 1, st1, fx) \<and> Snapshot (store_of k) A e2 d st1 = (Inr 1, st2)
     \<and> d \<in> doc_ids (e_store st1) \<and> db_inv (e_store st1) \<and> map op_Payload (log_of (db_view (e_store st2)) d) = [p]
     \<and> (\<forall>e3 est. fault_free (dbe e3) \<longrightarrow> e_store est = e_store st2 \<longrightarrow> e_docs est d = None \<longrightarrow>
          (\<exists>b st3 y. Export (store_of k) A e3 d est = (Inr b, st3) \<and> crdt_Load A b = Inr y \<and> content y = content x \<union> changes p))"
proof -
  note S = backend_store [OF assms(1)]
  have log: "log_of (db_view (e_store st)) d = []" "dom (snaps_of (db_view (e_store st)) d) = {}" using assms(5) by simp_all
  have n: "int (length (log_of (db_view (e_store st)) d)) < max_i64"
    and le: "\<forall>j \<in> dom (snaps_of (db_view (e_store st)) d). j \<le> int (length (log_of (db_view (e_store st)) d))"
    by (simp_all only: log) (simp_all add: max_i64_def)
  obtain y where y: "crdt_Apply A x p = (None, y)" using assms(7) by (metis prod.collapse)
  obtain q s where s: "AppendOp (store_of k) (dbe e1) d p u (e_store st) = (Inr q, s)"
    using store.append_live [OF S assms(4,10) n] by blast
  have "\<exists>st1 fx. Submit (store_of k) A c e1 d u uid p st = (Inr q, st1, fx)"
    using assms(3,6,8,9) y s by (simp add: Submit_def state_def applyChange_def set_doc_def Let_def)
  then obtain st1 fx where sub: "Submit (store_of k) A c e1 d u uid p st = (Inr q, st1, fx)" by blast
  from store.submit_snaps_le [OF S assms(4) n le sub] obtain t where st1: "db_inv (e_store st1)" "q = 1"
    "log_of (db_view (e_store st1)) d = [\<lparr>op_Seq = 1, op_DocID = d, op_SessionID = u, op_Payload = p, op_CreatedAt = t\<rparr>]"
    "\<forall>j \<in> dom (snaps_of (db_view (e_store st1)) d). j \<le> int (length (log_of (db_view (e_store st1)) d))"
    using log(1) by auto
  have doc: "e_docs st1 d = Some y" using store.submit_success [OF S sub] assms(3,6) y by auto
  have dom: "d \<in> dom (db_view (e_store st1))"
  proof (rule ccontr)
    assume "d \<notin> dom (db_view (e_store st1))"
    then have "db_view (e_store st1) d = None" by blast
    then have "log_of (db_view (e_store st1)) d = []" by (rule log_of_empty)
    then show False using st1(3) by simp
  qed
  obtain q' where "GetLatestSeq (store_of k) (dbe e2) d (e_store st1) = Inr q'" using store.latest_live [OF S st1(1) assms(11)] by blast
  then have latest: "GetLatestSeq (store_of k) (dbe e2) d (e_store st1) = Inr 1"
    using store.latest [OF S st1(1), of "dbe e2" d q'] st1(3) by simp
  obtain s2 where s2: "SaveSnapshot (store_of k) (dbe e2) d (crdt_Save A y) 1 (e_store st1) = (Inr (), s2)"
    using store.save_live [OF S st1(1) assms(11) dom] by blast
  have snap: "Snapshot (store_of k) A e2 d st1 = (Inr 1, st1\<lparr>e_store := s2\<rparr>)" using doc latest s2 by (simp add: Snapshot_def state_def)
  have one: "int (length (log_of (db_view (e_store st1)) d)) = 1" using st1(3) by simp
  note ex = store.saved_export [OF S assms(2) st1(1,4) s2 [folded one]]
  have "map op_Payload (log_of (db_view s2) d) = [p]" using store.save_log [OF S st1(1) s2, of d] st1(3) by simp
  moreover have "content y = content x \<union> changes p" using laws_Apply_ok [OF assms(2) y] .
  ultimately show ?thesis
    using sub snap st1(1,2) dom ex by (intro exI [of _ st1] exI [of _ fx] exI [of _ "st1\<lparr>e_store := s2\<rparr>"]) auto
qed

text \<open>
  C40: A deleted document can come back. \<^verbatim>\<open>handleDeleteDoc\<close> deletes the rows and then drops the
  cached document, with no lock around the two. On a server without a conflict resolver
  whose cache has the document: whenever the rows of the document are deleted, the other
  requests can make a run in which the deletion is answered with 200 and the log holds only
  a change \<open>p\<close> submitted in between, and yet every export afterwards, while no database
  call fails, holds the deleted content besides \<open>p\<close>. The submit finds the document in
  the cache, and a snapshot request stores it.
\<close>

theorem deleted_content_returns:
  assumes "backend_ok k" "automerge_laws (dp_automerge (a_deps A)) content changes" "e_resolver (dp_engine (a_deps A)) = None"
    and "dp_store (a_deps A) = store_of k" "dp_broadcast (a_deps A) = hub_broadcaster"
    and "db_inv (world_store w)" "e_docs (w_engine w) d = Some x" "fst (delete_rows A e d w) = Inr ()"
    and "fst (crdt_Apply (dp_automerge (a_deps A)) x p) = None" "d \<noteq> []" "p \<noteq> []"
  shows "\<exists>rs w'. (delete_step A e d)\<^sup>*\<^sup>* (AtRows, w) (Answered rs, w') \<and> rs_Status rs = 200
     \<and> map op_Payload (log_of (db_view (world_store w')) d) = [p]
     \<and> (\<forall>e2. fault_free (dbe e2) \<longrightarrow> (\<exists>b st y. Export (store_of k) (dp_automerge (a_deps A)) e2 d (w_engine w') = (Inr b, st)
          \<and> crdt_Load (dp_automerge (a_deps A)) b = Inr y \<and> content y = content x \<union> changes p))"
proof -
  note S = backend_store [OF assms(1)]
  define e' where "e' = demo_apienv"
  have ff: "fault_free (dbe (ap_engine e'))" by (simp add: e'_def demo_apienv_def)
  let ?D = "a_deps A" and ?m = "\<lparr>in_Type = TypeSync, in_DocID = d, in_SessionID = [], in_Payload = p, in_LastSeq = 0\<rparr>"
  let ?he = "\<lparr>he_engine = ap_engine e', he_pick = (\<lambda>_ _. True), he_now = 0\<rparr>"
  obtain s where s: "DeleteDocument (store_of k) (dbe (ap_engine e)) d (world_store w) = (Inr (), s)"
    using assms(4,8) by (cases "DeleteDocument (store_of k) (dbe (ap_engine e)) d (world_store w)") (simp add: delete_rows_def)
  define w1 where "w1 = set_store s w"
  have del: "delete_step A e d (AtRows, w) (AtForget, w1)" by (rule rows_deleted) (simp add: delete_rows_def assms(4) s w1_def)
  have w1: "db_inv (e_store (w_engine w1))" "db_view (e_store (w_engine w1)) d = None" "e_docs (w_engine w1) d = Some x"
    using store.delete_ok [OF S assms(6) s] assms(7) by (simp_all add: w1_def set_store_def)
  let ?uid = "UserID (cn_identity (conn_at (default_session 0 d [] w1) 0))"
  from revived [OF assms(1-3) w1 assms(9-11) ff ff, of "[]" ?uid] obtain st1 fx st2 where st:
    "Submit (store_of k) (dp_automerge ?D) (dp_engine ?D) (ap_engine e') d [] ?uid p (w_engine w1) = (Inr 1, st1, fx)"
    "Snapshot (store_of k) (dp_automerge ?D) (ap_engine e') d st1 = (Inr 1, st2)" "d \<in> doc_ids (e_store st1)" "db_inv (e_store st1)"
    "map op_Payload (log_of (db_view (e_store st2)) d) = [p]"
    "\<forall>e3 est. fault_free (dbe e3) \<longrightarrow> e_store est = e_store st2 \<longrightarrow> e_docs est d = None \<longrightarrow>
       (\<exists>b st3 y. Export (store_of k) (dp_automerge ?D) e3 d est = (Inr b, st3) \<and> crdt_Load (dp_automerge ?D) b = Inr y
         \<and> content y = content x \<union> changes p)" by (elim exE conjE)
  define w2 where "w2 = handleSync ?D ?he 0 ?m w1"
  have w2: "w_engine w2 = st1" unfolding w2_def by (rule sync_engine) (use assms(4,5,10) st(1) in simp_all)
  define w3 where "w3 = snd (handleSnapshot A e' d (api_request [] [] []) w2)"
  have "d \<in> dom (db_view (e_store st1))" using st(3) by simp
  then obtain doc where "GetDocument (store_of k) (dbe (ap_engine e')) d (e_store st1) = Inr doc"
    using store.get_live [OF S st(4) ff] by blast
  then have w3: "w_engine w3 = st2" using st(2) by (simp add: w3_def handleSnapshot_def assms(4) w2)
  obtain rs w' where fin: "delete_finish A d w3 = (rs, w')" by fastforce
  then have w': "rs_Status rs = 200" "w_engine w' = Forget d st2" by (auto simp: delete_finish_def writeJSON_def w3)
  have "(delete_step A e d)\<^sup>*\<^sup>* (AtRows, w) (Answered rs, w')"
    using del client_sync [of A e d AtForget w1 ?he 0 ?m, folded w2_def] snapshot_request [of A e d AtForget w2 e' d "api_request [] [] []", folded w3_def]
      forgotten [OF fin] by (meson converse_rtranclp_into_rtranclp r_into_rtranclp)
  moreover have "\<forall>e2. fault_free (dbe e2) \<longrightarrow> (\<exists>b st y. Export (store_of k) (dp_automerge ?D) e2 d (w_engine w') = (Inr b, st)
      \<and> crdt_Load (dp_automerge ?D) b = Inr y \<and> content y = content x \<union> changes p)"
    using st(6) [rule_format, of _ "w_engine w'"] w'(2) by (simp add: Forget_def)
  moreover have "map op_Payload (log_of (db_view (world_store w')) d) = [p]" using st(5) w'(2) by (simp add: Forget_def)
  ultimately show ?thesis using w'(1) by (intro exI [of _ rs] exI [of _ w']) simp
qed

theorem deleted_content_returns_witness:
  "\<exists>w rs w' b st y. e_docs (w_engine w) ''doc'' = Some [[5]] \<and> (delete_step demo_api demo_apienv ''doc'')\<^sup>*\<^sup>* (AtRows, w) (Answered rs, w')
     \<and> rs_Status rs = 200 \<and> map op_Payload (log_of (db_view (world_store w')) ''doc'') = [[6]]
     \<and> Export (store_of SQLite) am_set (calm_e 12) ''doc'' (w_engine w') = (Inr b, st) \<and> crdt_Load am_set b = Inr y \<and> set y = {[5], [6]}"
proof -
  define w where "w = new_world (run_eops (store_of SQLite) am_set cfg0 [(calm_e 1, OSubmit ''doc'' ''s1'' [] [5])] (new_estate empty_db))"
  have ok: "backend_ok SQLite" by (simp add: backend_ok_def)
  have eng: "w_engine w = run_eops (store_of SQLite) am_set cfg0 [(calm_e 1, OSubmit ''doc'' ''s1'' [] [5])] (new_estate empty_db)"
    by (simp add: w_def new_world_def)
  have inv: "db_inv (world_store w)"
    using reach_weak(1) [OF ok am_set_laws cfg0_sel(1), of "[(calm_e 1, OSubmit ''doc'' ''s1'' [] [5])]"]
    by (simp only: store.eng_ok_def [OF backend_store [OF ok]] eng) (simp add: max_i64_def)
  have x: "e_docs (w_engine w) ''doc'' = Some [[5]]" unfolding eng by code_simp
  have "fst (DeleteDocument (store_of SQLite) (calm 9) ''doc'' (world_store w)) = Inr ()" unfolding eng by code_simp
  then have del: "fst (delete_rows demo_api demo_apienv ''doc'' w) = Inr ()"
    by (simp add: delete_rows_def demo_api_def demo_apienv_def calm_e_def store_of_def)
  have deps: "automerge_laws (dp_automerge (a_deps demo_api)) set (\<lambda>p. {p})" "e_resolver (dp_engine (a_deps demo_api)) = None"
    "dp_store (a_deps demo_api) = store_of SQLite" "dp_broadcast (a_deps demo_api) = hub_broadcaster" "dp_automerge (a_deps demo_api) = am_set"
    using am_set_laws by (simp_all add: demo_api_def store_of_def)
  have p: "fst (crdt_Apply (dp_automerge (a_deps demo_api)) [[5]] [6]) = None" unfolding deps(5) by code_simp
  from deleted_content_returns [OF ok deps(1-4) inv x del p] obtain rs w' where w':
    "(delete_step demo_api demo_apienv ''doc'')\<^sup>*\<^sup>* (AtRows, w) (Answered rs, w')" "rs_Status rs = 200"
    "map op_Payload (log_of (db_view (world_store w')) ''doc'') = [[6]]"
    "\<And>e2. fault_free (dbe e2) \<Longrightarrow> \<exists>b st y. Export (store_of SQLite) am_set e2 ''doc'' (w_engine w') = (Inr b, st)
       \<and> crdt_Load am_set b = Inr y \<and> set y = set [[5]] \<union> {[6]}" unfolding deps(5) by auto
  obtain b st y where "Export (store_of SQLite) am_set (calm_e 12) ''doc'' (w_engine w') = (Inr b, st)" "crdt_Load am_set b = Inr y"
    "set y = set [[5]] \<union> {[6]}" using w'(4) [OF calm_e_fault_free] by blast
  then show ?thesis
    using x w'(1-3) by (intro exI [of _ w] exI [of _ rs] exI [of _ w'] exI [of _ b] exI [of _ st] exI [of _ y]) (simp add: insert_commute)
qed

end
