(* ===== verification/Migrations.thy ===== *)
theory Migrations
  imports Backends Gourl
begin

text \<open>
  The schemas of the three backends and how they are applied (\<^verbatim>\<open>migrate\<close> of \<^verbatim>\<open>sqlite.go\<close>,
  \<^verbatim>\<open>postgres.go\<close> and \<^verbatim>\<open>mysql.go\<close>): the catalogue of a database, the statements, and runs of
  them in which any call may fail or be lost.
\<close>

section \<open>The catalogue of a database\<close>

text \<open>
  A column with its type and default; all columns are \<^verbatim>\<open>NOT NULL\<close>, the primary key by being one. A foreign
  key cascades.
\<close>

record column =
  co_name :: string
  co_type :: string
  co_default :: "string option"

record table =
  tb_name :: string
  tb_columns :: "column list"
  tb_primary :: "string list"
  tb_references :: "(string \<times> string \<times> string) list"
  tb_indexes :: "(string \<times> string) list"

datatype ddl =
    CreateTable table   \<comment> \<open>\<^verbatim>\<open>CREATE TABLE IF NOT EXISTS\<close>\<close>
  | CreateIndex string string string   \<comment> \<open>\<^verbatim>\<open>CREATE INDEX IF NOT EXISTS name ON table(column)\<close>\<close>

record catalog =
  ct_tables :: "table list"
  ct_indexes :: "(string \<times> string \<times> string) list"
  ct_versions :: "(int \<times> int) list"   \<comment> \<open>the rows of \<^verbatim>\<open>schema_migrations\<close>\<close>
  ct_db :: db

definition has_table :: "catalog \<Rightarrow> string \<Rightarrow> bool" where
  "has_table c n \<longleftrightarrow> n \<in> set (map tb_name (ct_tables c))"

text \<open>The effect of a statement: a table that another one refers to has to exist, and so does the table of an index.\<close>

fun run_ddl :: "ddl \<Rightarrow> catalog \<Rightarrow> string + catalog" where
  "run_ddl (CreateTable t) c =
     (if has_table c (tb_name t) then Inr c
      else if \<not> list_all (\<lambda>(_, r, _). has_table c r) (tb_references t) then Inl ''referenced table does not exist''
      else Inr (c\<lparr>ct_tables := ct_tables c @ [t],
                 ct_indexes := ct_indexes c @ map (\<lambda>(i, col). (i, tb_name t, col)) (tb_indexes t)\<rparr>))"
| "run_ddl (CreateIndex i t col) c =
     (if i \<in> fst ` set (ct_indexes c) then Inr c
      else if \<not> has_table c t then Inl ''no such table''
      else Inr (c\<lparr>ct_indexes := ct_indexes c @ [(i, t, col)]\<rparr>))"

text \<open>\<^verbatim>\<open>INSERT INTO schema_migrations\<close> and the highest version recorded.\<close>

definition insert_version :: "int \<Rightarrow> int \<Rightarrow> catalog \<Rightarrow> string + catalog" where
  "insert_version v t c =
     (if \<not> has_table c ''schema_migrations'' then Inl ''no such table''
      else if v \<in> fst ` set (ct_versions c) then Inl ''duplicate key''
      else Inr (c\<lparr>ct_versions := ct_versions c @ [(v, t)]\<rparr>))"

definition max_version :: "catalog \<Rightarrow> int" where
  "max_version c = (case map fst (ct_versions c) of [] \<Rightarrow> 0 | v # vs \<Rightarrow> fold max vs v)"

section \<open>Calls on the database\<close>

text \<open>
  A run meets a list of outcomes, one for each call it makes on the database; beyond the list, calls succeed.
  A lost call has its effect although it reports an error.
\<close>

record session =
  se_cat :: catalog
  se_outs :: "outcome list"

definition outcome_now :: "session \<Rightarrow> outcome" where
  "outcome_now s = (case se_outs s of [] \<Rightarrow> Succeeds | x # _ \<Rightarrow> x)"

definition do_exec :: "(catalog \<Rightarrow> string + catalog) \<Rightarrow> session \<Rightarrow> goerr option \<times> session" where
  "do_exec f s =
     (let c' = (case f (se_cat s) of Inl _ \<Rightarrow> se_cat s | Inr c \<Rightarrow> c); s' = s\<lparr>se_outs := tl (se_outs s)\<rparr> in
      case outcome_now s of
        Succeeds \<Rightarrow> (case f (se_cat s) of Inl m \<Rightarrow> (Some (drv m), s') | Inr c \<Rightarrow> (None, s'\<lparr>se_cat := c\<rparr>))
      | Fails m \<Rightarrow> (Some (drv m), s')
      | Lost m \<Rightarrow> (Some (drv m), s'\<lparr>se_cat := c'\<rparr>))"

text \<open>Statements one after the other, up to the first error.\<close>

fun do_all :: "ddl list \<Rightarrow> session \<Rightarrow> goerr option \<times> session" where
  "do_all [] s = (None, s)"
| "do_all (d # ds) s =
     (case do_exec (run_ddl d) s of (Some err, s') \<Rightarrow> (Some err, s') | (None, s') \<Rightarrow> do_all ds s')"

text \<open>\<^verbatim>\<open>SELECT COALESCE(MAX(version), 0) FROM schema_migrations\<close>.\<close>

definition read_version :: "session \<Rightarrow> int res \<times> session" where
  "read_version s =
     (case do_exec (\<lambda>c. if has_table c ''schema_migrations'' then Inr c else Inl ''no such table'') s of
        (Some err, s') \<Rightarrow> (Inl err, s')
      | (None, s') \<Rightarrow> (Inr (max_version (se_cat s)), s'))"

definition not_null :: "string \<Rightarrow> string \<Rightarrow> column" where
  "not_null n t = \<lparr>co_name = n, co_type = t, co_default = None\<rparr>"

definition not_null_default :: "string \<Rightarrow> string \<Rightarrow> string \<Rightarrow> column" where
  "not_null_default n t d = \<lparr>co_name = n, co_type = t, co_default = Some d\<rparr>"

section \<open>SQLite (sqlite.go)\<close>

definition sqliteSchema :: "ddl list" where
  "sqliteSchema =
     [CreateTable \<lparr>tb_name = ''documents'',
        tb_columns = [not_null ''id'' ''TEXT'', not_null_default ''metadata'' ''TEXT'' ''{}'', not_null_default ''latest_seq'' ''INTEGER'' ''0'',
          not_null ''created_at'' ''INTEGER'', not_null ''updated_at'' ''INTEGER''],
        tb_primary = [''id''], tb_references = [], tb_indexes = []\<rparr>,
      CreateTable \<lparr>tb_name = ''operations'',
        tb_columns = [not_null ''doc_id'' ''TEXT'', not_null ''seq'' ''INTEGER'', not_null_default ''session_id'' ''TEXT'' [],
          not_null ''payload'' ''BLOB'', not_null ''created_at'' ''INTEGER''],
        tb_primary = [''doc_id'', ''seq''], tb_references = [(''doc_id'', ''documents'', ''id'')], tb_indexes = []\<rparr>,
      CreateTable \<lparr>tb_name = ''snapshots'',
        tb_columns = [not_null ''doc_id'' ''TEXT'', not_null ''seq'' ''INTEGER'', not_null ''state'' ''BLOB'', not_null ''created_at'' ''INTEGER''],
        tb_primary = [''doc_id'', ''seq''], tb_references = [(''doc_id'', ''documents'', ''id'')], tb_indexes = []\<rparr>,
      CreateIndex ''idx_documents_updated_at'' ''documents'' ''updated_at'']"

text \<open>The driver runs the statements of the text one by one.\<close>

definition sqlite_migrate :: "session \<Rightarrow> goerr option \<times> session" where
  "sqlite_migrate s = do_all sqliteSchema s"

section \<open>PostgreSQL (postgres.go)\<close>

definition pgMigrations :: "ddl list list" where
  "pgMigrations =
     [[CreateTable \<lparr>tb_name = ''documents'',
        tb_columns = [not_null ''id'' ''TEXT'', not_null_default ''metadata'' ''TEXT'' ''{}'', not_null_default ''latest_seq'' ''BIGINT'' ''0'',
          not_null ''created_at'' ''BIGINT'', not_null ''updated_at'' ''BIGINT''],
        tb_primary = [''id''], tb_references = [], tb_indexes = []\<rparr>,
      CreateTable \<lparr>tb_name = ''operations'',
        tb_columns = [not_null ''doc_id'' ''TEXT'', not_null ''seq'' ''BIGINT'', not_null_default ''session_id'' ''TEXT'' [],
          not_null ''payload'' ''BYTEA'', not_null ''created_at'' ''BIGINT''],
        tb_primary = [''doc_id'', ''seq''], tb_references = [(''doc_id'', ''documents'', ''id'')], tb_indexes = []\<rparr>,
      CreateTable \<lparr>tb_name = ''snapshots'',
        tb_columns = [not_null ''doc_id'' ''TEXT'', not_null ''seq'' ''BIGINT'', not_null ''state'' ''BYTEA'', not_null ''created_at'' ''BIGINT''],
        tb_primary = [''doc_id'', ''seq''], tb_references = [(''doc_id'', ''documents'', ''id'')], tb_indexes = []\<rparr>,
      CreateIndex ''idx_documents_updated_at'' ''documents'' ''updated_at'']]"

definition pg_schema_migrations :: ddl where
  "pg_schema_migrations = CreateTable \<lparr>tb_name = ''schema_migrations'',
     tb_columns = [not_null ''version'' ''BIGINT'', not_null ''applied_at'' ''BIGINT''],
     tb_primary = [''version''], tb_references = [], tb_indexes = []\<rparr>"

text \<open>
  \<^verbatim>\<open>applyMigration\<close>: one transaction. An error before the commit rolls the catalogue back; a failed
  commit has no effect, a lost one has.
\<close>

fun run_ddls :: "ddl list \<Rightarrow> catalog \<Rightarrow> string + catalog" where
  "run_ddls [] c = Inr c"
| "run_ddls (d # ds) c = (case run_ddl d c of Inl m \<Rightarrow> Inl m | Inr c' \<Rightarrow> run_ddls ds c')"

definition do_begin :: "session \<Rightarrow> goerr option \<times> session" where
  "do_begin s = do_exec Inr s"

definition pg_applyMigration :: "int \<Rightarrow> ddl list \<Rightarrow> int \<Rightarrow> session \<Rightarrow> goerr option \<times> session" where
  "pg_applyMigration version stmt t s =
     (let undo = (\<lambda>s'. s'\<lparr>se_cat := se_cat s\<rparr>) in
      case do_begin s of
        (Some err, s1) \<Rightarrow> (Some err, undo s1)
      | (None, s1) \<Rightarrow>
          (case do_exec (run_ddls stmt) s1 of
             (Some err, s2) \<Rightarrow> (Some err, undo s2)
           | (None, s2) \<Rightarrow>
               (case do_exec (insert_version version t) s2 of
                  (Some err, s3) \<Rightarrow> (Some err, undo s3)
                | (None, s3) \<Rightarrow>
                    (case do_exec (\<lambda>_. Inr (se_cat s3)) (undo s3) of
                       (Some err, s4) \<Rightarrow> (Some err, s4)
                     | (None, s4) \<Rightarrow> (None, s4)))))"

text \<open>The loop over the migrations from version \<open>i\<close> on, for a database that was at version \<open>current\<close>.\<close>

fun pg_apply :: "int \<Rightarrow> int \<Rightarrow> ddl list list \<Rightarrow> int \<Rightarrow> session \<Rightarrow> goerr option \<times> session" where
  "pg_apply current i [] t s = (None, s)"
| "pg_apply current i (stmt # ms) t s =
     (if i \<le> current then pg_apply current (i + 1) ms t s
      else
        (case pg_applyMigration i stmt t s of
           (Some err, s') \<Rightarrow> (Some (Wrap (''apply migration '' @ Itoa i @ '': '') err []), s')
         | (None, s') \<Rightarrow> pg_apply current (i + 1) ms t s'))"

definition pg_migrate :: "int \<Rightarrow> session \<Rightarrow> goerr option \<times> session" where
  "pg_migrate t s =
     (case do_exec (run_ddl pg_schema_migrations) s of
        (Some err, s1) \<Rightarrow> (Some (Wrap ''create schema_migrations: '' err []), s1)
      | (None, s1) \<Rightarrow>
          (case read_version s1 of
             (Inl err, s2) \<Rightarrow> (Some (Wrap ''read schema version: '' err []), s2)
           | (Inr current, s2) \<Rightarrow> pg_apply current 1 pgMigrations t s2))"

section \<open>MySQL (mysql.go)\<close>

definition mysqlMigrations :: "ddl list list" where
  "mysqlMigrations =
     [[CreateTable \<lparr>tb_name = ''documents'',
        tb_columns = [not_null ''id'' ''VARCHAR(255)'', not_null ''metadata'' ''TEXT'', not_null_default ''latest_seq'' ''BIGINT'' ''0'',
          not_null ''created_at'' ''BIGINT'', not_null ''updated_at'' ''BIGINT''],
        tb_primary = [''id''], tb_references = [], tb_indexes = [(''idx_documents_updated_at'', ''updated_at'')]\<rparr>,
      CreateTable \<lparr>tb_name = ''operations'',
        tb_columns = [not_null ''doc_id'' ''VARCHAR(255)'', not_null ''seq'' ''BIGINT'', not_null_default ''session_id'' ''VARCHAR(255)'' [],
          not_null ''payload'' ''LONGBLOB'', not_null ''created_at'' ''BIGINT''],
        tb_primary = [''doc_id'', ''seq''], tb_references = [(''doc_id'', ''documents'', ''id'')], tb_indexes = []\<rparr>,
      CreateTable \<lparr>tb_name = ''snapshots'',
        tb_columns = [not_null ''doc_id'' ''VARCHAR(255)'', not_null ''seq'' ''BIGINT'', not_null ''state'' ''LONGBLOB'', not_null ''created_at'' ''BIGINT''],
        tb_primary = [''doc_id'', ''seq''], tb_references = [(''doc_id'', ''documents'', ''id'')], tb_indexes = []\<rparr>]]"

definition mysql_schema_migrations :: ddl where
  "mysql_schema_migrations = CreateTable \<lparr>tb_name = ''schema_migrations'',
     tb_columns = [not_null ''version'' ''BIGINT'', not_null ''applied_at'' ''BIGINT''],
     tb_primary = [''version''], tb_references = [], tb_indexes = []\<rparr>"

text \<open>A MySQL statement that defines a table commits by itself; the version is recorded last.\<close>

fun mysql_apply :: "int \<Rightarrow> int \<Rightarrow> ddl list list \<Rightarrow> int \<Rightarrow> session \<Rightarrow> goerr option \<times> session" where
  "mysql_apply current i [] t s = (None, s)"
| "mysql_apply current i (stmts # ms) t s =
     (if i \<le> current then mysql_apply current (i + 1) ms t s
      else
        (case do_all stmts s of
           (Some err, s') \<Rightarrow> (Some (Wrap (''apply migration '' @ Itoa i @ '': '') err []), s')
         | (None, s') \<Rightarrow>
             (case do_exec (insert_version i t) s' of
                (Some err, s'') \<Rightarrow> (Some (Wrap (''record migration '' @ Itoa i @ '': '') err []), s'')
              | (None, s'') \<Rightarrow> mysql_apply current (i + 1) ms t s'')))"

definition mysql_migrate :: "int \<Rightarrow> session \<Rightarrow> goerr option \<times> session" where
  "mysql_migrate t s =
     (case do_exec (run_ddl mysql_schema_migrations) s of
        (Some err, s1) \<Rightarrow> (Some (Wrap ''create schema_migrations: '' err []), s1)
      | (None, s1) \<Rightarrow>
          (case read_version s1 of
             (Inl err, s2) \<Rightarrow> (Some (Wrap ''read schema version: '' err []), s2)
           | (Inr current, s2) \<Rightarrow> mysql_apply current 1 mysqlMigrations t s2))"

definition migrate :: "backend \<Rightarrow> int \<Rightarrow> session \<Rightarrow> goerr option \<times> session" where
  "migrate k t s = (case k of SQLite \<Rightarrow> sqlite_migrate s | Postgres \<Rightarrow> pg_migrate t s | MySQL _ \<Rightarrow> mysql_migrate t s)"

section \<open>Names and presence\<close>

text \<open>The names a statement brings into the catalogue, and those the catalogue has.\<close>

fun ddl_names :: "ddl \<Rightarrow> (string + string) list" where
  "ddl_names (CreateTable t) = Inl (tb_name t) # map (Inr \<circ> fst) (tb_indexes t)"
| "ddl_names (CreateIndex i t col) = [Inr i]"

definition cat_names :: "catalog \<Rightarrow> (string + string) set" where
  "cat_names c = Inl ` tb_name ` set (ct_tables c) \<union> Inr ` fst ` set (ct_indexes c)"

fun present :: "ddl \<Rightarrow> catalog \<Rightarrow> bool" where
  "present (CreateTable t) c \<longleftrightarrow> t \<in> set (ct_tables c) \<and> (\<forall>(i, col) \<in> set (tb_indexes t). (i, tb_name t, col) \<in> set (ct_indexes c))"
| "present (CreateIndex i t col) c \<longleftrightarrow> (i, t, col) \<in> set (ct_indexes c)"

text \<open>What is there under a name of the schema is what the schema says.\<close>

definition conforms :: "ddl list \<Rightarrow> catalog \<Rightarrow> bool" where
  "conforms ds c \<longleftrightarrow> (\<forall>d \<in> set ds. set (ddl_names d) \<inter> cat_names c \<noteq> {} \<longrightarrow> present d c)"

definition cat_grows :: "catalog \<Rightarrow> catalog \<Rightarrow> bool" where
  "cat_grows c c' \<longleftrightarrow> set (ct_tables c) \<subseteq> set (ct_tables c') \<and> set (ct_indexes c) \<subseteq> set (ct_indexes c')
     \<and> ct_db c' = ct_db c \<and> ct_versions c' = ct_versions c"

lemma cat_grows_refl [simp]: "cat_grows c c"
  by (simp add: cat_grows_def)

lemma cat_grows_trans: "cat_grows a b \<Longrightarrow> cat_grows b c \<Longrightarrow> cat_grows a c"
  by (auto simp: cat_grows_def)

lemma cat_grows_present: "cat_grows c c' \<Longrightarrow> present d c \<Longrightarrow> present d c'"
  by (cases d) (auto simp: cat_grows_def)

lemma cat_grows_has_table: "cat_grows c c' \<Longrightarrow> has_table c n \<Longrightarrow> has_table c' n"
  by (auto simp: cat_grows_def has_table_def)

lemma has_table_name: "has_table c n \<longleftrightarrow> Inl n \<in> cat_names c"
  by (auto simp: has_table_def cat_names_def)

lemma run_ddl_cat_grows:
  assumes "run_ddl d c = Inr c'"
  shows "cat_grows c c' \<and> (c' = c \<and> set (ddl_names d) \<inter> cat_names c \<noteq> {}
     \<or> present d c' \<and> cat_names c' = cat_names c \<union> set (ddl_names d))"
proof (cases d)
  case (CreateTable t)
  show ?thesis
  proof (cases "has_table c (tb_name t)")
    case True
    with assms show ?thesis by (auto simp: CreateTable has_table_name)
  next
    case False
    with assms have "c' = c\<lparr>ct_tables := ct_tables c @ [t], ct_indexes := ct_indexes c @ map (\<lambda>(i, col). (i, tb_name t, col)) (tb_indexes t)\<rparr>"
      by (simp add: CreateTable split: if_splits)
    moreover from this have "cat_names c' = cat_names c \<union> set (ddl_names d)"
      by (simp add: CreateTable cat_names_def image_Un image_image case_prod_beta comp_def) blast
    ultimately show ?thesis by (auto simp: CreateTable cat_grows_def)
  qed
next
  case (CreateIndex i t col)
  show ?thesis
  proof (cases "i \<in> fst ` set (ct_indexes c)")
    case True
    with assms show ?thesis by (auto simp: CreateIndex cat_names_def)
  next
    case False
    with assms have "c' = c\<lparr>ct_indexes := ct_indexes c @ [(i, t, col)]\<rparr>" by (simp add: CreateIndex split: if_splits)
    then show ?thesis by (simp add: CreateIndex cat_grows_def cat_names_def) blast
  qed
qed

lemma distinct_concat_disjoint:
  "distinct (concat (map f xs)) \<Longrightarrow> x \<in> set xs \<Longrightarrow> y \<in> set xs \<Longrightarrow> x \<noteq> y \<Longrightarrow> set (f x) \<inter> set (f y) = {}"
  by (induction xs) auto

lemma conforms_step:
  assumes "conforms ds c" "distinct (concat (map ddl_names ds))" "d \<in> set ds" "run_ddl d c = Inr c'"
  shows "conforms ds c' \<and> present d c' \<and> cat_grows c c'"
proof -
  have g: "cat_grows c c'" using run_ddl_cat_grows [OF assms(4)] by blast
  have d: "present d c'"
    using run_ddl_cat_grows [OF assms(4)] assms(1,3) cat_grows_present by (auto simp: conforms_def)
  have "present d' c'" if d': "d' \<in> set ds" "set (ddl_names d') \<inter> cat_names c' \<noteq> {}" for d'
  proof (cases "d' = d")
    case False
    have "set (ddl_names d') \<inter> set (ddl_names d) = {}"
      using distinct_concat_disjoint [OF assms(2) d'(1) assms(3) False] .
    then have "set (ddl_names d') \<inter> cat_names c \<noteq> {}" using d'(2) run_ddl_cat_grows [OF assms(4)] by auto
    then show ?thesis using assms(1) d'(1) g cat_grows_present by (auto simp: conforms_def)
  qed (use d in simp)
  with d g show ?thesis by (simp add: conforms_def)
qed

section \<open>Runs of statements\<close>

text \<open>The statements can run in this order: what each refers to is there already.\<close>

fun refs :: "ddl \<Rightarrow> string set" where
  "refs (CreateTable t) = (\<lambda>(_, r, _). r) ` set (tb_references t)"
| "refs (CreateIndex i t col) = {t}"

fun tables_of :: "ddl \<Rightarrow> string set" where
  "tables_of (CreateTable t) = {tb_name t}"
| "tables_of (CreateIndex i t col) = {}"

fun runnable :: "string set \<Rightarrow> ddl list \<Rightarrow> bool" where
  "runnable known [] \<longleftrightarrow> True"
| "runnable known (d # ds) \<longleftrightarrow> refs d \<subseteq> known \<and> runnable (known \<union> tables_of d) ds"

lemma run_ddl_succeeds: "\<forall>n \<in> refs d. has_table c n \<Longrightarrow> \<exists>c'. run_ddl d c = Inr c'"
  by (cases d) (auto simp: list_all_iff)

lemma run_ddl_tables: "run_ddl d c = Inr c' \<Longrightarrow> n \<in> tables_of d \<Longrightarrow> has_table c' n"
  by (cases d) (auto simp: has_table_def split: if_splits)

lemma run_ddls_ok:
  assumes "distinct (concat (map ddl_names ds))" "set xs \<subseteq> set ds" "conforms ds c" "run_ddls xs c = Inr c'"
  shows "conforms ds c' \<and> list_all (\<lambda>d. present d c') xs \<and> cat_grows c c'"
  using assms(2-)
proof (induction xs arbitrary: c)
  case (Cons x xs)
  from Cons.prems obtain c1 where c1: "run_ddl x c = Inr c1" "run_ddls xs c1 = Inr c'" by (auto split: sum.splits)
  have x: "conforms ds c1 \<and> present x c1 \<and> cat_grows c c1" using conforms_step [OF Cons.prems(2) assms(1) _ c1(1)] Cons.prems(1) by simp
  with Cons.IH [OF _ _ c1(2)] Cons.prems(1) have r: "conforms ds c' \<and> list_all (\<lambda>d. present d c') xs \<and> cat_grows c1 c'" by simp
  then show ?case
    using x cat_grows_present [of c1 c' x] cat_grows_trans [of c c1 c'] by (simp add: list_all_iff)
qed simp

lemma run_ddls_succeeds:
  "runnable known xs \<Longrightarrow> \<forall>n \<in> known. has_table c n \<Longrightarrow> \<exists>c'. run_ddls xs c = Inr c'"
proof (induction xs arbitrary: known c)
  case (Cons x xs)
  then have "\<forall>n \<in> refs x. has_table c n" by auto
  then obtain c1 where c1: "run_ddl x c = Inr c1" using run_ddl_succeeds by blast
  have "\<forall>n \<in> known \<union> tables_of x. has_table c1 n"
    using Cons.prems(2) cat_grows_has_table run_ddl_cat_grows [OF c1] run_ddl_tables [OF c1] by auto
  with Cons.IH [of "known \<union> tables_of x" c1] Cons.prems(1) c1 show ?case by auto
qed simp

text \<open>What a call leaves, whatever its outcome.\<close>

definition all_succeed :: "session \<Rightarrow> bool" where
  "all_succeed s \<longleftrightarrow> list_all (\<lambda>x. x = Succeeds) (se_outs s)"

lemma do_exec_cases:
  assumes "do_exec f s = (r, s')"
  shows "(r = None \<longrightarrow> f (se_cat s) = Inr (se_cat s'))
     \<and> (se_cat s' = se_cat s \<or> f (se_cat s) = Inr (se_cat s'))
     \<and> (all_succeed s \<longrightarrow> all_succeed s' \<and> (r = None \<longleftrightarrow> (\<exists>c. f (se_cat s) = Inr c)))"
  using assms
  by (cases "se_outs s")
     (auto simp: do_exec_def outcome_now_def all_succeed_def Let_def split: sum.splits outcome.splits list.splits)

lemma present_noop: "present d c \<Longrightarrow> run_ddl d c = Inr c"
  by (cases d) (simp_all add: has_table_def, metis fst_conv image_eqI)

lemma do_all_ok:
  assumes "distinct (concat (map ddl_names ds))" "set xs \<subseteq> set ds" "conforms ds (se_cat s)" "do_all xs s = (r, s')"
  shows "conforms ds (se_cat s') \<and> cat_grows (se_cat s) (se_cat s') \<and> (r = None \<longrightarrow> list_all (\<lambda>d. present d (se_cat s')) xs)"
  using assms(2-)
proof (induction xs arbitrary: s)
  case (Cons x xs)
  obtain r1 s1 where 1: "do_exec (run_ddl x) s = (r1, s1)" by fastforce
  have x: "conforms ds (se_cat s1) \<and> cat_grows (se_cat s) (se_cat s1)" "r1 = None \<Longrightarrow> present x (se_cat s1)"
    using do_exec_cases [OF 1] conforms_step [OF Cons.prems(2) assms(1)] Cons.prems(1,2) by auto
  show ?case
  proof (cases r1)
    case None
    with Cons.prems(3) 1 have "do_all xs s1 = (r, s')" by simp
    with Cons.IH [of s1] Cons.prems(1) x(1)
    have "conforms ds (se_cat s') \<and> cat_grows (se_cat s1) (se_cat s') \<and> (r = None \<longrightarrow> list_all (\<lambda>d. present d (se_cat s')) xs)" by simp
    moreover from this have "present x (se_cat s')" "cat_grows (se_cat s) (se_cat s')"
      using x None cat_grows_present [of "se_cat s1" "se_cat s'" x] cat_grows_trans [of "se_cat s" "se_cat s1" "se_cat s'"] by blast+
    ultimately show ?thesis by simp
  next
    case (Some err)
    with Cons.prems(3) 1 have "s' = s1" "r \<noteq> None" by auto
    with x show ?thesis by (simp del: not_None_eq)
  qed
qed simp

lemma do_all_succeeds:
  "runnable known xs \<Longrightarrow> \<forall>n \<in> known. has_table (se_cat s) n \<Longrightarrow> all_succeed s \<Longrightarrow> do_all xs s = (r, s') \<Longrightarrow> r = None \<and> all_succeed s'"
proof (induction xs arbitrary: known s)
  case (Cons x xs)
  then have "\<forall>n \<in> refs x. has_table (se_cat s) n" by auto
  then obtain c1 where c1: "run_ddl x (se_cat s) = Inr c1" using run_ddl_succeeds by blast
  obtain r1 s1 where 1: "do_exec (run_ddl x) s = (r1, s1)" by fastforce
  with do_exec_cases [OF 1] c1 Cons.prems(3) have s1: "r1 = None" "all_succeed s1" "run_ddl x (se_cat s) = Inr (se_cat s1)" by auto
  have "\<forall>n \<in> known \<union> tables_of x. has_table (se_cat s1) n"
    using Cons.prems(2) cat_grows_has_table run_ddl_cat_grows [OF s1(3)] run_ddl_tables [OF s1(3)] by auto
  with Cons.IH [of "known \<union> tables_of x" s1] Cons.prems 1 s1 show ?case by simp
qed simp

lemma do_all_noop: "list_all (\<lambda>d. present d (se_cat s)) xs \<Longrightarrow> do_all xs s = (r, s') \<Longrightarrow> se_cat s' = se_cat s"
proof (induction xs arbitrary: s)
  case (Cons x xs)
  obtain r1 s1 where 1: "do_exec (run_ddl x) s = (r1, s1)" by fastforce
  have "se_cat s1 = se_cat s" using do_exec_cases [OF 1] present_noop Cons.prems(1) by auto
  with Cons.IH [of s1] Cons.prems 1 show ?case by (cases r1) simp_all
qed simp

section \<open>The contract of a migration\<close>

text \<open>What happens to a database: a run that tries to migrate it, and changes of its rows.\<close>

definition new_catalog :: catalog where
  "new_catalog = \<lparr>ct_tables = [], ct_indexes = [], ct_versions = [], ct_db = empty_db\<rparr>"

datatype event = Attempt int "outcome list" | Work "db \<Rightarrow> db"

fun run_event :: "(int \<Rightarrow> session \<Rightarrow> goerr option \<times> session) \<Rightarrow> event \<Rightarrow> catalog \<Rightarrow> catalog" where
  "run_event run (Attempt t outs) c = se_cat (snd (run t \<lparr>se_cat = c, se_outs = outs\<rparr>))"
| "run_event run (Work f) c = c\<lparr>ct_db := f (ct_db c)\<rparr>"

locale migration =
  fixes run :: "int \<Rightarrow> session \<Rightarrow> goerr option \<times> session"
    and inv :: "catalog \<Rightarrow> bool"
    and complete :: "catalog \<Rightarrow> bool"
  assumes inv_new: "inv new_catalog"
    and inv_work: "inv c \<Longrightarrow> inv (c\<lparr>ct_db := b\<rparr>)"
    and inv_run: "inv (se_cat s) \<Longrightarrow> run t s = (r, s') \<Longrightarrow> inv (se_cat s') \<and> ct_db (se_cat s') = ct_db (se_cat s)"
    and run_done: "inv (se_cat s) \<Longrightarrow> run t s = (None, s') \<Longrightarrow> complete (se_cat s')"
    and run_succeeds: "inv (se_cat s) \<Longrightarrow> all_succeed s \<Longrightarrow> run t s = (r, s') \<Longrightarrow> r = None"
    and run_again: "inv (se_cat s) \<Longrightarrow> complete (se_cat s) \<Longrightarrow> run t s = (r, s') \<Longrightarrow> se_cat s' = se_cat s"
begin

lemma events_inv: "inv c \<Longrightarrow> inv (fold (run_event run) es c)"
proof (induction es arbitrary: c)
  case (Cons x es)
  have "inv (run_event run x c)"
  proof (cases x)
    case (Attempt t outs)
    then show ?thesis using inv_run [of "\<lparr>se_cat = c, se_outs = outs\<rparr>" t] Cons.prems by (simp add: prod_eq_iff)
  qed (simp add: inv_work Cons.prems)
  then show ?case using Cons.IH by simp
qed simp

lemma converges:
  assumes "c = fold (run_event run) es new_catalog" "run t \<lparr>se_cat = c, se_outs = outs\<rparr> = (r, s)"
  shows "ct_db (se_cat s) = ct_db c \<and> (r = None \<longrightarrow> complete (se_cat s))
     \<and> (list_all (\<lambda>x. x = Succeeds) outs \<longrightarrow> r = None) \<and> (complete c \<longrightarrow> se_cat s = c)"
proof -
  have "inv (se_cat \<lparr>se_cat = c, se_outs = outs\<rparr>)" using events_inv [OF inv_new] assms(1) by simp
  note i = inv_run [OF this assms(2)] run_done [OF this] run_succeeds [OF this _ assms(2)] run_again [OF this _ assms(2)]
  from assms(2) i show ?thesis by (auto simp: all_succeed_def)
qed

end

section \<open>The three migrations keep it\<close>

lemma conforms_new: "conforms ds new_catalog"
  by (simp add: conforms_def new_catalog_def cat_names_def)

lemma present_work [simp]: "present d (c\<lparr>ct_db := b\<rparr>) = present d c"
  by (cases d) simp_all

lemma conforms_work: "conforms ds c \<Longrightarrow> conforms ds (c\<lparr>ct_db := b\<rparr>)"
  by (simp add: conforms_def cat_names_def)

lemma sqlite_schema_ok: "distinct (concat (map ddl_names sqliteSchema))" "runnable {} sqliteSchema"
  by code_simp+

interpretation sqm: migration "\<lambda>t. sqlite_migrate" "conforms sqliteSchema" "\<lambda>c. list_all (\<lambda>d. present d c) sqliteSchema"
proof unfold_locales
  fix s r s' and t :: int
  assume inv: "conforms sqliteSchema (se_cat s)" and run: "sqlite_migrate s = (r, s')"
  note ok = do_all_ok [OF sqlite_schema_ok(1) subset_refl inv run [unfolded sqlite_migrate_def]]
  from ok show "conforms sqliteSchema (se_cat s') \<and> ct_db (se_cat s') = ct_db (se_cat s)" by (simp add: cat_grows_def)
  show "r = None" if "all_succeed s"
    using do_all_succeeds [OF sqlite_schema_ok(2) _ that run [unfolded sqlite_migrate_def]] by simp
  show "se_cat s' = se_cat s" if "list_all (\<lambda>d. present d (se_cat s)) sqliteSchema"
    using do_all_noop [OF that run [unfolded sqlite_migrate_def]] .
next
  fix s s' and t :: int
  assume "conforms sqliteSchema (se_cat s)" "sqlite_migrate s = (None, s')"
  then show "list_all (\<lambda>d. present d (se_cat s')) sqliteSchema"
    using do_all_ok [OF sqlite_schema_ok(1) subset_refl] by (simp add: sqlite_migrate_def)
qed (simp_all add: conforms_new conforms_work)

text \<open>The backends with versions: their schema is the table of versions and the one migration.\<close>

definition pg_schema :: "ddl list" where
  "pg_schema = pg_schema_migrations # concat pgMigrations"

definition mysql_schema :: "ddl list" where
  "mysql_schema = mysql_schema_migrations # concat mysqlMigrations"

definition versioned :: "ddl list \<Rightarrow> catalog \<Rightarrow> bool" where
  "versioned ds c \<longleftrightarrow> conforms ds c \<and> fst ` set (ct_versions c) \<subseteq> {1} \<and> (ct_versions c \<noteq> [] \<longrightarrow> list_all (\<lambda>d. present d c) ds)"

definition up_to_date :: "ddl list \<Rightarrow> catalog \<Rightarrow> bool" where
  "up_to_date ds c \<longleftrightarrow> ct_versions c \<noteq> [] \<and> list_all (\<lambda>d. present d c) ds"

lemma fold_max_same: "set vs \<subseteq> {v} \<Longrightarrow> fold max vs v = (v :: int)"
  by (induction vs) simp_all

lemma max_version_versioned: "versioned ds c \<Longrightarrow> max_version c = (if ct_versions c = [] then 0 else 1)"
proof (cases "ct_versions c")
  case (Cons x xs)
  assume "versioned ds c"
  with Cons have "fst x = 1" "set (map fst xs) \<subseteq> {1}" by (auto simp: versioned_def)
  then show ?thesis using fold_max_same [of "map fst xs" 1] by (simp add: Cons max_version_def)
qed (simp add: max_version_def)

lemma versioned_new: "versioned ds new_catalog"
  by (simp add: versioned_def conforms_new) (simp add: new_catalog_def)

lemma versioned_work: "versioned ds c \<Longrightarrow> versioned ds (c\<lparr>ct_db := b\<rparr>)"
  by (simp add: versioned_def conforms_work)

lemma versioned_cat_grows:
  "versioned ds c \<Longrightarrow> conforms ds c' \<Longrightarrow> cat_grows c c' \<Longrightarrow> versioned ds c'"
  unfolding versioned_def using cat_grows_present by (auto simp: cat_grows_def list_all_iff)

lemma schemas_ok:
  "distinct (concat (map ddl_names pg_schema))" "runnable {} pg_schema"
  "distinct (concat (map ddl_names mysql_schema))" "runnable {} mysql_schema"
  by code_simp+

lemma record_version:
  assumes "conforms ds c" "list_all (\<lambda>d. present d c) ds" "ct_versions c = []" "has_table c ''schema_migrations''"
  shows "\<exists>c'. insert_version 1 t c = Inr c' \<and> versioned ds c' \<and> up_to_date ds c' \<and> ct_db c' = ct_db c"
proof -
  let ?c = "c\<lparr>ct_versions := [(1, t)]\<rparr>"
  have "present d ?c = present d c" for d by (cases d) simp_all
  then have "versioned ds ?c" "up_to_date ds ?c"
    using assms(1,2) by (simp_all add: versioned_def up_to_date_def conforms_def cat_names_def)
  then show ?thesis using assms(3,4) by (auto simp: insert_version_def)
qed

text \<open>Recording the version, whatever the outcome of the call.\<close>

lemma record_version_call:
  assumes "conforms ds (se_cat s)" "list_all (\<lambda>d. present d (se_cat s)) ds" "ct_versions (se_cat s) = []"
    and "has_table (se_cat s) ''schema_migrations''" "do_exec (insert_version 1 t) s = (r, s')"
  shows "versioned ds (se_cat s') \<and> ct_db (se_cat s') = ct_db (se_cat s) \<and> (r = None \<longrightarrow> up_to_date ds (se_cat s'))
     \<and> (all_succeed s \<longrightarrow> r = None \<and> all_succeed s')"
proof -
  obtain c' where c': "insert_version 1 t (se_cat s) = Inr c'" "versioned ds c'" "up_to_date ds c'" "ct_db c' = ct_db (se_cat s)"
    using record_version [OF assms(1-4)] by blast
  moreover have "versioned ds (se_cat s)" using assms(1,3) by (simp add: versioned_def)
  ultimately show ?thesis using do_exec_cases [OF assms(5)] by auto
qed

lemma read_version_cases:
  assumes "read_version s = (r, s')"
  shows "se_cat s' = se_cat s \<and> (\<forall>v. r = Inr v \<longrightarrow> v = max_version (se_cat s) \<and> has_table (se_cat s) ''schema_migrations'')
     \<and> (all_succeed s \<and> has_table (se_cat s) ''schema_migrations'' \<longrightarrow> (\<exists>v. r = Inr v) \<and> all_succeed s')"
proof -
  obtain r1 s1 where 1: "do_exec (\<lambda>c. if has_table c ''schema_migrations'' then Inr c else Inl ''no such table'') s = (r1, s1)"
    by fastforce
  with do_exec_cases [OF 1] assms show ?thesis by (cases r1) (auto simp: read_version_def split: if_splits)
qed

text \<open>
  The two calls both backends start with, and the rest as a function of the version read: if the rest keeps
  the contract on a database without a version, the whole does.
\<close>

definition versions_then ::
  "ddl \<Rightarrow> (int \<Rightarrow> session \<Rightarrow> goerr option \<times> session) \<Rightarrow> session \<Rightarrow> goerr option \<times> session" where
  "versions_then x rest s =
     (case do_exec (run_ddl x) s of
        (Some err, s1) \<Rightarrow> (Some (Wrap ''create schema_migrations: '' err []), s1)
      | (None, s1) \<Rightarrow>
          (case read_version s1 of
             (Inl err, s2) \<Rightarrow> (Some (Wrap ''read schema version: '' err []), s2)
           | (Inr current, s2) \<Rightarrow> rest current s2))"

definition applies :: "ddl list \<Rightarrow> (session \<Rightarrow> goerr option \<times> session) \<Rightarrow> bool" where
  "applies ds f \<longleftrightarrow> (\<forall>s r s'. conforms ds (se_cat s) \<and> ct_versions (se_cat s) = [] \<and> present (hd ds) (se_cat s) \<and> f s = (r, s') \<longrightarrow>
     versioned ds (se_cat s') \<and> ct_db (se_cat s') = ct_db (se_cat s) \<and> (r = None \<longrightarrow> up_to_date ds (se_cat s'))
     \<and> (all_succeed s \<longrightarrow> r = None))"

lemma present_table: "present d c \<Longrightarrow> n \<in> tables_of d \<Longrightarrow> has_table c n"
  by (cases d) (auto simp: has_table_def)

lemma versions_then_ok:
  assumes "distinct (concat (map ddl_names (x # ds)))" "refs x = {}" "tables_of x = {''schema_migrations''}"
    and rest: "\<And>s. rest 1 s = (None, s)" "applies (x # ds) (rest 0)"
    and inv: "versioned (x # ds) (se_cat s)" and run: "versions_then x rest s = (r, s')"
  shows "versioned (x # ds) (se_cat s') \<and> ct_db (se_cat s') = ct_db (se_cat s) \<and> (r = None \<longrightarrow> up_to_date (x # ds) (se_cat s'))
     \<and> (all_succeed s \<longrightarrow> r = None) \<and> (up_to_date (x # ds) (se_cat s) \<longrightarrow> se_cat s' = se_cat s)"
proof -
  obtain r1 s1 where 1: "do_exec (run_ddl x) s = (r1, s1)" by fastforce
  obtain r2 s2 where 2: "read_version s1 = (r2, s2)" by fastforce
  have c: "conforms (x # ds) (se_cat s)" using inv by (simp add: versioned_def)
  note step = conforms_step [OF c assms(1), of x, simplified]
  have g: "cat_grows (se_cat s) (se_cat s1)" "conforms (x # ds) (se_cat s1)" "r1 = None \<Longrightarrow> present x (se_cat s1)"
    using do_exec_cases [OF 1] step c by auto
  have v1: "versioned (x # ds) (se_cat s1)" using versioned_cat_grows [OF inv g(2,1)] .
  have noop: "se_cat s1 = se_cat s" if "up_to_date (x # ds) (se_cat s)"
    using do_exec_cases [OF 1] present_noop [of x "se_cat s"] that by (auto simp: up_to_date_def)
  have live1: "r1 = None \<and> all_succeed s1" if "all_succeed s"
    using do_exec_cases [OF 1] run_ddl_succeeds [of x "se_cat s"] assms(2) that by auto
  have tab: "has_table (se_cat s1) ''schema_migrations''" if "r1 = None"
    using do_exec_cases [OF 1] that run_ddl_tables [of x "se_cat s" "se_cat s1" "''schema_migrations''"] assms(3) by simp
  note rv = read_version_cases [OF 2]
  show ?thesis
  proof (cases "r1 = None \<and> (\<exists>v. r2 = Inr v)")
    case False
    then have "r \<noteq> None" "se_cat s' = se_cat s1"
      using run 1 2 rv by (auto simp: versions_then_def split: option.splits sum.splits)
    moreover have "\<not> all_succeed s" using False live1 tab rv by blast
    ultimately show ?thesis using v1 g(1) noop by (simp add: cat_grows_def del: not_None_eq)
  next
    case True
    then obtain v where v: "r1 = None" "r2 = Inr v" by blast
    then have "v = max_version (se_cat s1)" "se_cat s2 = se_cat s1" using rv by blast+
    then have r: "rest (max_version (se_cat s1)) s2 = (r, s')" "se_cat s2 = se_cat s1"
      using run 1 2 v by (simp_all add: versions_then_def)
    show ?thesis
    proof (cases "ct_versions (se_cat s1) = []")
      case True
      then have "rest 0 s2 = (r, s')" using r max_version_versioned [OF v1] by simp
      with rest(2) [unfolded applies_def, THEN spec, THEN spec, THEN spec, of s2 r s']
      have "versioned (x # ds) (se_cat s') \<and> ct_db (se_cat s') = ct_db (se_cat s1) \<and> (r = None \<longrightarrow> up_to_date (x # ds) (se_cat s'))
         \<and> (all_succeed s2 \<longrightarrow> r = None)"
        using g(2) g(3) True r(2) v(1) by simp
      moreover have "all_succeed s \<Longrightarrow> all_succeed s2" using live1 tab rv by blast
      moreover have "\<not> up_to_date (x # ds) (se_cat s)" "ct_db (se_cat s1) = ct_db (se_cat s)"
        using True g(1) by (simp_all add: cat_grows_def up_to_date_def)
      ultimately show ?thesis by simp
    next
      case False
      then have "rest 1 s2 = (r, s')" using r max_version_versioned [OF v1] by simp
      then have "r = None" "se_cat s' = se_cat s1" using rest(1) r(2) by auto
      moreover have "up_to_date (x # ds) (se_cat s1)" using False v1 by (simp add: versioned_def up_to_date_def)
      ultimately show ?thesis using v1 g(1) noop by (simp add: cat_grows_def)
    qed
  qed
qed

text \<open>A migration of PostgreSQL happens completely or not at all.\<close>

lemma pg_applyMigration_atomic:
  assumes "pg_applyMigration v stmt t s = (r, s')"
  shows "(se_cat s' = se_cat s \<and> r \<noteq> None \<or> (\<exists>c1. run_ddls stmt (se_cat s) = Inr c1 \<and> insert_version v t c1 = Inr (se_cat s')))
     \<and> (all_succeed s \<and> run_ddls stmt (se_cat s) = Inr c1 \<and> insert_version v t c1 = Inr c2 \<longrightarrow> r = None)"
proof -
  obtain r1 s1 where 1: "do_begin s = (r1, s1)" by fastforce
  obtain r2 s2 where 2: "do_exec (run_ddls stmt) s1 = (r2, s2)" by fastforce
  obtain r3 s3 where 3: "do_exec (insert_version v t) s2 = (r3, s3)" by fastforce
  obtain r4 s4 where 4: "do_exec (\<lambda>_. Inr (se_cat s3)) (s3\<lparr>se_cat := se_cat s\<rparr>) = (r4, s4)" by fastforce
  note e1 = do_exec_cases [OF 1 [unfolded do_begin_def]] and e2 = do_exec_cases [OF 2] and e3 = do_exec_cases [OF 3]
    and e4 = do_exec_cases [OF 4]
  have c1: "se_cat s1 = se_cat s" using e1 by auto
  have "pg_applyMigration v stmt t s = (if r1 \<noteq> None then (r1, s1\<lparr>se_cat := se_cat s\<rparr>) else if r2 \<noteq> None then (r2, s2\<lparr>se_cat := se_cat s\<rparr>)
      else if r3 \<noteq> None then (r3, s3\<lparr>se_cat := se_cat s\<rparr>) else (r4, s4))"
    unfolding pg_applyMigration_def Let_def by (cases r1; cases r2; cases r3; cases r4) (simp_all add: 1 2 3 4)
  note out = this [unfolded assms]
  have live: "r1 = None \<and> r2 = None \<and> r3 = None \<and> r4 = None"
    if "all_succeed s" "run_ddls stmt (se_cat s) = Inr c1" "insert_version v t c1 = Inr c2"
  proof -
    have "r1 = None" "all_succeed s1" using e1 that(1) by auto
    moreover from this have "r2 = None" "all_succeed s2" "se_cat s2 = c1" using e2 that(2) c1 by auto
    moreover from this have "r3 = None" "all_succeed s3" using e3 that(3) by auto
    moreover from this have "r4 = None" using e4 by (simp add: all_succeed_def)
    ultimately show ?thesis by blast
  qed
  have ddl: "run_ddls stmt (se_cat s) = Inr (se_cat s2) \<and> insert_version v t (se_cat s2) = Inr (se_cat s3)"
    if "r1 = None" "r2 = None" "r3 = None" using e2 e3 c1 that by simp
  have c4: "se_cat s4 = se_cat s \<and> r4 \<noteq> None \<or> se_cat s4 = se_cat s3" using e4 by auto
  show ?thesis using out live ddl c4 by (auto split: if_splits)
qed

lemma applies_pg:
  assumes "distinct (concat (map ddl_names (x # ds)))" "tables_of x = {''schema_migrations''}" "runnable {} ds"
  shows "applies (x # ds) (pg_apply 0 1 [ds] t)"
  unfolding applies_def
proof (intro allI impI)
  fix s r s'
  assume a: "conforms (x # ds) (se_cat s) \<and> ct_versions (se_cat s) = [] \<and> present (hd (x # ds)) (se_cat s) \<and> pg_apply 0 1 [ds] t s = (r, s')"
  obtain ra sa where A: "pg_applyMigration 1 ds t s = (ra, sa)" by fastforce
  have "pg_apply 0 1 [ds] t s = (r, s')" using a by blast
  with A have r: "s' = sa" "r = None \<longleftrightarrow> ra = None" by (cases ra; auto)+
  obtain c1 where c1: "run_ddls ds (se_cat s) = Inr c1" using run_ddls_succeeds [OF assms(3)] by blast
  have ok: "conforms (x # ds) c1" "list_all (\<lambda>d. present d c1) ds" "cat_grows (se_cat s) c1"
    using run_ddls_ok [OF assms(1) set_subset_Cons _ c1] a by simp_all
  have "has_table c1 ''schema_migrations''" "present x c1"
    using a assms(2) present_table [of x] cat_grows_has_table [OF ok(3)] cat_grows_present [OF ok(3)] by simp_all
  with record_version [of "x # ds" c1 t] ok a obtain c2 where c2: "insert_version 1 t c1 = Inr c2" "versioned (x # ds) c2"
    "up_to_date (x # ds) c2" "ct_db c2 = ct_db (se_cat s)" by (auto simp: cat_grows_def)
  have old: "versioned (x # ds) (se_cat s)" using a by (simp add: versioned_def)
  have "se_cat s' = se_cat s \<and> r \<noteq> None \<or> se_cat s' = c2" "all_succeed s \<longrightarrow> r = None"
    using pg_applyMigration_atomic [OF A, of c1 c2] r c1 c2(1) by auto
  with old c2 show "versioned (x # ds) (se_cat s') \<and> ct_db (se_cat s') = ct_db (se_cat s)
     \<and> (r = None \<longrightarrow> up_to_date (x # ds) (se_cat s')) \<and> (all_succeed s \<longrightarrow> r = None)"
    by (elim disjE) (simp_all del: not_None_eq)
qed

lemma applies_mysql:
  assumes "distinct (concat (map ddl_names (x # ds)))" "tables_of x = {''schema_migrations''}" "runnable {} ds"
  shows "applies (x # ds) (mysql_apply 0 1 [ds] t)"
  unfolding applies_def
proof (intro allI impI)
  fix s r s'
  assume a: "conforms (x # ds) (se_cat s) \<and> ct_versions (se_cat s) = [] \<and> present (hd (x # ds)) (se_cat s) \<and> mysql_apply 0 1 [ds] t s = (r, s')"
  obtain r1 s1 where 1: "do_all ds s = (r1, s1)" by fastforce
  obtain r2 s2 where 2: "do_exec (insert_version 1 t) s1 = (r2, s2)" by fastforce
  have ok: "conforms (x # ds) (se_cat s1)" "cat_grows (se_cat s) (se_cat s1)" "r1 = None \<Longrightarrow> list_all (\<lambda>d. present d (se_cat s1)) ds"
    using do_all_ok [OF assms(1) set_subset_Cons _ 1] a by simp_all
  have tab: "has_table (se_cat s1) ''schema_migrations''"
    using a assms(2) cat_grows_has_table [OF ok(2)] present_table [of x] by simp
  have live: "all_succeed s \<longrightarrow> r1 = None \<and> all_succeed s1"
    using do_all_succeeds [OF assms(3) _ _ 1] by simp
  show "versioned (x # ds) (se_cat s') \<and> ct_db (se_cat s') = ct_db (se_cat s) \<and> (r = None \<longrightarrow> up_to_date (x # ds) (se_cat s'))
     \<and> (all_succeed s \<longrightarrow> r = None)"
  proof (cases r1)
    case (Some err)
    then have "r \<noteq> None" "s' = s1" using a 1 by auto
    moreover have "versioned (x # ds) (se_cat s1)" using ok(1,2) a by (simp add: versioned_def cat_grows_def)
    ultimately show ?thesis using ok(2) live Some by (simp add: cat_grows_def del: not_None_eq)
  next
    case None
    then have r: "r = None \<longleftrightarrow> r2 = None" "s' = s2" using a 1 2 by (auto split: option.splits)
    have "versioned (x # ds) (se_cat s2) \<and> ct_db (se_cat s2) = ct_db (se_cat s1) \<and> (r2 = None \<longrightarrow> up_to_date (x # ds) (se_cat s2))
       \<and> (all_succeed s1 \<longrightarrow> r2 = None \<and> all_succeed s2)"
      using record_version_call [OF ok(1) _ _ tab 2] cat_grows_present [OF ok(2), of x] ok(2) ok(3) [OF None] a
      by (simp add: cat_grows_def)
    then show ?thesis using r live ok(2) by (simp add: cat_grows_def)
  qed
qed

text \<open>From the contract of the rest to the contract of the whole.\<close>

lemma versions_then_migration:
  assumes "distinct (concat (map ddl_names (x # ds)))" "refs x = {}" "tables_of x = {''schema_migrations''}"
    and "\<And>t s. rest t 1 s = (None, s)" "\<And>t. applies (x # ds) (rest t 0)"
  shows "migration (\<lambda>t. versions_then x (rest t)) (versioned (x # ds)) (up_to_date (x # ds))"
proof unfold_locales
  note ok = versions_then_ok [OF assms(1-5)]
  fix s r s' t
  assume a: "versioned (x # ds) (se_cat s)" "versions_then x (rest t) s = (r, s')"
  show "versioned (x # ds) (se_cat s') \<and> ct_db (se_cat s') = ct_db (se_cat s)" using ok [OF a] by blast
  show "r = None" if "all_succeed s" using ok [OF a] that by blast
  show "se_cat s' = se_cat s" if "up_to_date (x # ds) (se_cat s)" using ok [OF a] that by blast
next
  fix s s' t
  assume a: "versioned (x # ds) (se_cat s)" "versions_then x (rest t) s = (None, s')"
  show "up_to_date (x # ds) (se_cat s')" using versions_then_ok [OF assms(1-5) a] by blast
qed (simp_all add: versioned_new versioned_work)

lemma pg_migrate_then: "pg_migrate = (\<lambda>t. versions_then pg_schema_migrations (\<lambda>v. pg_apply v 1 pgMigrations t))"
  by (intro ext) (simp add: pg_migrate_def versions_then_def)

lemma mysql_migrate_then: "mysql_migrate = (\<lambda>t. versions_then mysql_schema_migrations (\<lambda>v. mysql_apply v 1 mysqlMigrations t))"
  by (intro ext) (simp add: mysql_migrate_def versions_then_def)

lemma one_migration: "pgMigrations = [tl pg_schema]" "mysqlMigrations = [tl mysql_schema]"
  by code_simp+

lemma version_table:
  "refs pg_schema_migrations = {}" "tables_of pg_schema_migrations = {''schema_migrations''}"
  "refs mysql_schema_migrations = {}" "tables_of mysql_schema_migrations = {''schema_migrations''}"
  by (simp_all add: pg_schema_migrations_def mysql_schema_migrations_def)

lemma schema_Cons: "pg_schema = pg_schema_migrations # tl pg_schema" "mysql_schema = mysql_schema_migrations # tl mysql_schema"
  by (simp_all add: pg_schema_def mysql_schema_def)

lemma schema_tl: "runnable {} (tl pg_schema)" "runnable {} (tl mysql_schema)"
  by code_simp+

interpretation pgm: migration pg_migrate "versioned pg_schema" "up_to_date pg_schema"
proof -
  have d: "distinct (concat (map ddl_names (pg_schema_migrations # tl pg_schema)))" using schemas_ok(1) schema_Cons(1) by simp
  have "applies (pg_schema_migrations # tl pg_schema) (pg_apply 0 1 pgMigrations t)" for t
    unfolding one_migration using applies_pg [OF d version_table(2) schema_tl(1)] .
  moreover have "pg_apply 1 1 pgMigrations t s = (None, s)" for t s by (simp add: one_migration)
  ultimately show "migration pg_migrate (versioned pg_schema) (up_to_date pg_schema)"
    using versions_then_migration [OF d version_table(1,2), where rest = "\<lambda>t v. pg_apply v 1 pgMigrations t"]
    by (simp add: pg_migrate_then schema_Cons(1) [symmetric])
qed

interpretation mym: migration mysql_migrate "versioned mysql_schema" "up_to_date mysql_schema"
proof -
  have d: "distinct (concat (map ddl_names (mysql_schema_migrations # tl mysql_schema)))" using schemas_ok(3) schema_Cons(2) by simp
  have "applies (mysql_schema_migrations # tl mysql_schema) (mysql_apply 0 1 mysqlMigrations t)" for t
    unfolding one_migration using applies_mysql [OF d version_table(4) schema_tl(2)] .
  moreover have "mysql_apply 1 1 mysqlMigrations t s = (None, s)" for t s by (simp add: one_migration)
  ultimately show "migration mysql_migrate (versioned mysql_schema) (up_to_date mysql_schema)"
    using versions_then_migration [OF d version_table(3,4), where rest = "\<lambda>t v. mysql_apply v 1 mysqlMigrations t"]
    by (simp add: mysql_migrate_then schema_Cons(2) [symmetric])
qed

section \<open>Migrations converge\<close>

text \<open>The complete schema of a backend: every table and index as declared, and the version recorded.\<close>

definition schema_complete :: "backend \<Rightarrow> catalog \<Rightarrow> bool" where
  "schema_complete k c \<longleftrightarrow>
     (case k of
        SQLite \<Rightarrow> list_all (\<lambda>d. present d c) sqliteSchema
      | Postgres \<Rightarrow> up_to_date pg_schema c
      | MySQL _ \<Rightarrow> up_to_date mysql_schema c)"

text \<open>The database after any history of attempts and of changes of its rows.\<close>

definition migrated_by :: "backend \<Rightarrow> event list \<Rightarrow> catalog" where
  "migrated_by k es = fold (run_event (migrate k)) es new_catalog"

lemma migrate_again:
  assumes "c = migrated_by k es" "migrate k t \<lparr>se_cat = c, se_outs = outs\<rparr> = (r, s)"
  shows "ct_db (se_cat s) = ct_db c \<and> (r = None \<longrightarrow> schema_complete k (se_cat s))
     \<and> (list_all (\<lambda>x. x = Succeeds) outs \<longrightarrow> r = None) \<and> (schema_complete k c \<longrightarrow> se_cat s = c)"
proof (cases k)
  case SQLite
  then have m: "migrate k = (\<lambda>t. sqlite_migrate)" by (simp add: fun_eq_iff migrate_def)
  show ?thesis using sqm.converges [OF assms [unfolded m migrated_by_def]] by (simp add: SQLite schema_complete_def)
next
  case Postgres
  then have m: "migrate k = pg_migrate" by (simp add: fun_eq_iff migrate_def)
  show ?thesis using pgm.converges [OF assms [unfolded m migrated_by_def]] by (simp add: Postgres schema_complete_def)
next
  case (MySQL col)
  then have m: "migrate k = mysql_migrate" by (simp add: fun_eq_iff migrate_def)
  show ?thesis using mym.converges [OF assms [unfolded m migrated_by_def]] by (simp add: MySQL schema_complete_def)
qed

text \<open>
  C14: A database converges to the schema through any failures. Take a database after any sequence of
  earlier attempts to open it, each interrupted by any failures or lost replies, and any changes of its rows. A
  further attempt keeps every row; if it reports success, the schema is complete and its version
  recorded; if no call fails, it succeeds; and if the schema was complete, it changes nothing.
\<close>

theorem migrations_converge:
  assumes "c = migrated_by k es" "migrate k t \<lparr>se_cat = c, se_outs = outs\<rparr> = (r, s)"
  shows "ct_db (se_cat s) = ct_db c \<and> (r = None \<longrightarrow> schema_complete k (se_cat s))
     \<and> (list_all (\<lambda>x. x = Succeeds) outs \<longrightarrow> r = None) \<and> (schema_complete k c \<longrightarrow> se_cat s = c)"
  using assms by (rule migrate_again)

text \<open>A MySQL server that breaks the connection in the second table, then comes back.\<close>

lemma broken_attempt:
  "map tb_name (ct_tables (migrated_by (MySQL binary) [Attempt 1 [Succeeds, Succeeds, Succeeds, Lost ''gone'']]))
     = [''schema_migrations'', ''documents'', ''operations'']"
  "ct_versions (migrated_by (MySQL binary) [Attempt 1 [Succeeds, Succeeds, Succeeds, Lost ''gone'']]) = []"
  by code_simp+

theorem migrations_converge_witness:
  "\<exists>c s. c = migrated_by (MySQL binary) [Attempt 1 [Succeeds, Succeeds, Succeeds, Lost ''gone'']]
     \<and> map tb_name (ct_tables c) = [''schema_migrations'', ''documents'', ''operations''] \<and> ct_versions c = []
     \<and> migrate (MySQL binary) 2 \<lparr>se_cat = c, se_outs = []\<rparr> = (None, s) \<and> schema_complete (MySQL binary) (se_cat s)"
proof -
  define c where "c = migrated_by (MySQL binary) [Attempt 1 [Succeeds, Succeeds, Succeeds, Lost ''gone'']]"
  obtain r s where m: "migrate (MySQL binary) 2 \<lparr>se_cat = c, se_outs = []\<rparr> = (r, s)" by fastforce
  from migrations_converge [OF c_def m] have "r = None" "schema_complete (MySQL binary) (se_cat s)" by simp_all
  moreover have "map tb_name (ct_tables c) = [''schema_migrations'', ''documents'', ''operations'']" "ct_versions c = []"
    unfolding c_def using broken_attempt by blast+
  ultimately show ?thesis using m by (intro exI [of _ c] exI [of _ s]) (simp add: c_def)
qed

text \<open>
  Two servers that open a new database at the same time: one has read version 0 when the other finishes. The
  first then fails on the row of the version, although the schema is complete.
\<close>

lemma concurrent_migrations_fail:
  "let s = snd (pg_migrate 1 \<lparr>se_cat = new_catalog, se_outs = []\<rparr>) in
     schema_complete Postgres (se_cat s)
     \<and> fst (pg_apply 0 1 pgMigrations 2 s) = Some (Wrap ''apply migration 1: '' (drv ''duplicate key'') [])"
  "let s = snd (mysql_migrate 1 \<lparr>se_cat = new_catalog, se_outs = []\<rparr>) in
     fst (mysql_apply 0 1 mysqlMigrations 2 s) = Some (Wrap ''record migration 1: '' (drv ''duplicate key'') [])"
  by code_simp+

end
