(* ===== verification/Opening.thy ===== *)
theory Opening
  imports Migrations Config
begin

text \<open>
  \<^verbatim>\<open>storage.Open\<close> and the functions that open each backend: connection strings, pool sizes, the check of the
  connection and the migration, with the database handles that are open at each point.
\<close>

section \<open>The outside world\<close>

text \<open>The settings of \<^verbatim>\<open>mysql.Config\<close> the program fills in; the driver prints them as its DSN.\<close>

record mysqlConfig =
  my_Net :: string
  my_Addr :: string
  my_DBName :: string
  my_User :: string
  my_Passwd :: string
  my_Params :: "(string \<times> string) list"

text \<open>
  What opening meets: the file system, the drivers (parsing a connection string, making a pool from a name of
  a driver and a DSN, the ping, \<^verbatim>\<open>FormatDSN\<close>), the outcomes of the calls of the migration, the clock, and the
  collation the MySQL server gives its tables.
\<close>

record openenv =
  oe_MkdirAll :: "string \<Rightarrow> goerr option"
  oe_ParseConfig :: "string \<Rightarrow> goerr option"
  oe_Open :: "string \<Rightarrow> string \<Rightarrow> goerr option"
  oe_Ping :: "goerr option"
  oe_FormatDSN :: "mysqlConfig \<Rightarrow> string"
  oe_outs :: "outcome list"
  oe_now :: int
  oe_collation :: collation

text \<open>The database and the number of open handles on it.\<close>

record dbstate =
  ds_cat :: catalog
  ds_open :: nat

definition open_handle :: "dbstate \<Rightarrow> dbstate" where
  "open_handle s = s\<lparr>ds_open := ds_open s + 1\<rparr>"

definition close_handle :: "dbstate \<Rightarrow> dbstate" where
  "close_handle s = s\<lparr>ds_open := ds_open s - 1\<rparr>"

definition do_migrate :: "backend \<Rightarrow> openenv \<Rightarrow> dbstate \<Rightarrow> goerr option \<times> dbstate" where
  "do_migrate k e s =
     (case migrate k (oe_now e) \<lparr>se_cat = ds_cat s, se_outs = oe_outs e\<rparr> of (r, x) \<Rightarrow> (r, s\<lparr>ds_cat := se_cat x\<rparr>))"

text \<open>An open store: its backend, the DSN, the bounds on its connections (no maximum where none is set).\<close>

record store_handle =
  hd_backend :: backend
  hd_dsn :: string
  hd_MinConns :: int
  hd_MaxConns :: "int option"

text \<open>The end of each of the three functions, from the open handle on.\<close>

definition ping_and_migrate :: "backend \<Rightarrow> string \<Rightarrow> string \<Rightarrow> store_handle \<Rightarrow> openenv \<Rightarrow> dbstate \<Rightarrow> store_handle res \<times> dbstate" where
  "ping_and_migrate k pinging migrating h e s =
     (case oe_Ping e of
        Some err \<Rightarrow> (Inl (Wrap pinging err []), close_handle s)
      | None \<Rightarrow>
          (case do_migrate k e s of
             (Some err, s2) \<Rightarrow> (Inl (Wrap migrating err []), close_handle s2)
           | (None, s2) \<Rightarrow> (Inr h, s2)))"

section \<open>SQLite\<close>

definition sqlite_dsn :: "string \<Rightarrow> int \<Rightarrow> string" where
  "sqlite_dsn path timeout =
     ''file:'' @ path @ ''?_journal_mode=WAL&_foreign_keys=on&_busy_timeout='' @ Itoa (go_quot timeout 1000000)
     @ ''&_synchronous=NORMAL&_txlock=immediate''"

definition openSQLite :: "openenv \<Rightarrow> StorageConfig \<Rightarrow> dbstate \<Rightarrow> store_handle res \<times> dbstate" where
  "openSQLite e cfg s =
     (case oe_MkdirAll e (DataDir cfg) of
        Some err \<Rightarrow> (Inl (Wrap (''create data dir '' @ Quote (DataDir cfg) @ '': '') err []), s)
      | None \<Rightarrow>
          (let path = filepath_Join (DataDir cfg) ''opensynccrdt.db''; dsn = sqlite_dsn path (BusyTimeout cfg) in
           case oe_Open e ''sqlite3'' dsn of
             Some err \<Rightarrow> (Inl (Wrap (''open sqlite '' @ Quote path @ '': '') err []), s)
           | None \<Rightarrow>
               (let s1 = open_handle s; h = \<lparr>hd_backend = SQLite, hd_dsn = dsn, hd_MinConns = 0,
                      hd_MaxConns = (if MaxOpenConns cfg > 0 then Some (MaxOpenConns cfg) else None)\<rparr> in
                ping_and_migrate SQLite (''ping sqlite '' @ Quote path @ '': '') ''migrate sqlite schema: '' h e s1)))"

section \<open>PostgreSQL\<close>

definition pgConnString :: "StorageConfig \<Rightarrow> string res" where
  "pgConnString cfg =
     (case url_Parse (URL cfg) of
        Inl err \<Rightarrow> Inl (Wrap ''parse postgres url: '' err [])
      | Inr u \<Rightarrow>
          (let q = url_Query u in
           Inr (url_String
             (if Values_Get q ''sslmode'' = [] \<and> PostgresSSLMode cfg \<noteq> []
              then u\<lparr>u_RawQuery := Values_Encode (Values_Set ''sslmode'' (PostgresSSLMode cfg) q)\<rparr>
              else u))))"

text \<open>The conversion to \<^verbatim>\<open>int32\<close>.\<close>

definition i32 :: "int \<Rightarrow> int" where
  "i32 x = (x + 2 ^ 31) mod 2 ^ 32 - 2 ^ 31"

definition openPostgres :: "openenv \<Rightarrow> StorageConfig \<Rightarrow> dbstate \<Rightarrow> store_handle res \<times> dbstate" where
  "openPostgres e cfg s =
     (case pgConnString cfg of
        Inl err \<Rightarrow> (Inl err, s)
      | Inr connString \<Rightarrow>
          (case oe_ParseConfig e connString of
             Some err \<Rightarrow> (Inl (Wrap ''parse postgres url: '' err []), s)
           | None \<Rightarrow>
               (let minConns = 2; maxConns = i32 (PostgresMaxConns cfg);
                    h = \<lparr>hd_backend = Postgres, hd_dsn = connString, hd_MinConns = minConns,
                         hd_MaxConns = Some (if maxConns < minConns then minConns else maxConns)\<rparr> in
                case oe_Open e ''pgx'' connString of
                  Some err \<Rightarrow> (Inl (Wrap ''connect postgres: '' err []), s)
                | None \<Rightarrow>
                    ping_and_migrate Postgres ''ping postgres: '' ''migrate postgres schema: '' h e (open_handle s))))"

section \<open>MySQL\<close>

definition mysql_config :: "url \<Rightarrow> mysqlConfig" where
  "mysql_config u =
     \<lparr>my_Net = ''tcp'',
      my_Addr = (if url_Port u = [] then Hostname u @ '':3306'' else u_Host u),
      my_DBName = (case u_Path u of [] \<Rightarrow> [] | c # cs \<Rightarrow> if c = CHR ''/'' then cs else c # cs),
      my_User = (case u_User u of None \<Rightarrow> [] | Some ui \<Rightarrow> ui_Username ui),
      my_Passwd = (case u_User u of None \<Rightarrow> [] | Some ui \<Rightarrow> (case ui_Password ui of None \<Rightarrow> [] | Some pw \<Rightarrow> pw)),
      my_Params = map (\<lambda>(k, vs). (k, hd vs)) (filter (\<lambda>(k, vs). vs \<noteq> []) (url_Query u))\<rparr>"

definition mysqlDSN :: "openenv \<Rightarrow> string \<Rightarrow> string res" where
  "mysqlDSN e raw =
     (case url_Parse raw of
        Inl err \<Rightarrow> Inl (Wrap ''parse mysql url: '' err [])
      | Inr u \<Rightarrow> Inr (oe_FormatDSN e (mysql_config u)))"

definition openMySQL :: "openenv \<Rightarrow> StorageConfig \<Rightarrow> dbstate \<Rightarrow> store_handle res \<times> dbstate" where
  "openMySQL e cfg s =
     (case mysqlDSN e (URL cfg) of
        Inl err \<Rightarrow> (Inl err, s)
      | Inr dsn \<Rightarrow>
          (case oe_Open e ''mysql'' dsn of
             Some err \<Rightarrow> (Inl (Wrap ''open mysql: '' err []), s)
           | None \<Rightarrow>
               (let s1 = open_handle s; k = MySQL (oe_collation e);
                    h = \<lparr>hd_backend = k, hd_dsn = dsn, hd_MinConns = 0,
                         hd_MaxConns = (if MySQLMaxConns cfg > 0 then Some (MySQLMaxConns cfg) else None)\<rparr> in
                ping_and_migrate k ''ping mysql: '' ''migrate mysql schema: '' h e s1)))"

section \<open>Choosing one\<close>

definition Open :: "openenv \<Rightarrow> StorageConfig \<Rightarrow> dbstate \<Rightarrow> store_handle res \<times> dbstate" where
  "Open e cfg s =
     (if Backend cfg = StorageSQLite then openSQLite e cfg s
      else if Backend cfg = StoragePostgres then openPostgres e cfg s
      else if Backend cfg = StorageMySQL then openMySQL e cfg s
      else (Inl (Msg (''unsupported storage backend '' @ Quote (Backend cfg))), s))"

section \<open>What opening leaves\<close>

lemma handles [simp]:
  "ds_cat (open_handle s) = ds_cat s" "ds_open (open_handle s) = ds_open s + 1"
  "ds_cat (close_handle s) = ds_cat s" "ds_open (close_handle s) = ds_open s - 1"
  by (simp_all add: open_handle_def close_handle_def)

text \<open>A failed attempt leaves no handle; a successful one leaves one, and the database is what the migration made of it.\<close>

lemma ping_and_migrate_cases:
  assumes "ping_and_migrate k pinging migrating h e (open_handle s) = (r, s')"
  shows "(\<exists>err. r = Inl err) \<and> ds_open s' = ds_open s \<and> (ds_cat s' = ds_cat s \<or> ds_cat s' = ds_cat (snd (do_migrate k e s)))
     \<or> r = Inr h \<and> ds_open s' = ds_open s + 1 \<and> fst (do_migrate k e s) = None \<and> ds_cat s' = ds_cat (snd (do_migrate k e s))"
  using assms
  by (auto simp: ping_and_migrate_def do_migrate_def open_handle_def close_handle_def split: option.splits prod.splits)

text \<open>The backend a configuration names, and when its server can be reached.\<close>

definition chosen :: "openenv \<Rightarrow> StorageConfig \<Rightarrow> backend option" where
  "chosen e cfg =
     (if Backend cfg = StorageSQLite then Some SQLite
      else if Backend cfg = StoragePostgres then Some Postgres
      else if Backend cfg = StorageMySQL then Some (MySQL (oe_collation e))
      else None)"

definition storage_up :: "openenv \<Rightarrow> StorageConfig \<Rightarrow> bool" where
  "storage_up e cfg \<longleftrightarrow>
     oe_MkdirAll e (DataDir cfg) = None \<and> (\<forall>x. oe_ParseConfig e x = None) \<and> (\<forall>d x. oe_Open e d x = None) \<and> oe_Ping e = None
     \<and> list_all (\<lambda>x. x = Succeeds) (oe_outs e) \<and> (Backend cfg = StorageSQLite \<or> (\<exists>u. url_Parse (URL cfg) = Inr u))"

text \<open>What all three functions do: an error before a handle is open, or the common end.\<close>

inductive opened :: "backend \<Rightarrow> openenv \<Rightarrow> StorageConfig \<Rightarrow> dbstate \<Rightarrow> store_handle res \<times> dbstate \<Rightarrow> bool" where
  early: "\<not> storage_up e cfg \<Longrightarrow> opened k e cfg s (Inl err, s)"
| late: "hd_backend h = k \<Longrightarrow> opened k e cfg s (ping_and_migrate k pinging migrating h e (open_handle s))"

lemma opened_SQLite: "opened SQLite e cfg s (openSQLite e cfg s)"
  by (auto simp: openSQLite_def Let_def storage_up_def split: option.split intro!: opened.intros)

lemma opened_Postgres: "Backend cfg = StoragePostgres \<Longrightarrow> opened Postgres e cfg s (openPostgres e cfg s)"
  by (auto simp: openPostgres_def pgConnString_def Let_def storage_up_def StorageSQLite_def StoragePostgres_def
      split: option.split sum.split intro!: opened.intros)

lemma opened_MySQL: "Backend cfg = StorageMySQL \<Longrightarrow> opened (MySQL (oe_collation e)) e cfg s (openMySQL e cfg s)"
  by (auto simp: openMySQL_def mysqlDSN_def Let_def storage_up_def StorageSQLite_def StorageMySQL_def
      split: option.split sum.split intro!: opened.intros)

lemma do_migrate_ok:
  assumes "ds_cat s = migrated_by k es" "do_migrate k e s = (r, s')"
  shows "ds_cat s' = migrated_by k (es @ [Attempt (oe_now e) (oe_outs e)]) \<and> ct_db (ds_cat s') = ct_db (ds_cat s)
     \<and> (r = None \<longrightarrow> schema_complete k (ds_cat s')) \<and> (list_all (\<lambda>x. x = Succeeds) (oe_outs e) \<longrightarrow> r = None)"
proof -
  obtain m x where x: "migrate k (oe_now e) \<lparr>se_cat = ds_cat s, se_outs = oe_outs e\<rparr> = (m, x)" by fastforce
  then have "r = m" "ds_cat s' = se_cat x" using assms(2) by (auto simp: do_migrate_def)
  then show ?thesis using migrate_again [OF assms(1) x] x assms(1) by (simp add: migrated_by_def)
qed

text \<open>
  Opening a database that any history of attempts and changes has left: the rows are kept; a failure leaves
  no handle open; a success leaves one, on the chosen backend with its schema complete; and if nothing
  fails, opening succeeds.
\<close>

lemma opened_ok:
  assumes "opened k e cfg s (r, s')" "ds_cat s = migrated_by k es"
  shows "(\<exists>es'. ds_cat s' = migrated_by k es') \<and> ct_db (ds_cat s') = ct_db (ds_cat s)
     \<and> (case r of Inl _ \<Rightarrow> ds_open s' = ds_open s
        | Inr h \<Rightarrow> hd_backend h = k \<and> ds_open s' = ds_open s + 1 \<and> schema_complete k (ds_cat s'))
     \<and> (storage_up e cfg \<longrightarrow> (\<exists>h. r = Inr h))"
  using assms(1)
proof cases
  case early
  with assms(2) show ?thesis by auto
next
  case (late h pinging migrating)
  obtain m s2 where m: "do_migrate k e s = (m, s2)" by fastforce
  note ok = do_migrate_ok [OF assms(2) m]
  have up: "\<exists>h. r = Inr h" if "storage_up e cfg"
  proof -
    have "oe_Ping e = None" "m = None" using that ok by (simp_all add: storage_up_def)
    moreover from this m have "fst (do_migrate k e (open_handle s)) = None" by (auto simp: do_migrate_def split: prod.splits)
    ultimately show ?thesis using late(1) by (auto simp: ping_and_migrate_def split: prod.splits)
  qed
  have "ping_and_migrate k pinging migrating h e (open_handle s) = (r, s')" using late(1) by simp
  from ping_and_migrate_cases [OF this] m ok up late(2) assms(2) show ?thesis by (elim disjE) auto
qed

lemma Open_ok:
  assumes "chosen e cfg = Some k" "ds_cat s = migrated_by k es" "Open e cfg s = (r, s')"
  shows "(\<exists>es'. ds_cat s' = migrated_by k es') \<and> ct_db (ds_cat s') = ct_db (ds_cat s)
     \<and> (case r of Inl _ \<Rightarrow> ds_open s' = ds_open s
        | Inr h \<Rightarrow> hd_backend h = k \<and> ds_open s' = ds_open s + 1 \<and> schema_complete k (ds_cat s'))
     \<and> (storage_up e cfg \<longrightarrow> (\<exists>h. r = Inr h))"
proof -
  have "opened k e cfg s (r, s')"
    using assms(1,3) opened_SQLite [of e cfg s] opened_Postgres [of cfg e s] opened_MySQL [of cfg e s]
    by (auto simp: chosen_def Open_def split: if_splits)
  then show ?thesis using opened_ok assms(2) by blast
qed

lemma Open_unsupported: "chosen e cfg = None \<Longrightarrow> \<exists>err. Open e cfg s = (Inl err, s)"
  by (auto simp: chosen_def Open_def split: if_splits)

lemma Open_handles:
  assumes "Open e cfg s = (r, s')"
  shows "ds_open s' = (case r of Inl _ \<Rightarrow> ds_open s | Inr _ \<Rightarrow> ds_open s + 1)"
proof (cases "chosen e cfg")
  case None
  with Open_unsupported [OF this, of s] assms show ?thesis by auto
next
  case (Some k)
  then have "opened k e cfg s (r, s')"
    using assms opened_SQLite [of e cfg s] opened_Postgres [of cfg e s] opened_MySQL [of cfg e s]
    by (auto simp: chosen_def Open_def split: if_splits)
  then show ?thesis
  proof cases
    case (late h pinging migrating)
    then have "ping_and_migrate k pinging migrating h e (open_handle s) = (r, s')" by simp
    from ping_and_migrate_cases [OF this] show ?thesis by auto
  qed simp
qed

section \<open>Connection settings\<close>

text \<open>The pool of PostgreSQL has between 2 and 2147483647 connections, whatever is configured.\<close>

lemma postgres_pool:
  assumes "openPostgres e cfg s = (Inr h, s')"
  shows "hd_MinConns h = 2 \<and> (\<exists>n. hd_MaxConns h = Some n \<and> 2 \<le> n \<and> n < 2 ^ 31)"
proof -
  have "i32 x < 2 ^ 31" for x by (simp add: i32_def)
  then show ?thesis
    using assms by (auto simp: openPostgres_def ping_and_migrate_def Let_def split: sum.splits option.splits prod.splits)
qed

text \<open>
  A MySQL URL without a port keeps neither the brackets of an IPv6 address nor, then, an address
  the driver can dial.
\<close>

lemma mysql_ipv6_address:
  "map_sum id (my_Addr \<circ> mysql_config) (url_Parse ''mysql://sync@[2001:db8::1]/docs'') = Inr ''2001:db8::1:3306''"
  "map_sum id (my_Addr \<circ> mysql_config) (url_Parse ''mysql://sync@[2001:db8::1]:3306/docs'') = Inr ''[2001:db8::1]:3306''"
  by code_simp+

lemma postgres_sslmode:
  "pgConnString \<lparr>Backend = ''postgres'', DataDir = [], URL = ''postgres://u:p%40ss@db:5432/sync?application_name=a'', SnapshotInterval = 1,
     PostgresMaxConns = 10, PostgresSSLMode = ''require'', MySQLMaxConns = 0, BusyTimeout = 0, MaxOpenConns = 0\<rparr>
   = Inr ''postgres://u:p%40ss@db:5432/sync?application_name=a&sslmode=require''"
  by code_simp

end
