(* ===== verification/Assembly.thy ===== *)
theory Assembly
  imports Opening Router Handler_Runs Cluster_Props
begin

text \<open>
  \<^verbatim>\<open>pkg/engine\<close> and the command \<^verbatim>\<open>opensynccrdt\<close>: how the parts are put together, started and closed. The
  state is the database with its open handles and the Redis service; contexts and goroutines are
  not part of it.
\<close>

section \<open>Configuring an engine (engine.go)\<close>

type_synonym Configurator = "Config \<Rightarrow> Config"

record EngineConfig =
  ec_Storage :: "Configurator option"
  ec_Auth :: "Configurator option"
  ec_Full :: "Config option"
  ec_NodeID :: string

definition SQLiteStorage :: "string \<Rightarrow> Configurator" where
  "SQLiteStorage dataDir c = c\<lparr>c_Storage := (c_Storage c)\<lparr>Backend := StorageSQLite, DataDir := dataDir\<rparr>\<rparr>"

definition NoAuth :: Configurator where
  "NoAuth c = c\<lparr>c_Auth := (c_Auth c)\<lparr>Mode := AuthModeNone\<rparr>\<rparr>"

definition HeaderAuth :: "string \<Rightarrow> Configurator" where
  "HeaderAuth headerName c =
     c\<lparr>c_Auth := (c_Auth c)\<lparr>Mode := AuthModeHeader,
         HeaderName := (if headerName \<noteq> [] then headerName else HeaderName (c_Auth c))\<rparr>\<rparr>"

definition resolved :: "EngineConfig \<Rightarrow> Config" where
  "resolved cfg =
     (let base = (case ec_Full cfg of None \<Rightarrow> Default | Some c \<Rightarrow> c);
          stored = (case ec_Storage cfg of None \<Rightarrow> base | Some f \<Rightarrow> f base)
      in case ec_Auth cfg of None \<Rightarrow> stored | Some f \<Rightarrow> f stored)"

section \<open>Building it\<close>

text \<open>
  What the assembly meets: the storage, the random source (its 8 bytes, or nothing where it fails), and the
  clock in nanoseconds.
\<close>

record asmenv =
  ae_storage :: openenv
  ae_random :: "bytes option"
  ae_nanos :: int

record 'r outer =
  ou_db :: dbstate
  ou_redis :: 'r

record 'd Instance =
  en_cfg :: Config
  en_store :: store_handle
  en_api :: "(db, 'd) API"
  en_srv :: Server
  en_dispatcher :: Dispatcher
  en_cluster :: "Node option"

definition generateNodeID :: "asmenv \<Rightarrow> string" where
  "generateNodeID e =
     (case ae_random e of
        None \<Rightarrow> ''node-'' @ Itoa (ae_nanos e)
      | Some b \<Rightarrow> ''node-'' @ hex_EncodeToString b)"

text \<open>\<^verbatim>\<open>api.New\<close>.\<close>

definition api_New :: "('s, 'd) serverDeps \<Rightarrow> Config \<Rightarrow> string \<Rightarrow> Node option \<Rightarrow> int \<Rightarrow> ('s, 'd) API" where
  "api_New D cfg nodeID node t =
     \<lparr>a_deps = D, a_cfg = cfg, a_startedAt = t, a_nodeID = nodeID, a_cluster = (node \<noteq> None)\<rparr>"

text \<open>
  What the server, the sync engine and the API share: store, hub or node as broadcaster, the options of
  \<^verbatim>\<open>NewEngine\<close>, the dispatcher as emitter, the registry, the limits.
\<close>

definition wire :: "'d automerge \<Rightarrow> Config \<Rightarrow> store_handle \<Rightarrow> Node option \<Rightarrow> (db, 'd) serverDeps" where
  "wire am cfg h node =
     (let D = \<lparr>dp_store = store_of (hd_backend h), dp_automerge = am,
          dp_engine = NewEngine \<lparr>o_SnapshotInterval = SnapshotInterval (c_Storage cfg),
             o_Resolver = NewResolver (ResolverURL (c_Conflict cfg)) (ResolverSecret (c_Conflict cfg)),
             o_ReplayBatchSize = 0, o_Emitter = True\<rparr>,
          dp_emitter = True, dp_metrics = True, dp_observer = False, dp_limits = c_Limits cfg,
          dp_broadcast = (case node of None \<Rightarrow> hub_broadcaster | Some n \<Rightarrow> Node_Broadcast n)\<rparr>
      in case node of None \<Rightarrow> D | Some _ \<Rightarrow> SetSubscriptionObserver D)"

definition instance_of :: "'d automerge \<Rightarrow> asmenv \<Rightarrow> Config \<Rightarrow> store_handle \<Rightarrow> Authenticator \<Rightarrow> string \<Rightarrow> Node option \<Rightarrow> 'd Instance" where
  "instance_of am e cfg h a nodeID node =
     \<lparr>en_cfg = cfg, en_store = h,
      en_api = api_New (wire am cfg h node) cfg nodeID node (ae_nanos e),
      en_srv = server_New a (c_CORS cfg),
      en_dispatcher = NewDispatcher (Events (c_Webhooks cfg)) (WhSecret (c_Webhooks cfg)) (MaxRetries (c_Webhooks cfg)) True,
      en_cluster = node\<rparr>"

definition newFromConfig ::
  "'r redis \<Rightarrow> 'd automerge \<Rightarrow> asmenv \<Rightarrow> Config \<Rightarrow> string \<Rightarrow> 'r outer \<Rightarrow> 'd Instance res \<times> 'r outer" where
  "newFromConfig R am e cfg nodeID0 s =
     (case Open (ae_storage e) (c_Storage cfg) (ou_db s) of
        (Inl err, d) \<Rightarrow> (Inl (Wrap ''open storage: '' err []), s\<lparr>ou_db := d\<rparr>)
      | (Inr h, d) \<Rightarrow>
          (case auth_New (c_Auth cfg) of
             Inl err \<Rightarrow> (Inl (Wrap ''configure auth: '' err []), s\<lparr>ou_db := close_handle d\<rparr>)
           | Inr a \<Rightarrow>
               (let nodeID = (if nodeID0 = [] then generateNodeID e else nodeID0) in
                if ClusterMode (c_Cluster cfg) then
                  (case cluster_New R (RedisURL (c_Cluster cfg)) nodeID (Addr cfg) (ae_nanos e) (ou_redis s) of
                     (Inl err, r) \<Rightarrow> (Inl (Wrap ''join cluster: '' err []), s\<lparr>ou_db := close_handle d, ou_redis := r\<rparr>)
                   | (Inr node, r) \<Rightarrow>
                       (Inr (instance_of am e cfg h a nodeID (Some node)), s\<lparr>ou_db := d, ou_redis := r\<rparr>))
                else (Inr (instance_of am e cfg h a nodeID None), s\<lparr>ou_db := d\<rparr>))))"

definition engine_New ::
  "'r redis \<Rightarrow> 'd automerge \<Rightarrow> asmenv \<Rightarrow> EngineConfig \<Rightarrow> 'r outer \<Rightarrow> 'd Instance res \<times> 'r outer" where
  "engine_New R am e cfg s =
     (case Validate (resolved cfg) of
        Some err \<Rightarrow> (Inl (Wrap ''invalid engine config: '' err []), s)
      | None \<Rightarrow> newFromConfig R am e (resolved cfg) (ec_NodeID cfg) s)"

section \<open>Using it\<close>

definition engine_Handler ::
  "acceptor \<Rightarrow> 'd Instance \<Rightarrow> apienv \<Rightarrow> syncenv \<Rightarrow> Request \<Rightarrow> (db, 'd) world \<Rightarrow> http_reply \<times> (db, 'd) world" where
  "engine_Handler accept en = Handler accept (en_srv en) (en_api en)"

definition WebSocketHandler ::
  "acceptor \<Rightarrow> 'd Instance \<Rightarrow> syncenv \<Rightarrow> Request \<Rightarrow> (db, 'd) world \<Rightarrow> sync_response \<times> (db, 'd) world" where
  "WebSocketHandler accept en se r =
     HandleSync accept (en_srv en) (a_deps (en_api en)) (sy_auth se) (sy_start se) (sy_end se) r (sy_frames se)"

text \<open>\<^verbatim>\<open>Close\<close>; \<open>cerr\<close> is what closing the database handle returns.\<close>

definition engine_Close :: "'r redis \<Rightarrow> goerr option \<Rightarrow> 'd Instance \<Rightarrow> 'r outer \<Rightarrow> goerr option \<times> 'r outer" where
  "engine_Close R cerr en s =
     (case en_cluster en of
        None \<Rightarrow> (cerr, s\<lparr>ou_db := close_handle (ou_db s)\<rparr>)
      | Some n \<Rightarrow>
          (case cluster_Close R n (ou_redis s) of
             (Some err, r) \<Rightarrow> (Some (Wrap ''leave cluster: '' err []), s\<lparr>ou_db := close_handle (ou_db s), ou_redis := r\<rparr>)
           | (None, r) \<Rightarrow> (cerr, s\<lparr>ou_db := close_handle (ou_db s), ou_redis := r\<rparr>)))"

section \<open>The command (main.go)\<close>

datatype level = LevelDebug | LevelInfo | LevelWarn | LevelError

text \<open>The levels in the order of \<^verbatim>\<open>slog\<close>; a logger writes the records from its level on.\<close>

primrec level_value :: "level \<Rightarrow> int" where
  "level_value LevelDebug = -4"
| "level_value LevelInfo = 0"
| "level_value LevelWarn = 4"
| "level_value LevelError = 8"

instantiation level :: linorder
begin

definition less_eq_level :: "level \<Rightarrow> level \<Rightarrow> bool" where
  "less_eq_level a b \<longleftrightarrow> level_value a \<le> level_value b"

definition less_level :: "level \<Rightarrow> level \<Rightarrow> bool" where
  "less_level a b \<longleftrightarrow> level_value a < level_value b"

instance
proof
  fix a b :: level
  show "a \<le> b \<Longrightarrow> b \<le> a \<Longrightarrow> a = b" by (cases a; cases b) (simp_all add: less_eq_level_def)
qed (auto simp: less_eq_level_def less_level_def)

end

record logger =
  lg_Level :: level
  lg_Text :: bool

definition newLogger :: "LogConfig \<Rightarrow> logger" where
  "newLogger cfg =
     (let l = ToLower (LogLevel cfg) in
      \<lparr>lg_Level = (if l = ''debug'' then LevelDebug else if l = ''warn'' then LevelWarn
         else if l = ''error'' then LevelError else LevelInfo),
       lg_Text = EqualFold (LogFormat cfg) ''text''\<rparr>)"

definition Enabled :: "logger \<Rightarrow> level \<Rightarrow> bool" where
  "Enabled lg l \<longleftrightarrow> lg_Level lg \<le> l"

record httpServer =
  hs_Addr :: string
  hs_ReadTimeout :: int
  hs_TLS :: "(string \<times> string) option"

definition http_server :: "Config \<Rightarrow> httpServer" where
  "http_server cfg =
     \<lparr>hs_Addr = Addr cfg,
      hs_ReadTimeout = (if ReadTimeout (c_Limits cfg) > 0 then ReadTimeout (c_Limits cfg) else 0),
      hs_TLS = (if TLSEnabled (c_TLS cfg) then Some (CertFile (c_TLS cfg), KeyFile (c_TLS cfg)) else None)\<rparr>"

text \<open>How serving ends: the listener fails, the server was closed, or a signal arrives (and the drain may time out).\<close>

datatype ending = ListenFails goerr | ServerClosed | Signalled "goerr option"

text \<open>
  \<^verbatim>\<open>run\<close>: what it returns, the servers it has started, and the state after the deferred \<^verbatim>\<open>Close\<close>. \<open>live\<close> is
  what the requests do to the database and Redis while the server runs.
\<close>

definition run ::
  "(string \<Rightarrow> Config \<Rightarrow> Config res) \<Rightarrow> system \<Rightarrow> 'r redis \<Rightarrow> 'd automerge \<Rightarrow> asmenv \<Rightarrow> string \<Rightarrow> ('d Instance \<Rightarrow> 'r outer \<Rightarrow> 'r outer)
     \<Rightarrow> ending \<Rightarrow> goerr option \<Rightarrow> 'r outer \<Rightarrow> goerr option \<times> httpServer list \<times> 'r outer" where
  "run yaml sys R am e configPath live ending cerr s =
     (case Load yaml sys configPath of
        Inl (Panic m) \<Rightarrow> (Some (Panic m), [], s)
      | Inl err \<Rightarrow> (Some (Wrap ''load config: '' err []), [], s)
      | Inr cfg \<Rightarrow>
          (case engine_New R am e \<lparr>ec_Storage = None, ec_Auth = None, ec_Full = Some cfg, ec_NodeID = []\<rparr> s of
             (Inl err, s1) \<Rightarrow> (Some err, [], s1)
           | (Inr en, s1) \<Rightarrow>
               ((case ending of ListenFails err \<Rightarrow> Some (Wrap ''http server: '' err []) | _ \<Rightarrow> None),
                [http_server cfg],
                snd (engine_Close R cerr en (live en s1)))))"

section \<open>What is assembled\<close>

lemma Validate_modes:
  assumes "Validate c = None"
  shows "Mode (c_Auth c) = AuthModeNone \<or> Mode (c_Auth c) = AuthModeHeader \<or> Mode (c_Auth c) = AuthModeWebhook"
    and "Backend (c_Storage c) = StorageSQLite \<or> Backend (c_Storage c) = StoragePostgres \<or> Backend (c_Storage c) = StorageMySQL"
  using assms by (simp_all add: Validate_def split: if_splits)

lemma Validate_auth: "Validate c = None \<Longrightarrow> \<exists>a. auth_New (c_Auth c) = Inr a"
  by (drule Validate_modes(1)) (auto simp: auth_New_def)

lemma Validate_chosen: "Validate c = None \<Longrightarrow> \<exists>k. chosen e (c_Storage c) = Some k"
  by (drule Validate_modes(2)) (auto simp: chosen_def)

lemma wire_single: "hd_backend h = k \<Longrightarrow> backend_ok k \<Longrightarrow> single_node (wire am cfg h None) k"
  by (simp add: single_node_def wire_def NewEngine_def defaultReplayBatchSize_def)

lemma wire_cluster:
  "dp_observer (wire am cfg h (Some n))" "dp_broadcast (wire am cfg h (Some n)) = Node_Broadcast n"
  "dp_store (wire am cfg h (Some n)) = store_of (hd_backend h)"
  by (simp_all add: wire_def SetSubscriptionObserver_def)

text \<open>
  An instance that fits a configuration: on one server the hub is the broadcaster and the backend's laws apply; in a
  cluster the node is both broadcaster and observer.
\<close>

definition fits :: "backend \<Rightarrow> Config \<Rightarrow> 'd Instance \<Rightarrow> bool" where
  "fits k cfg en \<longleftrightarrow>
     en_cfg en = cfg \<and> hd_backend (en_store en) = k \<and> auth_New (c_Auth cfg) = Inr (sv_auth (en_srv en))
     \<and> (if ClusterMode (c_Cluster cfg)
        then \<exists>n. en_cluster en = Some n \<and> dp_observer (a_deps (en_api en)) \<and> dp_broadcast (a_deps (en_api en)) = Node_Broadcast n
          \<and> dp_store (a_deps (en_api en)) = store_of k
        else en_cluster en = None \<and> (backend_ok k \<longrightarrow> single_node (a_deps (en_api en)) k))"

lemma instance_fits:
  assumes "auth_New (c_Auth cfg) = Inr a" "hd_backend h = k" "ClusterMode (c_Cluster cfg) \<longleftrightarrow> node \<noteq> None"
  shows "fits k cfg (instance_of am e cfg h a nodeID node)"
  using assms wire_single [of h k am cfg] wire_cluster [of am cfg h]
  by (cases node) (simp_all add: fits_def instance_of_def api_New_def server_New_def)

text \<open>Everything that can come of the assembly.\<close>

lemma newFromConfig_cases:
  assumes "newFromConfig R am e cfg i s = (x, s')"
  shows "\<exists>h d. Open (ae_storage e) (c_Storage cfg) (ou_db s) = (h, d)
     \<and> (case h of
          Inl _ \<Rightarrow> (\<exists>err. x = Inl err) \<and> ou_db s' = d
        | Inr g \<Rightarrow>
            (case x of
               Inl _ \<Rightarrow> ou_db s' = close_handle d \<and> (ClusterMode (c_Cluster cfg) \<or> (\<forall>a. auth_New (c_Auth cfg) \<noteq> Inr a))
             | Inr en \<Rightarrow> ou_db s' = d \<and> fits (hd_backend g) cfg en))"
proof -
  obtain h d where o: "Open (ae_storage e) (c_Storage cfg) (ou_db s) = (h, d)" by fastforce
  show ?thesis
  proof (cases h)
    case (Inl err)
    with assms o show ?thesis by (auto simp: newFromConfig_def)
  next
    case (Inr g)
    show ?thesis
    proof (cases "auth_New (c_Auth cfg)")
      case (Inl err)
      with assms o Inr show ?thesis by (auto simp: newFromConfig_def)
    next
      case a: (Inr a)
      obtain n r where n: "cluster_New R (RedisURL (c_Cluster cfg)) (if i = [] then generateNodeID e else i) (Addr cfg) (ae_nanos e) (ou_redis s) = (n, r)"
        by fastforce
      show ?thesis
        using assms o Inr a n instance_fits [OF a refl, where h = g]
        by (auto simp: newFromConfig_def Let_def split: if_splits sum.splits)
    qed
  qed
qed

text \<open>Errors are always logged, and a valid configuration gets the level and the format it names.\<close>

lemma logs_errors: "Enabled (newLogger cfg) LevelError"
  by (cases "lg_Level (newLogger cfg)") (simp_all add: Enabled_def less_eq_level_def)

lemma valid_logger:
  assumes "Validate c = None"
  shows "Enabled (newLogger (c_Log c)) LevelInfo \<longleftrightarrow> ToLower (LogLevel (c_Log c)) \<in> {''debug'', ''info''}"
proof -
  have "ToLower (LogLevel (c_Log c)) \<in> {''debug'', ''info'', ''warn'', ''error''}"
    using assms by (simp add: Validate_def split: if_splits)
  then show ?thesis by (auto simp: Enabled_def newLogger_def Let_def less_eq_level_def)
qed

lemma Close_closes: "ds_open (ou_db (snd (engine_Close R cerr en s))) = ds_open (ou_db s) - 1"
  by (simp add: engine_Close_def split: option.split prod.split)

text \<open>The command leaves no handle open, however it ends, if the requests open and close in pairs.\<close>

lemma engine_New_handles:
  assumes "engine_New R am e cfg s = (x, s')"
  shows "ds_open (ou_db s') = (case x of Inl _ \<Rightarrow> ds_open (ou_db s) | Inr _ \<Rightarrow> ds_open (ou_db s) + 1)"
proof (cases "Validate (resolved cfg)")
  case None
  obtain h d where o: "Open (ae_storage e) (c_Storage (resolved cfg)) (ou_db s) = (h, d)" by fastforce
  have "newFromConfig R am e (resolved cfg) (ec_NodeID cfg) s = (x, s')" using assms None by (simp add: engine_New_def)
  from newFromConfig_cases [OF this, unfolded o] Open_handles [OF o] show ?thesis by (auto split: sum.splits)
qed (use assms in \<open>auto simp: engine_New_def\<close>)

lemma run_closes:
  assumes "\<And>en t. ds_open (ou_db (live en t)) = ds_open (ou_db t)"
    and "run yaml sys R am e configPath live ending cerr s = (r, hs, s')"
  shows "ds_open (ou_db s') = ds_open (ou_db s)"
proof (cases "Load yaml sys configPath")
  case (Inl err)
  then show ?thesis using assms(2) by (cases err) (simp_all add: run_def)
next
  case (Inr cfg)
  let ?c = "\<lparr>ec_Storage = None, ec_Auth = None, ec_Full = Some cfg, ec_NodeID = []\<rparr>"
  obtain x s1 where x: "engine_New R am e ?c s = (x, s1)" by fastforce
  from engine_New_handles [OF x] show ?thesis
    using assms(2) Inr x by (cases x) (auto simp: run_def Close_closes assms(1))
qed

text \<open>
  C16: An engine is assembled completely or not at all. Whatever fails, the rows of the database are kept
  and a failed start leaves no database handle open. A successful one has opened the configured
  backend with its schema complete, and has wired the configured authenticator and the
  broadcaster: the hub alone on a single server, so that the guarantees of the single server apply, or the
  cluster node, which also observes the subscriptions; closing it closes the handle. A valid configuration of
  a single server whose storage answers always starts.
\<close>

theorem engine_assembles:
  assumes "chosen (ae_storage e) (c_Storage (resolved cfg)) = Some k" "ds_cat (ou_db s) = migrated_by k es"
    and "engine_New R am e cfg s = (x, s')"
  shows "ct_db (ds_cat (ou_db s')) = ct_db (ds_cat (ou_db s))
     \<and> (case x of
          Inl _ \<Rightarrow> ds_open (ou_db s') = ds_open (ou_db s)
        | Inr en \<Rightarrow> fits k (resolved cfg) en \<and> schema_complete k (ds_cat (ou_db s'))
            \<and> ds_open (ou_db s') = ds_open (ou_db s) + 1
            \<and> ds_open (ou_db (snd (engine_Close R cerr en s'))) = ds_open (ou_db s))
     \<and> (Validate (resolved cfg) = None \<and> \<not> ClusterMode (c_Cluster (resolved cfg)) \<and> storage_up (ae_storage e) (c_Storage (resolved cfg))
          \<longrightarrow> (\<exists>en. x = Inr en))"
proof (cases "Validate (resolved cfg)")
  case (Some err)
  with assms(3) have "s' = s" "\<exists>err. x = Inl err" by (auto simp: engine_New_def)
  with Some show ?thesis by auto
next
  case None
  with assms(3) have n: "newFromConfig R am e (resolved cfg) (ec_NodeID cfg) s = (x, s')" by (simp add: engine_New_def)
  obtain h d where o: "Open (ae_storage e) (c_Storage (resolved cfg)) (ou_db s) = (h, d)" by fastforce
  note ok = Open_ok [OF assms(1,2) o] and c = newFromConfig_cases [OF n, unfolded o]
  show ?thesis
  proof (cases h)
    case (Inl err)
    with ok c show ?thesis by auto
  next
    case (Inr g)
    show ?thesis
    proof (cases x)
      case (Inl err)
      with ok c Inr Validate_auth [OF None] show ?thesis by auto
    next
      case en: (Inr en)
      with ok c Inr show ?thesis by (auto simp: Close_closes)
    qed
  qed
qed

text \<open>The embedded engine of the documentation: SQLite in a directory, no authentication, on a new database.\<close>

definition calm_open :: openenv where
  "calm_open = \<lparr>oe_MkdirAll = \<lambda>_. None, oe_ParseConfig = \<lambda>_. None, oe_Open = \<lambda>_ _. None, oe_Ping = None, oe_FormatDSN = my_Addr,
     oe_outs = [], oe_now = 1, oe_collation = binary\<rparr>"

definition calm_asm :: asmenv where
  "calm_asm = \<lparr>ae_storage = calm_open, ae_random = Some [1, 2, 3, 4, 5, 6, 7, 8], ae_nanos = 0\<rparr>"

definition embedded :: EngineConfig where
  "embedded = \<lparr>ec_Storage = Some (SQLiteStorage ''./data''), ec_Auth = Some NoAuth, ec_Full = None, ec_NodeID = []\<rparr>"

definition outer0 :: "mem outer" where
  "outer0 = \<lparr>ou_db = \<lparr>ds_cat = new_catalog, ds_open = 0\<rparr>, ou_redis = ({}, [], [])\<rparr>"

lemma embedded_valid:
  "Validate (resolved embedded) = None" "\<not> ClusterMode (c_Cluster (resolved embedded))"
  "Backend (c_Storage (resolved embedded)) = StorageSQLite" "Mode (c_Auth (resolved embedded)) = AuthModeNone"
  by code_simp+

theorem engine_assembles_witness:
  "\<exists>en s'. engine_New mem_redis am_set calm_asm embedded outer0 = (Inr en, s') \<and> single_node (a_deps (en_api en)) SQLite
     \<and> sv_auth (en_srv en) = noneAuth \<and> ds_open (ou_db s') = 1"
proof -
  obtain x s' where x: "engine_New mem_redis am_set calm_asm embedded outer0 = (x, s')" by fastforce
  have c: "chosen (ae_storage calm_asm) (c_Storage (resolved embedded)) = Some SQLite"
    by (simp add: chosen_def embedded_valid(3))
  have "ds_cat (ou_db outer0) = migrated_by SQLite []" by (simp add: outer0_def migrated_by_def)
  note t = engine_assembles [OF c this x, where cerr = None]
  have "storage_up (ae_storage calm_asm) (c_Storage (resolved embedded))"
    by (simp add: storage_up_def calm_asm_def calm_open_def embedded_valid(3))
  with t embedded_valid(1,2) obtain en where en: "x = Inr en" by blast
  with t have f: "fits SQLite (resolved embedded) en" "ds_open (ou_db s') = 1" by (simp_all add: outer0_def)
  then have "sv_auth (en_srv en) = noneAuth" "single_node (a_deps (en_api en)) SQLite"
    using embedded_valid(2,4) by (simp_all add: fits_def auth_New_def backend_ok_def)
  with en x f show ?thesis by blast
qed

end
