(* ===== verification/Spec2Isabelle.thy ===== *)
theory Spec2Isabelle
  imports Handler_Runs Cluster_Props Api_Props Assembly
begin

text \<open>
  A verification development of OpenSyncCRDT, a sync server for CRDT documents: clients submit binary changes over
  WebSockets, the server numbers them in a log per document, applies them to a cached document, sends them on to the
  other subscribers and replays what a client missed. This theory imports the whole development; the notes below say
  what models what.

  \<^bold>\<open>The program and its model\<close>

  Every Go function is a function of the same name (with a prefix where several packages share one), from explicit
  state to explicit state. A Go error is \<open>Inl\<close> of a \<open>goerr\<close>, which keeps what \<^verbatim>\<open>errors.Is\<close>, \<^verbatim>\<open>errors.As\<close> and
  \<^verbatim>\<open>Error()\<close> can see. What the program meets outside (the clock, the outcome of every database call, HTTP replies, the
  choice a \<^verbatim>\<open>select\<close> makes) is an environment argument, so a theorem for all environments holds under all faults. A
  database call can succeed, fail without effect, or be lost: it had its effect but reports an error. Logging is left
  out.

  \<^item> \<open>Prelude\<close>, \<open>Json\<close>, \<open>Golib\<close>, \<open>Gotime\<close>, \<open>Gourl\<close>: the part of Go and its standard library that the program uses:
    64-bit arithmetic, errors, strings, \<^verbatim>\<open>encoding/json\<close> (printing and parsing, with the round trip), base64, hex, UTF-8,
    \<^verbatim>\<open>strconv\<close>, durations, RFC 3339 times, paths and URLs.
  \<^item> \<open>Protocol\<close>: \<^verbatim>\<open>pkg/protocol\<close>. The messages and the JSON codec; MessagePack is a parameter.
  \<^item> \<open>Store\<close>: the interface of \<^verbatim>\<open>internal/storage\<close> as a record of operations, the environment of a call, and the
    contract of a store as the locale \<open>store\<close>: an invariant and a view of the database as a log per document, with the
    laws of every operation. \<open>Sql\<close> has the tables, the meaning of the statements, transactions, the invariant \<open>db_inv\<close>
    and the locale \<open>sql_backend\<close>, which extends \<open>store\<close>. \<open>Sqlite\<close>, \<open>Postgres\<close> and \<open>Mysql\<close> are the backends and
    interpret it; the text comparison of MySQL is the parameter \<open>collation\<close>. \<open>Backends\<close> runs sequences of calls and
    proves what the backends share and where they differ.
  \<^item> \<open>Migrations\<close> and \<open>Opening\<close>: the catalogue of a database, the three schemas, the migrations as runs of statements in
    which any call may fail or be lost (the locale \<open>migration\<close>, interpreted for each backend), connection strings, pool
    sizes, and \<^verbatim>\<open>storage.Open\<close>.
  \<^item> \<open>Crdt\<close>: \<^verbatim>\<open>internal/crdt\<close>. Automerge is a record of the functions called; \<open>automerge_laws\<close> states what the library
    documents: a document is a set of changes, saved and loaded without loss. The conflict resolver's request and reply
    are modelled in full.
  \<^item> \<open>Webhook\<close>: \<^verbatim>\<open>internal/webhook\<close>, with SHA-256 and HMAC written out, the event body and the retry loop with its 64-bit
    counter and delays.
  \<^item> \<open>Sync_Engine\<close>: \<^verbatim>\<open>internal/sync\<close>. The engine over any store and any Automerge: \<open>Submit\<close>, \<open>loadDoc\<close>, \<open>Snapshot\<close>,
    \<open>Export\<close>, \<open>Forget\<close>, \<open>Engine_Replay\<close>, each with the effects it has in order. \<open>Engine_Laws\<close> proves its invariant in
    the locale \<open>store\<close>; \<open>Engine_Props\<close> states the properties over the backends.
  \<^item> \<open>Config\<close>, \<open>Auth\<close>, \<open>Metrics\<close>: \<^verbatim>\<open>internal/config\<close> (the YAML decoder is a parameter), \<^verbatim>\<open>internal/auth\<close> with the cache of
    the webhook mode, \<^verbatim>\<open>internal/metrics\<close> with the text exposition.
  \<^item> \<open>Hub\<close>, \<open>Connection\<close>, \<open>Server\<close>: \<^verbatim>\<open>internal/server\<close>. The world holds the hub, the connections, the engine, the
    metrics, the authenticator's cache and a trace of calls to the outside; the handlers change it. What a broadcaster
    may do is the locale \<open>broadcaster\<close>, interpreted for the hub and for a cluster node.
  \<^item> \<open>Interleave\<close>, \<open>Delivery\<close>, \<open>Handler_Runs\<close>: the concurrent server as a step relation: requests are admitted,
    read messages, submit, send batches of a replay and leave, in any interleaving of these steps. A step is what one
    goroutine does under one lock or in one call to the engine. The handlers of \<open>Server\<close> are runs of these steps.
  \<^item> \<open>Cluster\<close>, \<open>Cluster_Props\<close>: \<^verbatim>\<open>internal/cluster\<close> over a record of the Redis calls, whose documented behaviour the
    predicates \<open>pubsub_laws\<close> and \<open>keys_laws\<close> state.
  \<^item> \<open>Api\<close>, \<open>Router\<close>, \<open>Api_Props\<close>: \<^verbatim>\<open>internal/api\<close>. Every handler with its status codes and bodies, and the complete
    handler with recovery, CORS, the management key and the choice of a route as \<^verbatim>\<open>http.ServeMux\<close> makes it.
  \<^item> \<open>Assembly\<close>: \<^verbatim>\<open>pkg/engine\<close> and \<^verbatim>\<open>cmd/opensynccrdt\<close>. How the parts are built from a configuration, with every error
    path, and closed.

  \<^bold>\<open>What is proved\<close>

  \<^item> Durability and contents: an acknowledged change stays in the log and in every later export, through faults and
    restarts; without a failed submit or deletion an export holds exactly the changes of the log, so snapshot plus tail
    equals full replay (these with automatic merging); a submit of a change that the library accepts on the document
    at hand commits when no call fails; it broadcasts once, last, with the committed number; an export
    over HTTP is the text of such a state.
  \<^item> Storage: the invariant of the tables under any faults, atomic appends, complete deletions, equal results of the three
    backends up to ties in listings for values that fit all three schemas, the exact slice of a listing, metadata round trip, convergence of the migrations.
  \<^item> Delivery: in every interleaving, once the handlers are at rest, an open subscriber was handed every acknowledged
    change after its number; slots and queues stay within their bounds; replays are complete and in order; across
    nodes, what is published is delivered as a local broadcast, and a node listens to the channels it serves.
  \<^item> Edges: who is authenticated and what reaches the management API without its key, which origins are allowed, what a 404
    means, that a request has one route, where each setting comes from, signed and retried webhooks, the exact lines
    of the metrics, what a started engine consists of.
  \<^item> Behaviour that differs from what the code or its documentation intends is stated as theorems as well, each for every
    backend, library and history it concerns, the races over step relations of their own (\<open>hub_step\<close> in \<open>Cluster_Props\<close>,
    \<open>delete_step\<close> in \<open>Api_Props\<close>) with the handlers' actions as steps: a refused change
    stays in the cache and in the next snapshot; the resolver's state is not committed to the log; a snapshot of one cluster node
    drops the changes of another; notifications of the hub overtake each other; a deleted document returns; MySQL mixes
    ids that its collation identifies; two token and document pairs share a cache key; an environment variable panics the loader;
    two servers that migrate a new database together.

  \<^bold>\<open>Bounds\<close>

  Functions are total and executable. Recursion that is not structural has a measure; the JSON parser has fuel, and the
  length of the text is enough (\<open>Json\<close> proves that printed values are parsed back). The retry loop and the sequence
  numbers have their 64-bit arithmetic; theorems about histories assume fewer operations than \<open>max_i64\<close>, since the
  numbers would wrap around there. Loops over sockets, tickers and pub/sub messages run over the list of what arrives.

  \<^bold>\<open>Not modelled\<close>

  Logging and its destination; contexts and timeouts, which appear as the errors they cause; the WebSocket, YAML,
  MessagePack, Automerge, Redis and database driver libraries, which are parameters with their documented behaviour;
  goroutine scheduling below the steps named above (\<open>Sync_Engine\<close> says why reading a document from the store outside its
  lock is no step of its own); the limits of the database columns, except as failing outcomes of a statement and in the
  comparison of the backends; the folding of letters outside ASCII in \<^verbatim>\<open>strings.EqualFold\<close> and \<^verbatim>\<open>strings.ToLower\<close>; TLS and listening sockets; the tests, documents
  and deployment files of the repository.
\<close>

end
